(* ===== verification/Go_Prelude.thy ===== *)
theory Go_Prelude
  imports
    Complex_Main
    "HOL-Library.Finite_Map"
    "HOL-Library.Multiset"
    "HOL-Library.List_Lexorder"
    "HOL-Library.Char_ord"
    "HOL-Library.Product_Lexorder"
begin

text \<open>
  Shared vocabulary of the development: the Go facilities every component uses (maps,
  stable sorting, prefix and suffix tests on byte strings) and the generic lemmas the
  component proofs rest on.

  A Go \<^verbatim>\<open>map[K]V\<close> is a finite map \<open>('k, 'v) fmap\<close>; reading an absent key gives
  the zero value, which \<open>lookup_or\<close> writes out. A Go string is its list of bytes, so
  \<open>string\<close> with the lexicographic order of \<open>List_Lexorder\<close> is Go's string comparison.
  \<^verbatim>\<open>sort.SliceStable\<close> is \<open>sort_stable\<close>, an insertion sort driven by the same
  \<^verbatim>\<open>less\<close> closure the source passes: for a strict weak order every stable sort returns
  this list.
\<close>

named_theorems go_simps \<open>characteristic equations of the modelled Go facilities\<close>

section \<open>Maps\<close>

definition lookup_or :: "'v \<Rightarrow> ('k, 'v) fmap \<Rightarrow> 'k \<Rightarrow> 'v" where
  "lookup_or z m k = (case fmlookup m k of None \<Rightarrow> z | Some v \<Rightarrow> v)"

lemma lookup_or_empty [simp, go_simps]: "lookup_or z fmempty k = z"
  by (simp add: lookup_or_def)

lemma lookup_or_upd [simp, go_simps]:
  "lookup_or z (fmupd k v m) k' = (if k' = k then v else lookup_or z m k')"
  by (simp add: lookup_or_def)

section \<open>Stable sorting\<close>

fun insert_by :: "('a \<Rightarrow> 'a \<Rightarrow> bool) \<Rightarrow> 'a \<Rightarrow> 'a list \<Rightarrow> 'a list" where
  "insert_by lt x [] = [x]"
| "insert_by lt x (y # ys) = (if lt y x then y # insert_by lt x ys else x # y # ys)"

definition sort_stable :: "('a \<Rightarrow> 'a \<Rightarrow> bool) \<Rightarrow> 'a list \<Rightarrow> 'a list" where
  "sort_stable lt xs = foldr (insert_by lt) xs []"

lemma sort_stable_Nil [simp]: "sort_stable lt [] = []"
  by (simp add: sort_stable_def)

lemma sort_stable_Cons [simp]:
  "sort_stable lt (x # xs) = insert_by lt x (sort_stable lt xs)"
  by (simp add: sort_stable_def)

lemma mset_insert_by [simp]: "mset (insert_by lt x ys) = add_mset x (mset ys)"
  by (induction ys) auto

lemma mset_sort_stable [simp]: "mset (sort_stable lt xs) = mset xs"
  by (induction xs) auto

lemma set_sort_stable [simp]: "set (sort_stable lt xs) = set xs"
  by (metis mset_sort_stable set_mset_mset)

lemma length_sort_stable [simp]: "length (sort_stable lt xs) = length xs"
  by (metis mset_sort_stable size_mset)

lemma distinct_sort_stable [simp]: "distinct (sort_stable lt xs) = distinct xs"
  by (metis mset_eq_imp_distinct_iff mset_sort_stable)

lemma distinct_map_sort_stable [simp]:
  "distinct (map f (sort_stable lt xs)) = distinct (map f xs)"
  by (metis mset_eq_imp_distinct_iff mset_map mset_sort_stable)

text \<open>The contract a \<^verbatim>\<open>less\<close> closure has to meet for a sort to be meaningful, on the
  elements \<open>ok\<close> that really occur: Go's documentation asks for a strict weak order.\<close>

locale weak_order =
  fixes lt :: "'a \<Rightarrow> 'a \<Rightarrow> bool" and ok :: "'a \<Rightarrow> bool"
  assumes irrefl: "ok a \<Longrightarrow> \<not> lt a a"
    and trans: "ok a \<Longrightarrow> ok b \<Longrightarrow> ok c \<Longrightarrow> lt a b \<Longrightarrow> lt b c \<Longrightarrow> lt a c"
    and neg_trans: "ok a \<Longrightarrow> ok b \<Longrightarrow> ok c \<Longrightarrow> \<not> lt a b \<Longrightarrow> \<not> lt b c \<Longrightarrow> \<not> lt a c"
begin

lemma asym: "ok a \<Longrightarrow> ok b \<Longrightarrow> lt a b \<Longrightarrow> \<not> lt b a"
  using irrefl trans by blast

lemma sorted_insert_by:
  assumes "ok x" and "\<forall>y \<in> set ys. ok y"
    and "sorted_wrt (\<lambda>a b. \<not> lt b a) ys"
  shows "sorted_wrt (\<lambda>a b. \<not> lt b a) (insert_by lt x ys)"
  using assms
proof (induction ys)
  case Nil
  then show ?case by simp
next
  case (Cons y ys)
  have sub: "z \<in> set (insert_by lt x ys) \<Longrightarrow> z = x \<or> z \<in> set ys" for z
    by (metis insert_iff mset_insert_by set_mset_add_mset_insert set_mset_mset)
  show ?case
  proof (cases "lt y x")
    case True
    then have "\<not> lt x y" using Cons.prems asym by simp
    with True Cons sub show ?thesis by auto
  next
    case False
    have "\<not> lt z x" if "z \<in> set ys" for z
      using neg_trans [of z y x] that Cons.prems False by auto
    with False Cons.prems show ?thesis by auto
  qed
qed

lemma sorted_sort_stable:
  "\<forall>x \<in> set xs. ok x \<Longrightarrow> sorted_wrt (\<lambda>a b. \<not> lt b a) (sort_stable lt xs)"
  by (induction xs) (auto intro: sorted_insert_by)

end

section \<open>Lists\<close>

lemma sorted_wrt_butlast: "sorted_wrt P xs \<Longrightarrow> sorted_wrt P (butlast xs)"
  by (metis append_butlast_last_id butlast.simps(1) sorted_wrt_append)

lemma mset_eq_set: "mset xs = mset ys \<Longrightarrow> set xs = set ys"
  by (metis set_mset_mset)

end
