(* ===== verification/Float64.thy ===== *)
theory Float64
  imports Go_Prelude
begin

text \<open>
  Go's \<^verbatim>\<open>float64\<close> and \<^verbatim>\<open>float32\<close> with the special values the engine
  produces on purpose: \<open>math.Inf(1)\<close> for certain evidence and for the score of a Local
  Context group, \<open>math.Inf(-1)\<close> as the neutral element of a maximum, and NaN, which
  \<open>Inf - Inf\<close> makes. Comparisons and arithmetic follow IEEE 754 on the special values
  (a comparison with NaN is false, \<open>0 * Inf\<close> is NaN). Between finite values the model
  computes exactly: a finite \<^verbatim>\<open>float64\<close> is a real number, its arithmetic does not
  round, and the two zeros are one. The narrowing to \<^verbatim>\<open>float32\<close>, which loses 29 bits
  of every stored score, does round: theory \<open>Float32\<close>. The statements of the
  development are about order, bounds and case distinctions of the code.
\<close>

datatype float64 = NaN | NInf | Fin real | PInf

instantiation float64 :: ord
begin

fun less_eq_float64 :: "float64 \<Rightarrow> float64 \<Rightarrow> bool" where
  "less_eq_float64 NaN y = False"
| "less_eq_float64 NInf y = (y \<noteq> NaN)"
| "less_eq_float64 (Fin a) y = (case y of Fin b \<Rightarrow> a \<le> b | PInf \<Rightarrow> True | _ \<Rightarrow> False)"
| "less_eq_float64 PInf y = (y = PInf)"

fun less_float64 :: "float64 \<Rightarrow> float64 \<Rightarrow> bool" where
  "less_float64 NaN y = False"
| "less_float64 NInf y = (y \<noteq> NaN \<and> y \<noteq> NInf)"
| "less_float64 (Fin a) y = (case y of Fin b \<Rightarrow> a < b | PInf \<Rightarrow> True | _ \<Rightarrow> False)"
| "less_float64 PInf y = False"

instance ..

end

instantiation float64 :: "{plus, minus, uminus, times, divide, inverse, zero, one}"
begin

definition "0 = Fin 0"

definition "1 = Fin 1"

fun plus_float64 :: "float64 \<Rightarrow> float64 \<Rightarrow> float64" where
  "plus_float64 NaN y = NaN"
| "plus_float64 NInf y = (if y = NaN \<or> y = PInf then NaN else NInf)"
| "plus_float64 (Fin a) y = (case y of Fin b \<Rightarrow> Fin (a + b) | z \<Rightarrow> z)"
| "plus_float64 PInf y = (if y = NaN \<or> y = NInf then NaN else PInf)"

fun uminus_float64 :: "float64 \<Rightarrow> float64" where
  "uminus_float64 NaN = NaN"
| "uminus_float64 NInf = PInf"
| "uminus_float64 (Fin a) = Fin (- a)"
| "uminus_float64 PInf = NInf"

definition minus_float64 :: "float64 \<Rightarrow> float64 \<Rightarrow> float64" where
  "minus_float64 x y = x + (- y)"

fun times_float64 :: "float64 \<Rightarrow> float64 \<Rightarrow> float64" where
  "times_float64 (Fin a) (Fin b) = Fin (a * b)"
| "times_float64 NaN y = NaN"
| "times_float64 x NaN = NaN"
| "times_float64 (Fin a) y = (if a = 0 then NaN else if (0 < a) = (y = PInf) then PInf else NInf)"
| "times_float64 x (Fin b) = (if b = 0 then NaN else if (0 < b) = (x = PInf) then PInf else NInf)"
| "times_float64 x y = (if x = y then PInf else NInf)"

text \<open>Division of finite values by (positive) zero gives an infinity or NaN.\<close>

fun divide_float64 :: "float64 \<Rightarrow> float64 \<Rightarrow> float64" where
  "divide_float64 (Fin a) (Fin b) =
     (if b \<noteq> 0 then Fin (a / b) else if a = 0 then NaN else if 0 < a then PInf else NInf)"
| "divide_float64 NaN y = NaN"
| "divide_float64 x NaN = NaN"
| "divide_float64 (Fin a) y = Fin 0"
| "divide_float64 x (Fin b) = (if (0 \<le> b) = (x = PInf) then PInf else NInf)"
| "divide_float64 x y = NaN"

definition inverse_float64 :: "float64 \<Rightarrow> float64" where
  "inverse_float64 x = Fin 1 div x"

instance ..

end

lemmas float64_consts [simp, go_simps] = zero_float64_def one_float64_def

lemma minus_Fin [simp, go_simps]: "Fin a - Fin b = Fin (a - b)"
  by (simp add: minus_float64_def)

lemma minus_special [simp, go_simps]:
  "PInf - Fin b = PInf" "PInf - PInf = NaN" "Fin a - PInf = NInf" "NaN - y = NaN"
  "NInf - Fin b = NInf"
  by (simp_all add: minus_float64_def)

section \<open>Conversions and the math package\<close>

definition float_of_int :: "int \<Rightarrow> float64" where
  "float_of_int i = Fin (real_of_int i)"

lemma float_of_int_simps [simp, go_simps]: "float_of_int i = Fin (real_of_int i)"
  by (simp add: float_of_int_def)

text \<open>\<^verbatim>\<open>int(f)\<close> truncates toward zero. Go leaves the other cases to the
  implementation; amd64 yields the smallest 64-bit integer.\<close>

fun int_of_float :: "float64 \<Rightarrow> int" where
  "int_of_float (Fin r) =
     (let t = (if 0 \<le> r then \<lfloor>r\<rfloor> else \<lceil>r\<rceil>)
      in if - (2 ^ 63) \<le> t \<and> t < 2 ^ 63 then t else - (2 ^ 63))"
| "int_of_float _ = - (2 ^ 63)"

fun math_Log2 :: "float64 \<Rightarrow> float64" where
  "math_Log2 (Fin r) = (if 0 < r then Fin (log 2 r) else if r = 0 then NInf else NaN)"
| "math_Log2 PInf = PInf"
| "math_Log2 _ = NaN"

fun math_Exp2 :: "float64 \<Rightarrow> float64" where
  "math_Exp2 (Fin r) = Fin (2 powr r)"
| "math_Exp2 PInf = PInf"
| "math_Exp2 NInf = Fin 0"
| "math_Exp2 NaN = NaN"

fun math_Sqrt :: "float64 \<Rightarrow> float64" where
  "math_Sqrt (Fin r) = (if 0 \<le> r then Fin (sqrt r) else NaN)"
| "math_Sqrt PInf = PInf"
| "math_Sqrt _ = NaN"

definition isNaN :: "float64 \<Rightarrow> bool" where
  "isNaN x \<longleftrightarrow> x = NaN"

definition isInf :: "float64 \<Rightarrow> bool" where
  "isInf x \<longleftrightarrow> x = PInf \<or> x = NInf"

definition finite_float :: "float64 \<Rightarrow> bool" where
  "finite_float x \<longleftrightarrow> (\<exists>r. x = Fin r)"

fun real_of_float :: "float64 \<Rightarrow> real" where
  "real_of_float (Fin r) = r"
| "real_of_float _ = 0"

lemma finite_float_Fin [simp, intro]: "finite_float (Fin r)"
  by (simp add: finite_float_def)

section \<open>Order facts\<close>

lemma float_less_irrefl [simp]: "\<not> (x :: float64) < x"
  by (cases x) auto

lemma float_less_le: "(x :: float64) < y \<longleftrightarrow> x \<le> y \<and> x \<noteq> y"
  by (cases x; cases y) auto

lemma float_le_refl [simp]: "x \<noteq> NaN \<Longrightarrow> (x :: float64) \<le> x"
  by (cases x) auto

lemma float_le_trans: "(x :: float64) \<le> y \<Longrightarrow> y \<le> z \<Longrightarrow> x \<le> z"
  by (cases x; cases y; cases z) auto

lemma float_less_trans: "(x :: float64) < y \<Longrightarrow> y < z \<Longrightarrow> x < z"
  by (cases x; cases y; cases z) auto

lemma float_not_less: "x \<noteq> NaN \<Longrightarrow> y \<noteq> NaN \<Longrightarrow> \<not> (x :: float64) < y \<longleftrightarrow> y \<le> x"
  by (cases x; cases y) auto

lemma float_le_not_NaN: "(x :: float64) \<le> y \<Longrightarrow> x \<noteq> NaN \<and> y \<noteq> NaN"
  by (cases x; cases y) auto

lemma float_less_not_NaN: "(x :: float64) < y \<Longrightarrow> x \<noteq> NaN \<and> y \<noteq> NaN"
  by (cases x; cases y) auto

text \<open>A descending comparison of floats without NaN is a strict weak order.\<close>

lemma float_desc_weak_order: "weak_order (\<lambda>a b. key b < key a) (\<lambda>a. key a \<noteq> NaN)"
  for key :: "'a \<Rightarrow> float64"
proof
  show "\<not> key a < key a" for a by simp
  show "key c < key a" if "key b < key a" "key c < key b" for a b c
    using that float_less_trans by blast
  show "\<not> key c < key a"
    if "key a \<noteq> NaN" "key b \<noteq> NaN" "key c \<noteq> NaN" "\<not> key b < key a" "\<not> key c < key b" for a b c
    using that by (auto simp: float_not_less intro: float_le_trans)
qed

lemma float_min_exists:
  fixes f :: "'a \<Rightarrow> float64"
  assumes "finite T" and "T \<noteq> {}" and "\<And>i. i \<in> T \<Longrightarrow> f i \<noteq> NaN"
  shows "\<exists>m \<in> T. \<forall>i \<in> T. f m \<le> f i"
  using assms
proof (induction T rule: finite_ne_induct)
  case (singleton x)
  then show ?case by simp
next
  case (insert x F)
  then obtain m where m: "m \<in> F" "\<forall>i \<in> F. f m \<le> f i" by auto
  show ?case
  proof (cases "f x < f m")
    case True
    then have "f x \<le> f i" if "i \<in> F" for i
      using m that float_le_trans float_less_le by blast
    with insert.prems show ?thesis by auto
  next
    case False
    then have "f m \<le> f x" using m insert.prems by (simp add: float_not_less)
    with m show ?thesis by blast
  qed
qed

section \<open>Values in the unit interval\<close>

definition in_unit :: "float64 \<Rightarrow> bool" where
  "in_unit x \<longleftrightarrow> Fin 0 \<le> x \<and> x \<le> Fin 1"

lemma in_unit_Fin: "in_unit x \<longleftrightarrow> (\<exists>r. x = Fin r \<and> 0 \<le> r \<and> r \<le> 1)"
  by (cases x) (auto simp: in_unit_def)

lemma in_unit_mult: "in_unit x \<Longrightarrow> in_unit y \<Longrightarrow> in_unit (x * y)"
  by (auto simp: in_unit_Fin mult_le_one)

lemma in_unit_mult_le: "in_unit x \<Longrightarrow> in_unit y \<Longrightarrow> x * y \<le> y"
  by (auto simp: in_unit_Fin mult_left_le_one_le)

lemma in_unit_not_NaN: "in_unit x \<Longrightarrow> x \<noteq> NaN"
  by (auto simp: in_unit_Fin)

end
