(* ===== verification/Float32.thy ===== *)
theory Float32
  imports Float64
begin

text \<open>
  The conversion \<^verbatim>\<open>float32(x)\<close>. Scores are computed in \<^verbatim>\<open>float64\<close> and stored in
  \<^verbatim>\<open>float32\<close> fields of the protocol buffers, so a stored score is the nearest binary32
  number to the computed one, ties to even: a 24-bit significand, exponents from -126, numbers
  below that with the fixed spacing of the smallest exponent, and an infinity from
  \<open>2^128 - 2^103\<close> on. A \<^verbatim>\<open>float32\<close> read back is converted exactly, so it keeps its
  value in the model.
\<close>

section \<open>Definitions\<close>

definition round_even :: "real \<Rightarrow> int" where
  "round_even x =
     (let f = \<lfloor>x\<rfloor>; d = x - real_of_int f
      in if d < 1 / 2 \<or> (d = 1 / 2 \<and> even f) then f else f + 1)"

text \<open>The exponent of the binade of a positive number and the spacing of the format there.\<close>

definition f32_exponent :: "real \<Rightarrow> int" where
  "f32_exponent r = max \<lfloor>log 2 r\<rfloor> (- 126)"

definition f32_ulp :: "real \<Rightarrow> real" where
  "f32_ulp r = 2 powi (f32_exponent r - 23)"

definition f32_nearest :: "real \<Rightarrow> real" where
  "f32_nearest r = real_of_int (round_even (r / f32_ulp r)) * f32_ulp r"

definition f32_threshold :: real where
  "f32_threshold = 2 ^ 128 - 2 ^ 103"

fun float32 :: "float64 \<Rightarrow> float64" where
  "float32 (Fin r) =
     (if r = 0 then Fin 0
      else if f32_threshold \<le> \<bar>r\<bar> then (if 0 < r then PInf else NInf)
      else Fin (sgn r * f32_nearest \<bar>r\<bar>))"
| "float32 x = x"

declare float32.simps(1) [simp del]

definition is_float32 :: "float64 \<Rightarrow> bool" where
  "is_float32 x \<longleftrightarrow> float32 x = x"

text \<open>\<^verbatim>\<open>int32(n)\<close> keeps the low 32 bits.\<close>

definition wrap32 :: "int \<Rightarrow> int" where
  "wrap32 n = (n + 2 ^ 31) mod 2 ^ 32 - 2 ^ 31"

lemma wrap32_id: "- (2 ^ 31) \<le> n \<Longrightarrow> n < 2 ^ 31 \<Longrightarrow> wrap32 n = n"
  by (simp add: wrap32_def)

section \<open>Rounding to integers\<close>

lemma round_even_of_int [simp]: "round_even (real_of_int i) = i"
  by (simp add: round_even_def)

lemma round_even_bounds: "\<lfloor>x\<rfloor> \<le> round_even x" "round_even x \<le> \<lfloor>x\<rfloor> + 1"
  by (simp_all add: round_even_def Let_def)

lemma round_even_error: "\<bar>real_of_int (round_even x) - x\<bar> \<le> 1 / 2"
  unfolding round_even_def Let_def by (auto simp: abs_if) linarith+

lemma round_even_mono: "x \<le> y \<Longrightarrow> round_even x \<le> round_even y"
proof -
  assume le: "x \<le> y"
  show ?thesis
  proof (cases "\<lfloor>x\<rfloor> = \<lfloor>y\<rfloor>")
    case True
    then show ?thesis using le by (auto simp: round_even_def Let_def)
  next
    case False
    then have "\<lfloor>x\<rfloor> + 1 \<le> \<lfloor>y\<rfloor>" using floor_mono [OF le] by linarith
    then show ?thesis using round_even_bounds(2) [of x] round_even_bounds(1) [of y] by linarith
  qed
qed

section \<open>Rounding to the format\<close>

lemma f32_ulp_pos [simp]: "0 < f32_ulp r" "0 \<le> f32_ulp r" "f32_ulp r \<noteq> 0"
  by (simp_all add: f32_ulp_def)

lemma f32_exponent_mono: "0 < r \<Longrightarrow> r \<le> s \<Longrightarrow> f32_exponent r \<le> f32_exponent s"
proof -
  assume "0 < r" "r \<le> s"
  then have "\<lfloor>log 2 r\<rfloor> \<le> \<lfloor>log 2 s\<rfloor>" by (intro floor_mono) simp
  then show ?thesis by (simp add: f32_exponent_def)
qed

lemma powi_powr: "2 powi i = 2 powr real_of_int i"
  by (simp add: powr_real_of_int')

lemma f32_exponent_upper: "0 < r \<Longrightarrow> r < 2 powi (f32_exponent r + 1)"
proof -
  assume r: "0 < r"
  have "log 2 r < real_of_int (f32_exponent r + 1)" unfolding f32_exponent_def by linarith
  then show ?thesis using r by (simp add: powi_powr log_less_iff)
qed

lemma f32_exponent_lower: "0 < r \<Longrightarrow> - 126 < f32_exponent r \<Longrightarrow> 2 powi f32_exponent r \<le> r"
proof -
  assume r: "0 < r" "- 126 < f32_exponent r"
  then have "real_of_int (f32_exponent r) \<le> log 2 r" unfolding f32_exponent_def by linarith
  then show ?thesis using r(1) by (simp add: powi_powr le_log_iff)
qed

text \<open>A multiple of the spacing is kept.\<close>

lemma f32_nearest_exact: "r = real_of_int k * f32_ulp r \<Longrightarrow> f32_nearest r = r"
  by (metis f32_nearest_def f32_ulp_pos(3) nonzero_mult_div_cancel_right round_even_of_int)

lemma f32_nearest_error: "\<bar>f32_nearest r - r\<bar> \<le> f32_ulp r / 2"
proof -
  have "f32_nearest r - r = (real_of_int (round_even (r / f32_ulp r)) - r / f32_ulp r) * f32_ulp r"
    by (simp add: f32_nearest_def algebra_simps)
  then have "\<bar>f32_nearest r - r\<bar> = \<bar>real_of_int (round_even (r / f32_ulp r)) - r / f32_ulp r\<bar> * f32_ulp r"
    by (simp add: abs_mult)
  also have "\<dots> \<le> 1 / 2 * f32_ulp r" using round_even_error by (intro mult_right_mono) auto
  finally show ?thesis by simp
qed

lemma f32_nearest_nonneg: "0 \<le> r \<Longrightarrow> 0 \<le> f32_nearest r"
proof -
  assume "0 \<le> r"
  then have "round_even 0 \<le> round_even (r / f32_ulp r)" by (intro round_even_mono) simp
  then show ?thesis by (simp add: f32_nearest_def round_even_of_int [of 0, simplified])
qed

lemma f32_nearest_upper: "0 < r \<Longrightarrow> f32_nearest r \<le> 2 powi (f32_exponent r + 1)"
proof -
  assume "0 < r"
  have eq: "2 powi (f32_exponent r + 1) = real_of_int (2 ^ 24) * f32_ulp r"
    by (simp add: f32_ulp_def power_int_diff power_int_add)
  have "r / f32_ulp r \<le> real_of_int (2 ^ 24)"
    using f32_exponent_upper [OF \<open>0 < r\<close>] eq by (simp add: divide_le_eq)
  then have "round_even (r / f32_ulp r) \<le> 2 ^ 24" using round_even_mono round_even_of_int by metis
  then show ?thesis unfolding eq f32_nearest_def by (intro mult_right_mono) simp_all
qed

lemma f32_nearest_lower: "0 < r \<Longrightarrow> - 126 < f32_exponent r \<Longrightarrow> 2 powi f32_exponent r \<le> f32_nearest r"
proof -
  assume r: "0 < r" "- 126 < f32_exponent r"
  have eq: "2 powi f32_exponent r = real_of_int (2 ^ 23) * f32_ulp r"
    by (simp add: f32_ulp_def power_int_diff)
  have "real_of_int (2 ^ 23) \<le> r / f32_ulp r"
    using f32_exponent_lower [OF r] eq by (simp add: le_divide_eq)
  then have "2 ^ 23 \<le> round_even (r / f32_ulp r)" using round_even_mono round_even_of_int by metis
  then show ?thesis unfolding eq f32_nearest_def by (intro mult_right_mono) simp_all
qed

lemma f32_nearest_mono:
  assumes "0 < r" and "r \<le> s"
  shows "f32_nearest r \<le> f32_nearest s"
proof (cases "f32_exponent r = f32_exponent s")
  case True
  then have u: "f32_ulp r = f32_ulp s" by (simp add: f32_ulp_def)
  have "round_even (r / f32_ulp s) \<le> round_even (s / f32_ulp s)"
    using assms(2) by (intro round_even_mono divide_right_mono) (simp_all add: less_imp_le)
  then show ?thesis unfolding f32_nearest_def u by (intro mult_right_mono) (simp_all add: less_imp_le)
next
  case False
  then have lt: "f32_exponent r + 1 \<le> f32_exponent s" using f32_exponent_mono [OF assms] by linarith
  moreover have "- 126 \<le> f32_exponent r" by (simp add: f32_exponent_def)
  ultimately have "2 powi f32_exponent s \<le> f32_nearest s" using assms by (intro f32_nearest_lower) auto
  moreover have "(2 :: real) powi (f32_exponent r + 1) \<le> 2 powi f32_exponent s"
    using lt by (intro power_int_increasing) simp_all
  ultimately show ?thesis using f32_nearest_upper [OF assms(1)] by linarith
qed


lemma f32_exponent_eq:
  assumes "- 126 \<le> e" and "0 < v" and "v < 2 powi (e + 1)" and "e = - 126 \<or> 2 powi e \<le> v"
  shows "f32_exponent v = e"
proof -
  have "log 2 v < real_of_int (e + 1)" using assms(2,3) by (simp add: powi_powr log_less_iff)
  then have up: "\<lfloor>log 2 v\<rfloor> \<le> e" by linarith
  show ?thesis
  proof (cases "e = - 126")
    case False
    then have "real_of_int e \<le> log 2 v" using assms(2,4) by (simp add: powi_powr le_log_iff)
    then have "\<lfloor>log 2 v\<rfloor> = e" using up by linarith
    then show ?thesis using assms(1) by (simp add: f32_exponent_def)
  qed (use up in \<open>simp add: f32_exponent_def\<close>)
qed

lemma f32_nearest_idem:
  assumes "0 < r" and "0 < f32_nearest r"
  shows "f32_nearest (f32_nearest r) = f32_nearest r"
proof (cases "f32_nearest r < 2 powi (f32_exponent r + 1)")
  case True
  have "- 126 \<le> f32_exponent r" by (simp add: f32_exponent_def)
  moreover have "f32_exponent r = - 126 \<or> 2 powi f32_exponent r \<le> f32_nearest r"
    using f32_nearest_lower [OF assms(1)] calculation by fastforce
  ultimately have "f32_exponent (f32_nearest r) = f32_exponent r"
    using True assms(2) by (intro f32_exponent_eq)
  then have "f32_ulp (f32_nearest r) = f32_ulp r" by (simp add: f32_ulp_def)
  then show ?thesis by (intro f32_nearest_exact [where k = "round_even (r / f32_ulp r)"]) (simp add: f32_nearest_def)
next
  case False
  then have v: "f32_nearest r = 2 powi (f32_exponent r + 1)" using f32_nearest_upper [OF assms(1)] by linarith
  have "f32_exponent (f32_nearest r) = f32_exponent r + 1"
    by (rule f32_exponent_eq) (simp_all add: v f32_exponent_def power_int_add)
  then show ?thesis
    by (intro f32_nearest_exact [where k = "2 ^ 23"]) (simp add: v f32_ulp_def power_int_diff power_int_add)
qed

lemma f32_nearest_below:
  assumes "0 < r" and "r < f32_threshold"
  shows "f32_nearest r < f32_threshold"
proof (cases "f32_exponent r \<le> 126")
  case True
  then have "(2 :: real) powi (f32_exponent r + 1) \<le> 2 powi 127" by (intro power_int_increasing) simp_all
  then show ?thesis using f32_nearest_upper [OF assms(1)] by (simp add: f32_threshold_def)
next
  case False
  have up: "r < 2 powi (127 + 1)" using assms(2) by (simp add: f32_threshold_def)
  have "(2 :: real) powi 127 \<le> 2 powi f32_exponent r" using False by (intro power_int_increasing) simp_all
  also have "\<dots> \<le> r" using False by (intro f32_exponent_lower [OF assms(1)]) simp
  finally have "f32_exponent r = 127" using up by (intro f32_exponent_eq) (simp_all add: assms(1))
  then have u: "f32_ulp r = 2 ^ 104" by (simp add: f32_ulp_def)
  have "r / f32_ulp r < 2 ^ 24 - 1 / 2" using assms(2) by (simp add: u f32_threshold_def field_simps)
  then have "real_of_int (round_even (r / f32_ulp r)) < 2 ^ 24"
    using round_even_error [of "r / f32_ulp r"] by arith
  then have "real_of_int (round_even (r / f32_ulp r)) < real_of_int (2 ^ 24)" by simp
  then have "round_even (r / f32_ulp r) < 2 ^ 24" by (simp only: of_int_less_iff)
  then have "f32_nearest r \<le> real_of_int (2 ^ 24 - 1) * f32_ulp r"
    unfolding f32_nearest_def by (intro mult_right_mono) simp_all
  then show ?thesis by (simp add: u f32_threshold_def)
qed

section \<open>The conversion\<close>

lemma float32_zero [simp]: "float32 (Fin 0) = Fin 0" "float32 0 = 0"
  by (simp_all add: float32.simps)

lemma float32_uminus: "float32 (Fin (- r)) = - float32 (Fin r)"
  by (simp add: float32.simps)

lemma float32_pos: "0 < r \<Longrightarrow> float32 (Fin r) = (if f32_threshold \<le> r then PInf else Fin (f32_nearest r))"
  by (simp add: float32.simps)

lemma float32_mono_pos: "0 < r \<Longrightarrow> r \<le> s \<Longrightarrow> float32 (Fin r) \<le> float32 (Fin s)"
  using f32_nearest_mono by (auto simp: float32_pos)

lemma float32_nonneg: "0 \<le> r \<Longrightarrow> Fin 0 \<le> float32 (Fin r)"
  using f32_nearest_nonneg [of r] by (cases "r = 0") (auto simp: float32_pos)

lemma float_le_uminus: "- (x :: float64) \<le> - y \<longleftrightarrow> y \<le> x"
  by (cases x; cases y) auto

lemma float32_mono:
  assumes "x \<le> y"
  shows "float32 x \<le> float32 y"
proof (cases "\<exists>r s. x = Fin r \<and> y = Fin s")
  case True
  then obtain r s where rs: "x = Fin r" "y = Fin s" by blast
  then have le: "r \<le> s" using assms by simp
  consider "0 < r" | "r \<le> 0" "0 \<le> s" | "s < 0" using le by linarith
  then have "float32 (Fin r) \<le> float32 (Fin s)"
  proof cases
    case 1
    then show ?thesis using float32_mono_pos le by blast
  next
    case 2
    have "float32 (Fin r) \<le> Fin 0"
      using float32_nonneg [of "- r"] float32_uminus [of r] float_le_uminus [of "Fin 0" "float32 (Fin r)"] 2
      by (simp del: less_eq_float64.simps)
    then show ?thesis using float32_nonneg 2 float_le_trans by blast
  next
    case 3
    then have "float32 (Fin (- s)) \<le> float32 (Fin (- r))" using le by (intro float32_mono_pos) auto
    then show ?thesis by (simp add: float32_uminus float_le_uminus del: less_eq_float64.simps)
  qed
  then show ?thesis using rs by simp
next
  case False
  have fin: "float32 (Fin r) \<noteq> NaN" for r by (simp add: float32.simps)
  have "z \<le> PInf" if "z \<noteq> NaN" for z using that by (cases z) simp_all
  then show ?thesis using assms False fin by (cases x; cases y) auto
qed

lemma float32_not_less:
  assumes "\<not> x < y"
  shows "\<not> float32 x < float32 y"
proof (cases "x = NaN \<or> y = NaN")
  case False
  then have "y \<le> x" using assms float_not_less by blast
  then have le: "float32 y \<le> float32 x" by (rule float32_mono)
  then show ?thesis using float_le_not_NaN [OF le] float_not_less by blast
next
  case True
  then show ?thesis by (auto dest: float_less_not_NaN)
qed

lemma float32_not_NaN: "float32 x = NaN \<longleftrightarrow> x = NaN"
  by (cases x) (simp_all add: float32.simps)

lemma float32_idem [simp]: "float32 (float32 x) = float32 x"
proof (cases x)
  case (Fin r)
  have pos: "float32 (float32 (Fin r)) = float32 (Fin r)" if r: "0 < r" for r
  proof (cases "f32_threshold \<le> r \<or> f32_nearest r = 0")
    case True
    then show ?thesis using r by (auto simp: float32_pos)
  next
    case False
    then have "0 < f32_nearest r" using f32_nearest_nonneg [of r] r by linarith
    then show ?thesis
      using r False f32_nearest_below [OF r] f32_nearest_idem [OF r] by (simp add: float32_pos)
  qed
  consider "r = 0" | "0 < r" | "0 < - r" by linarith
  then show ?thesis
  proof cases
    case 3
    from pos [OF this] have "- float32 (float32 (Fin r)) = - float32 (Fin r)"
      by (cases "float32 (Fin r)") (simp_all add: float32_uminus)
    then show ?thesis using Fin by (cases "float32 (float32 (Fin r))"; cases "float32 (Fin r)") simp_all
  qed (use Fin pos in simp_all)
qed simp_all

lemma is_float32_float32 [simp]: "is_float32 (float32 x)"
  by (simp add: is_float32_def)

text \<open>Numbers with at most 24 significant bits are stored exactly.\<close>

lemma float32_dyadic:
  assumes "0 < k" and "k < 2 ^ 24" and "- 149 \<le> e" and "e \<le> 80"
  shows "float32 (Fin (real_of_int k * 2 powi e)) = Fin (real_of_int k * 2 powi e)"
proof -
  let ?r = "real_of_int k * 2 powi e"
  have r: "0 < ?r" using assms(1) by simp
  have "?r < 2 powi 24 * 2 powi e" using assms(2) by (intro mult_strict_right_mono) simp_all
  then have "?r < 2 powi (24 + e)" by (simp add: power_int_add)
  then have "log 2 ?r < real_of_int (24 + e)" using r by (simp add: powi_powr log_less_iff)
  then have "f32_exponent ?r - 23 \<le> e" using assms(3) unfolding f32_exponent_def by linarith
  then obtain n where n: "e = (f32_exponent ?r - 23) + int n" using zle_iff_zadd by blast
  have "?r = real_of_int (k * 2 ^ n) * f32_ulp ?r"
    by (subst n) (simp add: f32_ulp_def power_int_add)
  then have "f32_nearest ?r = ?r" by (rule f32_nearest_exact)
  moreover have "?r < f32_threshold"
  proof -
    have "?r < 2 powi (24 + e)" by fact
    also have "\<dots> \<le> 2 powi 104" using assms(4) by (intro power_int_increasing) simp_all
    finally show ?thesis by (simp add: f32_threshold_def)
  qed
  ultimately show ?thesis using r by (simp add: float32_pos)
qed

lemma float32_one [simp]: "float32 (Fin 1) = Fin 1" "float32 1 = 1"
  using float32_dyadic [of 1 0] by simp_all

lemma float32_half [simp]: "float32 (Fin (1 / 2)) = Fin (1 / 2)" "float32 (Fin (3 / 4)) = Fin (3 / 4)"
  using float32_dyadic [of 1 "- 1"] float32_dyadic [of 3 "- 2"] by (simp_all add: power_int_minus)

lemma float32_in_unit: "in_unit x \<Longrightarrow> in_unit (float32 x)"
  using float32_mono [of "Fin 0" x] float32_mono [of x "Fin 1"] by (simp add: in_unit_def)

text \<open>In the unit interval the stored value is off by at most \<open>2^-25\<close>.\<close>

lemma float32_unit_error:
  assumes "0 \<le> r" and "r \<le> 1"
  shows "\<exists>s. float32 (Fin r) = Fin s \<and> \<bar>s - r\<bar> \<le> 1 / 2 ^ 25 \<and> 0 \<le> s \<and> s \<le> 1"
proof (cases "r = 0 \<or> r = 1")
  case False
  then have r: "0 < r" "r < 1" using assms by auto
  have "log 2 r < 0" using r by (simp add: log_less_iff)
  then have "f32_exponent r \<le> - 1" unfolding f32_exponent_def by linarith
  then have "f32_ulp r \<le> 2 powi (- 24)" unfolding f32_ulp_def by (intro power_int_increasing) simp_all
  then have "\<bar>f32_nearest r - r\<bar> \<le> 1 / 2 ^ 25" using f32_nearest_error [of r] by (simp add: power_int_minus)
  moreover have "float32 (Fin r) = Fin (f32_nearest r)" using r by (simp add: float32_pos f32_threshold_def)
  moreover have "in_unit (float32 (Fin r))" using assms by (intro float32_in_unit) (simp add: in_unit_def)
  ultimately show ?thesis by (simp add: in_unit_def)
qed auto

end
