(* ===== verification/Proto_Types.thy ===== *)
theory Proto_Types
  imports Float32
begin

text \<open>
  The protocol-buffer data model every component shares: corpus messages and content
  blocks (\<^verbatim>\<open>proto/grudge/thread/v1\<close>), the provider wire message
  (\<^verbatim>\<open>proto/grudge/llm/v1\<close>), edges and selection results
  (\<^verbatim>\<open>proto/grudge/rrc/v1\<close>), and the plain-text view of content blocks
  (\<^verbatim>\<open>proto/pbtext/pbtext.go\<close>). Record fields carry the initials of the Go struct
  they belong to (\<open>m_Id\<close> is \<^verbatim>\<open>Message.Id\<close>). A \<^verbatim>\<open>oneof\<close> is a
  datatype with a constructor for the unset case. Byte slices are strings. Messages are
  stored once and never written to, so a pointer to a message is its value.
\<close>

section \<open>thread/v1\<close>

datatype Role = ROLE_UNSPECIFIED | ROLE_USER | ROLE_ASSISTANT | ROLE_SYSTEM

datatype SelectionScope =
  SELECTION_SCOPE_UNSPECIFIED | SELECTION_SCOPE_THREAD | SELECTION_SCOPE_ALL_THREADS

record ToolCallContent =
  tc_Id :: string
  tc_Name :: string
  tc_Arguments :: string
  tc_Signature :: string

record ToolResultContent =
  tr_ToolCallId :: string
  tr_Content :: string
  tr_IsError :: bool

record AttachmentContent =
  at_Id :: string
  at_Filename :: string
  at_MimeType :: string
  at_SizeBytes :: int
  at_Path :: string
  at_InlinedText :: string

datatype ContentBlock =
    BlockUnset
  | BlockText string
  | BlockThinking string string
  | BlockToolCall ToolCallContent
  | BlockToolResult ToolResultContent
  | BlockImage string string
  | BlockAttachment AttachmentContent

record Message =
  m_Id :: string
  m_Role :: Role
  m_Content :: "ContentBlock list"
  m_Position :: int
  m_ThreadId :: string
  m_CreatedAt :: int
  m_TurnId :: string

section \<open>llm/v1\<close>

record LLMMessage =
  l_Role :: Role
  l_Content :: "ContentBlock list"

section \<open>rrc/v1\<close>

datatype EdgeSource =
  EDGE_SOURCE_UNSPECIFIED | EDGE_SOURCE_CROSS_ENCODER | EDGE_SOURCE_PROVENANCE

record Edge =
  e_FromMessageId :: string
  e_ToMessageId :: string
  e_Score :: float64
  e_Source :: EdgeSource
  e_CrossEncoderScore :: float64
  e_DetectedAt :: int
  e_FromThreadId :: string
  e_ToThreadId :: string
  e_ScorerModel :: string

record SelectedMessage =
  sm_MessageId :: string
  sm_EffectiveScore :: float64
  sm_HopDepth :: int
  sm_ViaEdges :: "Edge list"
  sm_ThreadId :: string
  sm_CrossThread :: bool
  sm_ProvenanceWeight :: float64

datatype ExclusionReason =
    EXCLUSION_REASON_UNSPECIFIED
  | EXCLUSION_REASON_BELOW_THRESHOLD
  | EXCLUSION_REASON_TRANSITIVE_REDUCTION
  | EXCLUSION_REASON_DEPTH_LIMIT

record ExcludedMessage =
  xm_MessageId :: string
  xm_Reason :: ExclusionReason
  xm_Score :: float64

record SelectionResult =
  sr_EventId :: string
  sr_Scope :: SelectionScope
  sr_ThreadId :: string
  sr_Selected :: "SelectedMessage list"
  sr_Excluded :: "ExcludedMessage list"
  sr_LocalContextFingerprint :: string
  sr_LocalContextMessageIds :: "string list"
  sr_AnchorMessageId :: string

section \<open>pbtext\<close>

definition newline :: string where
  "newline = [CHR 0x0A]"

definition BlocksFromText :: "string \<Rightarrow> ContentBlock list" where
  "BlocksFromText t = [BlockText t]"

fun block_text :: "ContentBlock \<Rightarrow> string" where
  "block_text (BlockText t) = t @ newline"
| "block_text (BlockThinking t _) = t @ newline"
| "block_text (BlockToolCall tc) = tc_Name tc @ '': '' @ tc_Arguments tc @ newline"
| "block_text (BlockToolResult tr) = tr_Content tr @ newline"
| "block_text (BlockAttachment a) =
     ''[attached: '' @ at_Filename a @ '' at '' @ at_Path a @ '']'' @ newline @
     (if at_InlinedText a \<noteq> [] then at_InlinedText a @ newline else [])"
| "block_text _ = []"

definition TextFromBlocks :: "ContentBlock list \<Rightarrow> string" where
  "TextFromBlocks blocks = concat (map block_text blocks)"

text \<open>The documented inverse, up to the newline the renderer ends every block with.\<close>

lemma TextFromBlocks_BlocksFromText: "TextFromBlocks (BlocksFromText t) = t @ newline"
  by (simp add: TextFromBlocks_def BlocksFromText_def)

lemma TextFromBlocks_append: "TextFromBlocks (xs @ ys) = TextFromBlocks xs @ TextFromBlocks ys"
  by (simp add: TextFromBlocks_def)

end
