(* ===== verification/Predicate_Algebra.thy ===== *)
theory Predicate_Algebra
  imports Proto_Types
begin

text \<open>
  The retrieval predicate algebra of \<^verbatim>\<open>rrc/predicate.go\<close>: the reference evaluator
  \<open>EvalPredicate\<close>, the compiled form \<open>CompilePredicate\<close> that hot filter loops run, and
  \<open>ThreadScopeOf\<close>, which routes a query to one thread's partition of the index.
  \<open>PredNil\<close> is the nil interface value, which may also stand as a child;
  \<open>PredUnknown\<close> is a value of a type the switch does not list (the pointer types also
  carry the marker method).
\<close>

datatype RetrievalScope = ScopeThread | ScopeAll

datatype Predicate =
    PredNil
  | PredAll
  | PredThread string
  | PredScope string RetrievalScope
  | PredAnd "Predicate list"
  | PredOr "Predicate list"
  | PredNot Predicate
  | PredHasMetadata string string
  | PredExcludeMessageIDs "string list"
  | PredUnknown

record CandidateAttrs =
  ca_MessageID :: string
  ca_ThreadID :: string
  ca_Metadata :: "(string, string) fmap"

section \<open>Evaluation\<close>

fun EvalPredicate :: "Predicate \<Rightarrow> CandidateAttrs \<Rightarrow> bool" where
  "EvalPredicate PredNil a = True"
| "EvalPredicate PredAll a = True"
| "EvalPredicate (PredThread t) a = (ca_ThreadID a = t)"
| "EvalPredicate (PredScope cur s) a = (s = ScopeAll \<or> ca_ThreadID a = cur)"
| "EvalPredicate (PredExcludeMessageIDs ids) a = (\<not> List.member ids (ca_MessageID a))"
| "EvalPredicate (PredAnd cs) a = list_all (\<lambda>c. EvalPredicate c a) cs"
| "EvalPredicate (PredOr cs) a = list_ex (\<lambda>c. EvalPredicate c a) cs"
| "EvalPredicate (PredNot p) a = (\<not> EvalPredicate p a)"
| "EvalPredicate (PredHasMetadata k v) a =
     (if k = ''thread_id'' then ca_ThreadID a = v else lookup_or '''' (ca_Metadata a) k = v)"
| "EvalPredicate PredUnknown a = False"

text \<open>The compiled form: a closure over precomputed data, the exclusion list as a set.\<close>

fun CompilePredicate :: "Predicate \<Rightarrow> CandidateAttrs \<Rightarrow> bool" where
  "CompilePredicate PredNil = (\<lambda>_. True)"
| "CompilePredicate PredAll = (\<lambda>_. True)"
| "CompilePredicate (PredThread t) = (\<lambda>a. ca_ThreadID a = t)"
| "CompilePredicate (PredScope cur s) =
     (if s = ScopeAll then (\<lambda>_. True) else (\<lambda>a. ca_ThreadID a = cur))"
| "CompilePredicate (PredExcludeMessageIDs ids) =
     (let excluded = fset_of_list ids in (\<lambda>a. ca_MessageID a |\<notin>| excluded))"
| "CompilePredicate (PredAnd cs) =
     (let fs = map CompilePredicate cs in (\<lambda>a. list_all (\<lambda>f. f a) fs))"
| "CompilePredicate (PredOr cs) =
     (let fs = map CompilePredicate cs in (\<lambda>a. list_ex (\<lambda>f. f a) fs))"
| "CompilePredicate (PredNot p) = (let inner = CompilePredicate p in (\<lambda>a. \<not> inner a))"
| "CompilePredicate (PredHasMetadata k v) =
     (\<lambda>a. if k = ''thread_id'' then ca_ThreadID a = v else lookup_or '''' (ca_Metadata a) k = v)"
| "CompilePredicate PredUnknown = (\<lambda>_. False)"

text \<open>\<^verbatim>\<open>("", false)\<close> is \<open>None\<close>; a conjunction pins the thread of its first
  pinning child.\<close>

fun ThreadScopeOf :: "Predicate \<Rightarrow> string option"
  and ThreadScopeOf_any :: "Predicate list \<Rightarrow> string option" where
  "ThreadScopeOf (PredThread t) = Some t"
| "ThreadScopeOf (PredScope cur s) = (if s = ScopeThread then Some cur else None)"
| "ThreadScopeOf (PredAnd cs) = ThreadScopeOf_any cs"
| "ThreadScopeOf _ = None"
| "ThreadScopeOf_any [] = None"
| "ThreadScopeOf_any (c # cs) =
     (case ThreadScopeOf c of Some t \<Rightarrow> Some t | None \<Rightarrow> ThreadScopeOf_any cs)"

section \<open>Properties\<close>

lemma CompilePredicate_eq: "CompilePredicate p a = EvalPredicate p a"
  by (induction p) (auto simp: list_all_iff list_ex_iff fset_of_list.rep_eq)

text \<open>C30: the compiled closure and the reference evaluator agree on every candidate, for
  every predicate, nil and unlisted types included.\<close>

theorem CompilePredicate_equiv: "CompilePredicate p = EvalPredicate p"
  by (rule ext) (rule CompilePredicate_eq)

lemma ThreadScopeOf_pins:
  "ThreadScopeOf p = Some t \<Longrightarrow> EvalPredicate p a \<Longrightarrow> ca_ThreadID a = t"
  "ThreadScopeOf_any ps = Some t \<Longrightarrow> list_all (\<lambda>c. EvalPredicate c a) ps \<Longrightarrow> ca_ThreadID a = t"
  by (induction p and ps rule: ThreadScopeOf_ThreadScopeOf_any.induct)
     (auto split: if_splits option.splits)

text \<open>C31: routing by thread is exact. When a predicate pins a thread, retrieving from that
  thread's shard alone gives the candidates the predicate keeps of the whole collection, in
  the same order: no other shard holds a match.\<close>

theorem ThreadScopeOf_routes:
  assumes "ThreadScopeOf p = Some t"
  shows "filter (EvalPredicate p) (filter (\<lambda>a. ca_ThreadID a = t) cs) = filter (EvalPredicate p) cs"
  using ThreadScopeOf_pins(1) [OF assms] by (simp add: filter_filter) (metis (no_types, lifting))

definition example_attrs :: "string \<Rightarrow> string \<Rightarrow> CandidateAttrs" where
  "example_attrs m t = \<lparr>ca_MessageID = m, ca_ThreadID = t, ca_Metadata = fmempty\<rparr>"

theorem ThreadScopeOf_routes_witness:
  "filter (EvalPredicate (PredAnd [PredExcludeMessageIDs [''m''], PredScope ''t'' ScopeThread]))
     (filter (\<lambda>a. ca_ThreadID a = ''t'') [example_attrs ''n'' ''u'', example_attrs ''k'' ''t'']) =
   [example_attrs ''k'' ''t'']"
proof -
  let ?p = "PredAnd [PredExcludeMessageIDs [''m''], PredScope ''t'' ScopeThread]"
  have "ThreadScopeOf ?p = Some ''t''" by simp
  from ThreadScopeOf_routes [OF this, of "[example_attrs ''n'' ''u'', example_attrs ''k'' ''t'']"]
  show ?thesis by (simp add: example_attrs_def)
qed

end
