(* ===== verification/Chunking.thy ===== *)
theory Chunking
  imports Proto_Types "HOL-Library.Sublist"
begin

text \<open>
  \<^verbatim>\<open>rrc/chunk\<close>: splitting a message's text into overlapping, boundary-aware pieces
  for embedding and scoring. Byte offsets are natural numbers: the source only forms
  offsets inside the text, and its one subtraction that may go below zero
  (\<^verbatim>\<open>end - OverlapChars\<close>, \<^verbatim>\<open>maxEnd - window\<close>) is compared with a lower
  bound at once, where the truncated subtraction takes the same branch.
\<close>

section \<open>The strings package\<close>

text \<open>The UTF-8 encodings of the code points \<^verbatim>\<open>unicode.IsSpace\<close> accepts.\<close>

definition space_runes :: "string list" where
  "space_runes =
     [[CHR 0x09], [CHR 0x0A], [CHR 0x0B], [CHR 0x0C], [CHR 0x0D], [CHR 0x20],
      [CHR 0xC2, CHR 0x85], [CHR 0xC2, CHR 0xA0], [CHR 0xE1, CHR 0x9A, CHR 0x80]]
     @ map (\<lambda>n. [CHR 0xE2, CHR 0x80, char_of (n :: nat)]) [0x80..<0x8B]
     @ [[CHR 0xE2, CHR 0x80, CHR 0xA8], [CHR 0xE2, CHR 0x80, CHR 0xA9],
        [CHR 0xE2, CHR 0x80, CHR 0xAF], [CHR 0xE2, CHR 0x81, CHR 0x9F],
        [CHR 0xE3, CHR 0x80, CHR 0x80]]"

lemma space_rune_nonempty: "r \<in> set space_runes \<Longrightarrow> r \<noteq> []"
  by (auto simp: space_runes_def)

function trim_left :: "string \<Rightarrow> string" where
  "trim_left s = (case find (\<lambda>r. prefix r s) space_runes of
      None \<Rightarrow> s | Some r \<Rightarrow> trim_left (drop (length r) s))"
  by pat_completeness auto
termination
proof (relation "measure length", simp)
  fix s r
  assume "find (\<lambda>r. prefix r s) space_runes = Some r"
  then have "r \<in> set space_runes" and "prefix r s"
    by (auto simp: find_Some_iff)
  then have "0 < length r" and "length r \<le> length s"
    using space_rune_nonempty prefix_length_le by auto
  then show "(drop (length r) s, s) \<in> measure length" by (cases r) auto
qed

function trim_right :: "string \<Rightarrow> string" where
  "trim_right s = (case find (\<lambda>r. suffix r s) space_runes of
      None \<Rightarrow> s | Some r \<Rightarrow> trim_right (take (length s - length r) s))"
  by pat_completeness auto
termination
proof (relation "measure length", simp)
  fix s r
  assume "find (\<lambda>r. suffix r s) space_runes = Some r"
  then have "r \<in> set space_runes" and "suffix r s"
    by (auto simp: find_Some_iff)
  then have "0 < length r" and "length r \<le> length s"
    using space_rune_nonempty suffix_length_le by auto
  then show "(take (length s - length r) s, s) \<in> measure length" by (cases r) auto
qed

declare trim_left.simps [simp del] trim_right.simps [simp del]

definition TrimSpace :: "string \<Rightarrow> string" where
  "TrimSpace s = trim_right (trim_left s)"

text \<open>\<^verbatim>\<open>strings.LastIndex\<close> and \<^verbatim>\<open>strings.LastIndexAny\<close>; \<open>None\<close> is -1.\<close>

definition LastIndex :: "string \<Rightarrow> string \<Rightarrow> nat option" where
  "LastIndex s sub =
     (let hits = filter (\<lambda>i. prefix sub (drop i s)) [0..<Suc (length s)]
      in if hits = [] then None else Some (last hits))"

definition LastIndexAny :: "string \<Rightarrow> string \<Rightarrow> nat option" where
  "LastIndexAny s chars =
     (let hits = filter (\<lambda>i. List.member chars (s ! i)) [0..<length s]
      in if hits = [] then None else Some (last hits))"

definition slice :: "'a list \<Rightarrow> nat \<Rightarrow> nat \<Rightarrow> 'a list" where
  "slice xs a b = take (b - a) (drop a xs)"

section \<open>Configuration and chunks\<close>

text \<open>An absent estimator is the nil interface; \<open>Estimate\<close> then panics, which is
  \<open>None\<close>.\<close>

record Config =
  c_MaxChars :: int
  c_OverlapChars :: int
  c_Estimator :: "(string \<Rightarrow> int) option"

definition Estimate :: "Config \<Rightarrow> string \<Rightarrow> int option" where
  "Estimate c s = (case c_Estimator c of None \<Rightarrow> None | Some est \<Rightarrow> Some (est s))"

definition chunk_DefaultConfig :: Config where
  "chunk_DefaultConfig = \<lparr>c_MaxChars = 2000, c_OverlapChars = 200, c_Estimator = None\<rparr>"

record Chunk =
  ch_Index :: nat
  ch_Text :: string
  ch_ByteStart :: nat
  ch_ByteEnd :: nat
  ch_TokenEst :: int

section \<open>Splitting\<close>

fun first_term :: "string \<Rightarrow> string list \<Rightarrow> (nat \<times> string) option" where
  "first_term sl [] = None"
| "first_term sl (t # ts) =
     (case LastIndex sl t of Some idx \<Rightarrow> Some (idx, t) | None \<Rightarrow> first_term sl ts)"

definition sentence_terms :: "string list" where
  "sentence_terms =
     [''. '', ''! '', ''? '', [CHR ''.'', CHR 0x09], [CHR ''!'', CHR 0x09], [CHR ''?'', CHR 0x09]]"

text \<open>Where the last natural break of a slice ends: paragraph, line, sentence, word.\<close>

definition natural_break :: "string \<Rightarrow> nat option" where
  "natural_break sl =
     (case LastIndex sl [CHR 0x0A, CHR 0x0A] of
        Some idx \<Rightarrow> Some (idx + 2)
      | None \<Rightarrow>
        (case LastIndex sl [CHR 0x0A] of
          Some idx \<Rightarrow> Some (idx + 1)
        | None \<Rightarrow>
          (case first_term sl sentence_terms of
            Some (idx, t) \<Rightarrow> Some (idx + length t)
          | None \<Rightarrow>
            (case LastIndexAny sl [CHR 0x20, CHR 0x09] of
              Some idx \<Rightarrow> Some (idx + 1)
            | None \<Rightarrow> None))))"

definition findBoundary :: "string \<Rightarrow> nat \<Rightarrow> nat \<Rightarrow> nat \<Rightarrow> nat" where
  "findBoundary txt start maxEnd window =
     (let minEnd = (if maxEnd - window < start then start else maxEnd - window) in
      if maxEnd \<le> minEnd then maxEnd
      else case natural_break (slice txt minEnd maxEnd) of
        Some b \<Rightarrow> minEnd + b
      | None \<Rightarrow> maxEnd)"

definition window_end :: "string \<Rightarrow> nat \<Rightarrow> nat \<Rightarrow> nat" where
  "window_end txt mx i =
     (if length txt \<le> i + mx then length txt else findBoundary txt i (i + mx) (mx div 2))"

definition next_start :: "nat \<Rightarrow> nat \<Rightarrow> nat \<Rightarrow> nat" where
  "next_start ov i e = (if e - ov \<le> i then i + 1 else e - ov)"

definition emit_chunk :: "(string \<Rightarrow> int) \<Rightarrow> string \<Rightarrow> nat \<Rightarrow> nat \<Rightarrow> Chunk list \<Rightarrow> Chunk list" where
  "emit_chunk est txt i e chunks =
     (let piece = TrimSpace (slice txt i e) in
      if piece \<noteq> []
      then chunks @ [\<lparr>ch_Index = length chunks, ch_Text = piece, ch_ByteStart = i,
                      ch_ByteEnd = e, ch_TokenEst = est piece\<rparr>]
      else chunks)"

function split_loop ::
  "(string \<Rightarrow> int) \<Rightarrow> string \<Rightarrow> nat \<Rightarrow> nat \<Rightarrow> nat \<Rightarrow> Chunk list \<Rightarrow> Chunk list" where
  "split_loop est txt mx ov i chunks =
     (if i < length txt then
        let e = window_end txt mx i; chunks' = emit_chunk est txt i e chunks in
        if length txt \<le> e then chunks'
        else split_loop est txt mx ov (next_start ov i e) chunks'
      else chunks)"
  by pat_completeness auto
termination
  by (relation "measure (\<lambda>(est, txt, mx, ov, i, chunks). length txt - i)")
     (auto simp: next_start_def)

declare split_loop.simps [simp del]

definition norm_max :: "Config \<Rightarrow> nat" where
  "norm_max cfg = nat (if c_MaxChars cfg \<le> 0 then 2000 else c_MaxChars cfg)"

definition norm_overlap :: "Config \<Rightarrow> nat" where
  "norm_overlap cfg =
     (let ov = nat (c_OverlapChars cfg) in
      if norm_max cfg \<le> ov then norm_max cfg div 4 else ov)"

text \<open>\<open>None\<close> is the panic of \<open>Estimate\<close> on a configuration without estimator; it is
  raised exactly for text that is not blank, since the first window of a trimmed text is
  never blank.\<close>

definition Split :: "string \<Rightarrow> Config \<Rightarrow> Chunk list option" where
  "Split text0 cfg =
     (let txt = TrimSpace text0 in
      if txt = [] then Some []
      else case c_Estimator cfg of
        None \<Rightarrow> None
      | Some est \<Rightarrow>
          if length txt \<le> norm_max cfg
          then Some [\<lparr>ch_Index = 0, ch_Text = txt, ch_ByteStart = 0,
                      ch_ByteEnd = length txt, ch_TokenEst = est txt\<rparr>]
          else Some (split_loop est txt (norm_max cfg) (norm_overlap cfg) 0 []))"

section \<open>Trimming\<close>

lemma trim_left_suffix: "suffix (trim_left s) s"
proof (induction s rule: trim_left.induct)
  case (1 s)
  then show ?case
    by (subst trim_left.simps)
       (auto split: option.splits intro: suffix_order.trans suffix_drop)
qed

lemma trim_right_prefix: "prefix (trim_right s) s"
proof (induction s rule: trim_right.induct)
  case (1 s)
  then show ?case
    by (subst trim_right.simps)
       (auto split: option.splits intro: prefix_order.trans take_is_prefix)
qed

lemma TrimSpace_length: "length (TrimSpace s) \<le> length s"
  unfolding TrimSpace_def
  by (meson le_trans prefix_length_le suffix_length_le trim_left_suffix trim_right_prefix)

section \<open>Boundaries\<close>

lemma LastIndex_hit:
  assumes "LastIndex s sub = Some i"
  shows "prefix sub (drop i s)" and "i + length sub \<le> length s"
proof -
  from assms have "i \<in> set (filter (\<lambda>i. prefix sub (drop i s)) [0..<Suc (length s)])"
    unfolding LastIndex_def Let_def
    by (metis (no_types, lifting) last_in_set option.distinct(1) option.inject)
  then have *: "prefix sub (drop i s)" "i \<le> length s"
    by (auto simp del: upt_Suc)
  then show "prefix sub (drop i s)" by simp
  from * show "i + length sub \<le> length s"
    using prefix_length_le [of sub "drop i s"] by simp
qed

lemma LastIndexAny_hit: "LastIndexAny s cs = Some i \<Longrightarrow> i < length s"
  unfolding LastIndexAny_def Let_def
  by (metis (no_types, lifting) atLeastLessThan_iff filter_is_subset last_in_set option.distinct(1)
      option.inject set_upt subset_iff)

lemma first_term_hit:
  "first_term sl ts = Some (i, t) \<Longrightarrow> t \<in> set ts \<and> i + length t \<le> length sl"
  by (induction ts) (auto split: option.splits dest: LastIndex_hit)

lemma length_slice: "b \<le> length xs \<Longrightarrow> length (slice xs a b) = b - a"
  by (simp add: slice_def)

lemma natural_break_bounds:
  assumes "natural_break sl = Some b"
  shows "0 < b" and "b \<le> length sl"
proof -
  have ne: "t \<in> set sentence_terms \<Longrightarrow> 0 < length t" for t
    by (auto simp: sentence_terms_def)
  show "0 < b"
    using assms by (auto simp: natural_break_def split: option.splits dest!: first_term_hit ne)
  show "b \<le> length sl"
    using assms
    by (auto simp: natural_break_def split: option.splits
        dest!: first_term_hit LastIndexAny_hit LastIndex_hit(2))
qed

lemma findBoundary_bounds:
  assumes "start < maxEnd" and "maxEnd \<le> length txt"
  shows "start < findBoundary txt start maxEnd window"
    and "findBoundary txt start maxEnd window \<le> maxEnd"
proof -
  define m where "m = (if maxEnd - window < start then start else maxEnd - window)"
  have eq: "findBoundary txt start maxEnd window =
      (if maxEnd \<le> m then maxEnd
       else case natural_break (slice txt m maxEnd) of Some b \<Rightarrow> m + b | None \<Rightarrow> maxEnd)"
    unfolding findBoundary_def m_def Let_def by (rule refl)
  have m: "start \<le> m" by (simp add: m_def)
  have len: "length (slice txt m maxEnd) = maxEnd - m"
    using assms by (simp add: length_slice)
  show "start < findBoundary txt start maxEnd window"
    using m assms unfolding eq by (auto split: option.splits dest!: natural_break_bounds(1))
  show "findBoundary txt start maxEnd window \<le> maxEnd"
    using len unfolding eq by (auto split: option.splits dest!: natural_break_bounds(2))
qed

lemma window_end_bounds:
  assumes "i < length txt" and "0 < mx"
  shows "i < window_end txt mx i" and "window_end txt mx i \<le> length txt"
    and "window_end txt mx i \<le> i + mx"
  using assms findBoundary_bounds [of i "i + mx" "txt" "mx div 2"]
  by (auto simp: window_end_def)

section \<open>The split loop\<close>

text \<open>What the loop keeps of the chunks emitted so far: indices count up from zero, a
  chunk's text is the trimmed window it names, no window is longer than the limit.\<close>

definition chunk_ok :: "(string \<Rightarrow> int) \<Rightarrow> string \<Rightarrow> nat \<Rightarrow> Chunk \<Rightarrow> bool" where
  "chunk_ok est txt mx c \<longleftrightarrow>
     ch_ByteStart c < ch_ByteEnd c \<and> ch_ByteEnd c \<le> length txt \<and>
     ch_ByteEnd c \<le> ch_ByteStart c + mx \<and>
     ch_Text c = TrimSpace (slice txt (ch_ByteStart c) (ch_ByteEnd c)) \<and> ch_Text c \<noteq> [] \<and>
     ch_TokenEst c = est (ch_Text c)"

definition indexed :: "Chunk list \<Rightarrow> bool" where
  "indexed cs \<longleftrightarrow> map ch_Index cs = [0..<length cs]"

lemma emit_chunk_cases:
  "emit_chunk est txt i e cs = cs \<and> TrimSpace (slice txt i e) = [] \<or>
   (\<exists>c. emit_chunk est txt i e cs = cs @ [c] \<and> ch_Index c = length cs \<and> ch_ByteStart c = i \<and>
        ch_ByteEnd c = e \<and> ch_Text c = TrimSpace (slice txt i e) \<and> ch_Text c \<noteq> [] \<and>
        ch_TokenEst c = est (ch_Text c))"
  by (auto simp: emit_chunk_def Let_def)

lemma next_start_bounds: "i < e \<Longrightarrow> i < next_start ov i e \<and> next_start ov i e \<le> e"
  by (auto simp: next_start_def)

lemma emit_chunk_ok:
  assumes "i < length txt" and "0 < mx" and "\<forall>c \<in> set cs. chunk_ok est txt mx c" and "indexed cs"
  defines "cs' \<equiv> emit_chunk est txt i (window_end txt mx i) cs"
  shows "(\<forall>c \<in> set cs'. chunk_ok est txt mx c) \<and> indexed cs'"
  using assms window_end_bounds [OF assms(1,2)]
    emit_chunk_cases [of est "txt" i "window_end txt mx i" cs]
  by (auto simp: chunk_ok_def indexed_def)

lemma split_loop_ok:
  assumes "0 < mx" and "\<forall>c \<in> set cs. chunk_ok est txt mx c" and "indexed cs"
  shows "(\<forall>c \<in> set (split_loop est txt mx ov i cs). chunk_ok est txt mx c)
         \<and> indexed (split_loop est txt mx ov i cs)"
  using assms
proof (induction est "txt" mx ov i cs rule: split_loop.induct)
  case (1 est "txt" mx ov i cs)
  show ?case
  proof (cases "i < length txt")
    case True
    with 1 emit_chunk_ok [of i "txt" mx cs est] show ?thesis
      by (simp add: split_loop.simps [of est "txt" mx ov i cs] Let_def)
  next
    case False
    with 1 show ?thesis by (simp add: split_loop.simps)
  qed
qed

text \<open>No text is lost: consecutive windows meet or overlap, so every byte from the
  current start on is inside an emitted chunk or inside a blank window.\<close>

definition covered :: "string \<Rightarrow> Chunk list \<Rightarrow> nat \<Rightarrow> bool" where
  "covered txt cs p \<longleftrightarrow>
     (\<exists>c \<in> set cs. ch_ByteStart c \<le> p \<and> p < ch_ByteEnd c) \<or>
     (\<exists>a b. a \<le> p \<and> p < b \<and> b \<le> length txt \<and> TrimSpace (slice txt a b) = [])"

lemma covered_emit:
  assumes "i \<le> p" and "p < e" and "e \<le> length txt"
  shows "covered txt (emit_chunk est txt i e cs) p"
  using assms emit_chunk_cases [of est "txt" i e cs] by (fastforce simp: covered_def)

lemma covered_mono: "covered txt cs p \<Longrightarrow> set cs \<subseteq> set cs' \<Longrightarrow> covered txt cs' p"
  by (auto simp: covered_def)

lemma emit_chunk_mono: "set cs \<subseteq> set (emit_chunk est txt i e cs)"
  by (auto simp: emit_chunk_def Let_def)

lemma split_loop_mono: "set cs \<subseteq> set (split_loop est txt mx ov i cs)"
proof (induction est "txt" mx ov i cs rule: split_loop.induct)
  case (1 est "txt" mx ov i cs)
  then show ?case
    using emit_chunk_mono [of cs est "txt" i "window_end txt mx i"]
    by (auto simp: split_loop.simps [of est "txt" mx ov i cs] Let_def)
qed

lemma split_loop_covers:
  assumes "0 < mx" and "i \<le> p" and "p < length txt"
  shows "covered txt (split_loop est txt mx ov i cs) p"
  using assms
proof (induction est "txt" mx ov i cs rule: split_loop.induct)
  case (1 est "txt" mx ov i cs)
  let ?e = "window_end txt mx i" and ?cs = "emit_chunk est txt i (window_end txt mx i) cs"
  have i: "i < length txt" using 1 by simp
  note we = window_end_bounds [OF i \<open>0 < mx\<close>]
  have eq: "split_loop est txt mx ov i cs =
      (if length txt \<le> ?e then ?cs else split_loop est txt mx ov (next_start ov i ?e) ?cs)"
    using i by (simp add: split_loop.simps [of est "txt" mx ov i cs] Let_def)
  show ?case
  proof (cases "p < ?e")
    case True
    then have "covered txt ?cs p" using 1 we by (intro covered_emit) auto
    then show ?thesis unfolding eq by (auto intro: covered_mono [OF _ split_loop_mono])
  next
    case False
    then have ne: "\<not> length txt \<le> ?e" and "next_start ov i ?e \<le> p"
      using 1 we next_start_bounds [OF we(1), of ov] by auto
    then show ?thesis unfolding eq using 1 i by simp
  qed
qed

section \<open>Properties of Split\<close>

lemma norm_max_pos: "0 < norm_max cfg"
  by (simp add: norm_max_def)

lemma slice_whole: "slice xs 0 (length xs) = xs"
  by (simp add: slice_def)

lemma trim_left_no_space: "r \<in> set space_runes \<Longrightarrow> \<not> prefix r (trim_left s)"
proof (induction s rule: trim_left.induct)
  case (1 s)
  then show ?case
    by (auto simp: trim_left.simps [of s] find_None_iff split: option.splits)
qed

lemma trim_left_id: "(\<And>r. r \<in> set space_runes \<Longrightarrow> \<not> prefix r s) \<Longrightarrow> trim_left s = s"
  by (subst trim_left.simps) (auto simp: find_Some_iff split: option.splits)

lemma trim_right_id: "(\<And>r. r \<in> set space_runes \<Longrightarrow> \<not> suffix r s) \<Longrightarrow> trim_right s = s"
  by (subst trim_right.simps) (auto simp: find_Some_iff split: option.splits)

lemma trim_right_no_space: "r \<in> set space_runes \<Longrightarrow> \<not> suffix r (trim_right s)"
proof (induction s rule: trim_right.induct)
  case (1 s)
  then show ?case
    by (auto simp: trim_right.simps [of s] find_None_iff split: option.splits)
qed

lemma TrimSpace_no_leading: "r \<in> set space_runes \<Longrightarrow> \<not> prefix r (TrimSpace s)"
  unfolding TrimSpace_def
  by (meson prefix_order.trans trim_left_no_space trim_right_prefix)

lemma TrimSpace_idem [simp]: "TrimSpace (TrimSpace s) = TrimSpace s"
proof -
  have "trim_left (TrimSpace s) = TrimSpace s"
    by (rule trim_left_id) (rule TrimSpace_no_leading)
  then show ?thesis
    unfolding TrimSpace_def [of "TrimSpace s"]
    by (auto simp: TrimSpace_def intro: trim_right_id dest: trim_right_no_space)
qed

lemma trim_right_blank:
  "trim_right s = [] \<Longrightarrow> s = [] \<or> (\<exists>r \<in> set space_runes. prefix r s)"
proof (induction s rule: trim_right.induct)
  case (1 s)
  show ?case
  proof (cases "find (\<lambda>r. suffix r s) space_runes")
    case None
    with 1 show ?thesis by (simp add: trim_right.simps [of s])
  next
    case (Some r)
    let ?s' = "take (length s - length r) s"
    from Some have r: "r \<in> set space_runes" "suffix r s" by (auto simp: find_Some_iff)
    from Some 1 have "?s' = [] \<or> (\<exists>r \<in> set space_runes. prefix r ?s')"
      by (simp add: trim_right.simps [of s])
    then show ?thesis
    proof
      assume "?s' = []"
      moreover have "s = ?s' @ r" using r(2) by (auto simp: suffix_def)
      ultimately show ?thesis using r(1) by auto
    next
      assume "\<exists>r \<in> set space_runes. prefix r ?s'"
      then show ?thesis by (meson prefix_order.trans take_is_prefix)
    qed
  qed
qed

text \<open>A non-empty window at the start of a trimmed text is not blank.\<close>

lemma first_window_not_blank:
  assumes "0 < e" and "TrimSpace t \<noteq> []"
  shows "TrimSpace (slice (TrimSpace t) 0 e) \<noteq> []"
proof
  let ?w = "slice (TrimSpace t) 0 e"
  assume blank: "TrimSpace ?w = []"
  have pre: "prefix ?w (TrimSpace t)" by (simp add: slice_def take_is_prefix)
  have none: "\<not> prefix r ?w" if "r \<in> set space_runes" for r
    using that pre TrimSpace_no_leading prefix_order.trans by blast
  then have "trim_left ?w = ?w" by (rule trim_left_id)
  with blank have "trim_right ?w = []" by (simp add: TrimSpace_def)
  with none have "?w = []" using trim_right_blank by blast
  with assms show False by (simp add: slice_def)
qed

lemma split_loop_nonempty:
  assumes "TrimSpace t \<noteq> []" and "0 < mx"
  shows "split_loop est (TrimSpace t) mx ov 0 [] \<noteq> []"
proof -
  let ?x = "TrimSpace t" and ?e = "window_end (TrimSpace t) mx 0"
  have "0 < ?e" using window_end_bounds [of 0 ?x mx] assms by simp
  then have "emit_chunk est ?x 0 ?e [] \<noteq> []"
    using first_window_not_blank assms by (simp add: emit_chunk_def Let_def)
  moreover have "set (emit_chunk est ?x 0 ?e []) \<subseteq> set (split_loop est ?x mx ov 0 [])"
    using assms split_loop_mono
    by (auto simp: split_loop.simps [of est ?x mx ov 0 "[]"] Let_def subset_iff)
  ultimately show ?thesis by auto
qed

lemma Split_loop_eq:
  assumes "c_Estimator cfg = Some est" and "TrimSpace t \<noteq> []"
    and "norm_max cfg < length (TrimSpace t)"
  shows "Split t cfg = Some (split_loop est (TrimSpace t) (norm_max cfg) (norm_overlap cfg) 0 [])"
  using assms by (simp add: Split_def Let_def)

lemma Split_total:
  assumes "c_Estimator cfg = Some est"
  shows "\<exists>cs. Split t cfg = Some cs \<and> (cs = [] \<longleftrightarrow> TrimSpace t = [])"
  using assms split_loop_nonempty [OF _ norm_max_pos] by (simp add: Split_def Let_def)

text \<open>C21: with an estimator configured, splitting always returns. Every chunk is a
  non-blank window of the trimmed text, at most \<^verbatim>\<open>MaxChars\<close> bytes long, and carries
  that window's trimmed text and its token estimate; the chunk indices are 0, 1, 2 and so
  on; and no chunk at all is returned exactly for blank text.\<close>

theorem Split_wellformed:
  assumes "c_Estimator cfg = Some est"
  shows "\<exists>cs. Split t cfg = Some cs \<and> map ch_Index cs = [0..<length cs] \<and>
           list_all (chunk_ok est (TrimSpace t) (norm_max cfg)) cs \<and>
           (cs = [] \<longleftrightarrow> TrimSpace t = [])"
proof -
  consider "TrimSpace t = []" | "TrimSpace t \<noteq> []" "length (TrimSpace t) \<le> norm_max cfg"
    | "TrimSpace t \<noteq> []" "norm_max cfg < length (TrimSpace t)" by linarith
  then show ?thesis
  proof cases
    case 1
    then show ?thesis by (simp add: Split_def)
  next
    case 2
    then show ?thesis
      using assms by (simp add: Split_def Let_def chunk_ok_def slice_whole)
  next
    case 3
    then show ?thesis
      using Split_loop_eq [OF assms] split_loop_nonempty [OF _ norm_max_pos]
        split_loop_ok [OF norm_max_pos, of "[]" est "TrimSpace t" cfg "norm_overlap cfg" 0]
      by (simp add: indexed_def list_all_iff)
  qed
qed

text \<open>C22: no text is dropped. Every byte of the trimmed text lies inside the window of an
  emitted chunk, or inside a window that holds nothing but white space.\<close>

theorem Split_covers:
  assumes "Split t cfg = Some cs" and "p < length (TrimSpace t)"
  shows "covered (TrimSpace t) cs p"
proof -
  have ne: "TrimSpace t \<noteq> []" using assms(2) by auto
  then obtain est where est: "c_Estimator cfg = Some est"
    using assms(1) by (auto simp: Split_def Let_def split: option.splits)
  show ?thesis
  proof (cases "norm_max cfg < length (TrimSpace t)")
    case True
    then show ?thesis
      using Split_loop_eq [OF est ne True] split_loop_covers [OF norm_max_pos, of 0 p "TrimSpace t"]
        assms by simp
  next
    case False
    then show ?thesis
      using assms ne est by (auto simp: Split_def Let_def covered_def)
  qed
qed

definition example_config :: Config where
  "example_config = \<lparr>c_MaxChars = 4, c_OverlapChars = 1, c_Estimator = Some (\<lambda>s. int (length s))\<rparr>"

lemma Split_example:
  "Split ''ab cd ef '' example_config =
     Some [\<lparr>ch_Index = 0, ch_Text = ''ab'', ch_ByteStart = 0, ch_ByteEnd = 3, ch_TokenEst = 2\<rparr>,
           \<lparr>ch_Index = 1, ch_Text = ''cd'', ch_ByteStart = 2, ch_ByteEnd = 6, ch_TokenEst = 2\<rparr>,
           \<lparr>ch_Index = 2, ch_Text = ''ef'', ch_ByteStart = 5, ch_ByteEnd = 8, ch_TokenEst = 2\<rparr>]"
  by code_simp

theorem Split_wellformed_witness:
  "\<exists>cs. Split ''ab cd ef '' example_config = Some cs \<and> map ch_Index cs = [0..<length cs] \<and>
     list_all (chunk_ok (\<lambda>s. int (length s)) (TrimSpace ''ab cd ef '') (norm_max example_config)) cs \<and>
     (cs = [] \<longleftrightarrow> TrimSpace ''ab cd ef '' = [])"
  by (rule Split_wellformed) (simp add: example_config_def)

theorem Split_covers_witness:
  "covered (TrimSpace ''ab cd ef '')
     (case Split ''ab cd ef '' example_config of Some cs \<Rightarrow> cs | None \<Rightarrow> []) 4"
proof -
  have "4 < length (TrimSpace ''ab cd ef '')" by code_simp
  from Split_covers [OF Split_example this] show ?thesis by (simp add: Split_example)
qed

end
