(* ===== verification/Local_Context.thy ===== *)
theory Local_Context
  imports Chunking Sha256
begin

text \<open>
  \<^verbatim>\<open>rrc/local_context.go\<close>: the bounded discourse a selection event is about, and its
  deterministic serialization into query chunks. A panic (no token estimator) is the outer
  \<open>None\<close> of \<open>SerializeLocalContext\<close>, a nil result the inner one.
\<close>

section \<open>Windows over the corpus\<close>

definition BuildLocalContext :: "Message list \<Rightarrow> int \<Rightarrow> Message list" where
  "BuildLocalContext threadCorpus n =
     (if threadCorpus = [] \<or> n \<le> 0 then []
      else let start = int (length threadCorpus) - n in
        drop (nat (if start < 0 then 0 else start)) threadCorpus)"

fun turn_start :: "string \<Rightarrow> Message list \<Rightarrow> nat option" where
  "turn_start turn [] = None"
| "turn_start turn (m # ms) =
     (if m_TurnId m = turn then Some 0 else map_option Suc (turn_start turn ms))"

definition BuildActiveDiscourse :: "Message list \<Rightarrow> string \<Rightarrow> int \<Rightarrow> Message list" where
  "BuildActiveDiscourse threadCorpus currentTurnID fallbackN =
     (if threadCorpus = [] then []
      else if currentTurnID = [] then BuildLocalContext threadCorpus fallbackN
      else case turn_start currentTurnID threadCorpus of
        None \<Rightarrow> BuildLocalContext threadCorpus fallbackN
      | Some start \<Rightarrow> drop start threadCorpus)"

fun semantic_text :: "ContentBlock \<Rightarrow> string" where
  "semantic_text (BlockText t) = t"
| "semantic_text (BlockThinking t _) = t"
| "semantic_text _ = []"

definition hasSemanticBlock :: "ContentBlock list \<Rightarrow> bool" where
  "hasSemanticBlock blocks = list_ex (\<lambda>b. semantic_text b \<noteq> []) blocks"

definition SemanticMessages :: "Message list \<Rightarrow> Message list" where
  "SemanticMessages msgs = filter (\<lambda>m. hasSemanticBlock (m_Content m)) msgs"

section \<open>Serialization\<close>

text \<open>\<^verbatim>\<open>%d\<close> of a number that is not negative, and \<^verbatim>\<open>%t\<close>.\<close>

fun fmt_d :: "nat \<Rightarrow> string" where
  "fmt_d n = (if n < 10 then [char_of (48 + n)] else fmt_d (n div 10) @ [char_of (48 + n mod 10)])"

declare fmt_d.simps [simp del]

definition fmt_t :: "bool \<Rightarrow> string" where
  "fmt_t b = (if b then ''true'' else ''false'')"

fun roleLabel :: "Role \<Rightarrow> string" where
  "roleLabel ROLE_USER = ''user''"
| "roleLabel ROLE_ASSISTANT = ''assistant''"
| "roleLabel ROLE_SYSTEM = ''system''"
| "roleLabel ROLE_UNSPECIFIED = ''unspecified''"

fun semantic_block :: "ContentBlock \<Rightarrow> string" where
  "semantic_block (BlockText t) = (if t \<noteq> [] then ''[text]'' @ newline @ t @ newline else [])"
| "semantic_block (BlockThinking t _) =
     (if t \<noteq> [] then ''[thinking]'' @ newline @ t @ newline else [])"
| "semantic_block _ = []"

definition serializeSemanticMessage :: "Message \<Rightarrow> string" where
  "serializeSemanticMessage m =
     (let body = concat (map semantic_block (m_Content m)) in
      if body = [] then []
      else ''[message role='' @ roleLabel (m_Role m) @ '']'' @ newline @ body @ ''[/message]'' @ newline)"

fun scoring_block :: "ContentBlock \<Rightarrow> string" where
  "scoring_block (BlockText t) = ''[text]'' @ newline @ t @ newline"
| "scoring_block (BlockThinking t _) = ''[thinking]'' @ newline @ t @ newline"
| "scoring_block (BlockToolCall tc) =
     ''[tool_call id='' @ tc_Id tc @ '' name='' @ tc_Name tc @ '']'' @ newline @ tc_Arguments tc @ newline"
| "scoring_block (BlockToolResult tr) =
     ''[tool_result tool_call_id='' @ tr_ToolCallId tr @ '' error='' @ fmt_t (tr_IsError tr) @ '']'' @
     newline @ tr_Content tr @ newline"
| "scoring_block (BlockImage mediaType imageData) =
     ''[image media_type='' @ mediaType @ '' bytes='' @ fmt_d (length imageData) @ '']'' @ newline"
| "scoring_block (BlockAttachment a) =
     ''[attachment filename='' @ at_Filename a @ '' mime_type='' @ at_MimeType a @ '' path='' @
     at_Path a @ '']'' @ newline @ at_InlinedText a @ newline"
| "scoring_block BlockUnset = []"

definition SerializeMessageForScoring :: "Message \<Rightarrow> string" where
  "SerializeMessageForScoring m =
     ''[message role='' @ roleLabel (m_Role m) @ '']'' @ newline @
     concat (map scoring_block (m_Content m)) @ ''[/message]'' @ newline"

record SerializedLocalContextChunk =
  lc_Index :: nat
  lc_Text :: string

record SerializedLocalContext =
  lx_EventID :: string
  lx_Fingerprint :: string
  lx_MessageIDs :: "string list"
  lx_Chunks :: "SerializedLocalContextChunk list"

definition localContextSerializationVersion :: string where
  "localContextSerializationVersion = ''local-context-v1''"

text \<open>The loop over the messages; \<open>chunks\<close> and \<open>nxt\<close> are its locals
  \<^verbatim>\<open>serializedChunks\<close> and \<^verbatim>\<open>next\<close>.\<close>

fun append_chunks ::
  "string list \<Rightarrow> SerializedLocalContextChunk list \<Rightarrow> nat \<Rightarrow> SerializedLocalContextChunk list \<times> nat" where
  "append_chunks [] chunks nxt = (chunks, nxt)"
| "append_chunks (t # ts) chunks nxt =
     append_chunks ts (chunks @ [\<lparr>lc_Index = nxt, lc_Text = t\<rparr>]) (nxt + 1)"

fun serialize_loop ::
  "string \<Rightarrow> Config \<Rightarrow> Message list \<Rightarrow> string list \<Rightarrow> SerializedLocalContextChunk list \<Rightarrow> nat \<Rightarrow>
   (string list \<times> SerializedLocalContextChunk list) option" where
  "serialize_loop turn cfg [] ids chunks nxt = Some (ids, chunks)"
| "serialize_loop turn cfg (m # ms) ids chunks nxt =
     (let ids' = ids @ [m_Id m]; txt = serializeSemanticMessage m in
      if turn \<noteq> [] \<and> m_TurnId m \<noteq> turn then serialize_loop turn cfg ms ids' chunks nxt
      else if TrimSpace txt = [] then serialize_loop turn cfg ms ids' chunks nxt
      else case Split txt cfg of
        None \<Rightarrow> None
      | Some raw \<Rightarrow>
          (case append_chunks (if raw = [] then [txt] else map ch_Text raw) chunks nxt of
             (chunks', nxt') \<Rightarrow> serialize_loop turn cfg ms ids' chunks' nxt'))"

definition fingerprint_input :: "string list \<Rightarrow> SerializedLocalContextChunk list \<Rightarrow> string" where
  "fingerprint_input ids chunks =
     ''version:'' @ localContextSerializationVersion @ newline @
     concat (map (\<lambda>i. ''message:'' @ i @ newline) ids) @
     concat (map (\<lambda>c. ''chunk:'' @ fmt_d (lc_Index c) @ newline @ lc_Text c @ newline) chunks)"

definition SerializeLocalContext ::
  "Message list \<Rightarrow> string \<Rightarrow> Config \<Rightarrow> SerializedLocalContext option option" where
  "SerializeLocalContext local currentTurnID cfg =
     (if local = [] then Some None
      else case serialize_loop currentTurnID cfg local [] [] 0 of
        None \<Rightarrow> None
      | Some (ids, chunks) \<Rightarrow>
          if chunks = [] then Some None
          else Some (Some
            \<lparr>lx_EventID = ''sel-'' @ m_Id (last local),
             lx_Fingerprint = hex_EncodeToString (sha256_sum (fingerprint_input ids chunks)),
             lx_MessageIDs = ids, lx_Chunks = chunks\<rparr>))"

section \<open>The windows\<close>

lemma turn_start_dropWhile:
  "(case turn_start t ms of None \<Rightarrow> [] | Some n \<Rightarrow> drop n ms) = dropWhile (\<lambda>m. m_TurnId m \<noteq> t) ms"
  by (induction ms) (auto split: option.splits)

lemma turn_start_None: "turn_start t ms = None \<longleftrightarrow> (\<forall>m \<in> set ms. m_TurnId m \<noteq> t)"
  by (induction ms) auto

text \<open>C24: the turn record is never truncated. When the current turn has messages stored, the
  active discourse is a suffix of the thread that starts with the turn's first message and
  holds all of the turn's messages in order; and if the turn's messages end the thread, it
  is exactly the turn.\<close>

theorem BuildActiveDiscourse_turn:
  assumes "t \<noteq> []" and "m \<in> set ms" and "m_TurnId m = t"
  shows "BuildActiveDiscourse ms t n = dropWhile (\<lambda>m. m_TurnId m \<noteq> t) ms \<and>
         m_TurnId (hd (BuildActiveDiscourse ms t n)) = t \<and>
         filter (\<lambda>m. m_TurnId m = t) (BuildActiveDiscourse ms t n) = filter (\<lambda>m. m_TurnId m = t) ms \<and>
         (sorted_wrt (\<lambda>a b. m_TurnId a = t \<longrightarrow> m_TurnId b = t) ms \<longrightarrow>
            BuildActiveDiscourse ms t n = filter (\<lambda>m. m_TurnId m = t) ms)"
proof -
  let ?D = "dropWhile (\<lambda>m. m_TurnId m \<noteq> t) ms"
  have ne: "turn_start t ms \<noteq> None" using assms turn_start_None by auto
  have eq: "BuildActiveDiscourse ms t n = ?D"
  proof -
    obtain k where "turn_start t ms = Some k" using ne by auto
    moreover from this have "drop k ms = ?D"
      using turn_start_dropWhile [where t = t and ms = ms] by simp
    moreover have "ms \<noteq> []" using assms(2) by auto
    ultimately show ?thesis using assms(1) by (simp add: BuildActiveDiscourse_def)
  qed
  have "?D \<noteq> []" using assms(2,3) by (simp add: dropWhile_eq_Nil_conv) blast
  from hd_dropWhile [OF this] have hd: "m_TurnId (hd ?D) = t" by simp
  have filt: "filter (\<lambda>m. m_TurnId m = t) ?D = filter (\<lambda>m. m_TurnId m = t) ms"
    by (induction ms) auto
  have "?D = filter (\<lambda>m. m_TurnId m = t) ms" if "sorted_wrt (\<lambda>a b. m_TurnId a = t \<longrightarrow> m_TurnId b = t) ms"
    using that by (induction ms) (auto simp: filter_id_conv [THEN iffD2])
  with eq hd filt show ?thesis by auto
qed

text \<open>The fallback window is the last \<open>n\<close> messages, or all of them.\<close>

lemma BuildLocalContext_take: "0 \<le> n \<Longrightarrow> BuildLocalContext ms n = rev (take (nat n) (rev ms))"
  by (auto simp: BuildLocalContext_def Let_def take_rev nat_diff_distrib)

section \<open>The serialization\<close>

lemma semantic_body_empty:
  "concat (map semantic_block bs) = [] \<longleftrightarrow> \<not> hasSemanticBlock bs"
proof -
  have "semantic_block b = [] \<longleftrightarrow> semantic_text b = []" for b by (cases b) auto
  then show ?thesis by (simp add: hasSemanticBlock_def list_ex_iff)
qed

text \<open>A serialized message starts with a bracket, so trimming cannot empty it.\<close>

lemma no_space_bracket: "r \<in> set space_runes \<Longrightarrow> \<not> prefix r (CHR ''['' # s)"
  by (auto simp: space_runes_def)

lemma TrimSpace_bracket: "TrimSpace (CHR ''['' # s) \<noteq> []"
proof
  assume blank: "TrimSpace (CHR ''['' # s) = []"
  have "trim_left (CHR ''['' # s) = CHR ''['' # s" by (rule trim_left_id) (rule no_space_bracket)
  with blank have "trim_right (CHR ''['' # s) = []" by (simp add: TrimSpace_def)
  then show False using trim_right_blank no_space_bracket by blast
qed

lemma serialize_blank:
  "TrimSpace (serializeSemanticMessage m) = [] \<longleftrightarrow> \<not> hasSemanticBlock (m_Content m)"
proof (cases "hasSemanticBlock (m_Content m)")
  case True
  then have "concat (map semantic_block (m_Content m)) \<noteq> []" by (simp only: semantic_body_empty) simp
  then show ?thesis using True TrimSpace_bracket by (auto simp: serializeSemanticMessage_def Let_def)
next
  case False
  then have "concat (map semantic_block (m_Content m)) = []" by (simp only: semantic_body_empty) simp
  then have "serializeSemanticMessage m = []" by (simp add: serializeSemanticMessage_def)
  then show ?thesis using False TrimSpace_length [of "[]"] by simp
qed

abbreviation in_turn :: "string \<Rightarrow> Message \<Rightarrow> bool" where
  "in_turn t m \<equiv> t = [] \<or> m_TurnId m = t"

definition query_texts :: "string \<Rightarrow> Config \<Rightarrow> Message list \<Rightarrow> string list" where
  "query_texts t cfg local =
     concat (map (\<lambda>m. map ch_Text (the (Split (serializeSemanticMessage m) cfg)))
       (filter (in_turn t) (SemanticMessages local)))"

primrec number_from :: "nat \<Rightarrow> string list \<Rightarrow> SerializedLocalContextChunk list" where
  "number_from n [] = []"
| "number_from n (t # ts) = \<lparr>lc_Index = n, lc_Text = t\<rparr> # number_from (Suc n) ts"

lemma number_from_append: "number_from n (xs @ ys) = number_from n xs @ number_from (n + length xs) ys"
  by (induction xs arbitrary: n) auto

lemma number_from_Index: "map lc_Index (number_from n ts) = [n..<n + length ts]"
  by (induction ts arbitrary: n) (simp_all add: upt_conv_Cons del: upt_Suc)

lemma number_from_Text: "map lc_Text (number_from n ts) = ts"
  by (induction ts arbitrary: n) auto

lemma append_chunks_eq: "append_chunks ts cs n = (cs @ number_from n ts, n + length ts)"
  by (induction ts arbitrary: cs n) auto

lemma serialize_loop_eq:
  assumes est: "c_Estimator cfg = Some est"
  shows "serialize_loop t cfg ms ids cs n =
         Some (ids @ map m_Id ms, cs @ number_from n (query_texts t cfg ms))"
proof (induction ms arbitrary: ids cs n)
  case Nil
  then show ?case by (simp add: query_texts_def SemanticMessages_def)
next
  case (Cons m ms)
  show ?case
  proof (cases "in_turn t m \<and> hasSemanticBlock (m_Content m)")
    case True
    let ?s = "serializeSemanticMessage m"
    have nb: "TrimSpace ?s \<noteq> []" using True serialize_blank by blast
    from Split_total [OF est, of ?s] nb obtain raw where raw: "Split ?s cfg = Some raw" "raw \<noteq> []"
      by blast
    have "query_texts t cfg (m # ms) = map ch_Text raw @ query_texts t cfg ms"
      using True raw by (simp add: query_texts_def SemanticMessages_def)
    then show ?thesis
      using True nb raw Cons.IH by (auto simp: Let_def append_chunks_eq number_from_append)
  next
    case False
    then have "query_texts t cfg (m # ms) = query_texts t cfg ms"
      by (auto simp: query_texts_def SemanticMessages_def)
    with False Cons.IH show ?thesis by (auto simp: Let_def serialize_blank)
  qed
qed

lemma query_texts_empty:
  assumes "c_Estimator cfg = Some est"
  shows "query_texts t cfg ms = [] \<longleftrightarrow> filter (in_turn t) (SemanticMessages ms) = []"
proof -
  have "the (Split (serializeSemanticMessage m) cfg) \<noteq> []" if "hasSemanticBlock (m_Content m)" for m
    using Split_total [OF assms, of "serializeSemanticMessage m"] that serialize_blank [of m] by auto
  then show ?thesis by (auto simp: query_texts_def SemanticMessages_def filter_empty_conv)
qed

text \<open>C23: the query is the turn's discourse. With an estimator configured the serialization
  always returns; there is no query exactly when the current turn has no text or thinking;
  otherwise its chunks are the chunks of the turn's semantic messages one after the other,
  no chunk spanning two messages, numbered 0, 1, 2 and so on across the messages, while the
  membership lists every message of the window.\<close>

theorem SerializeLocalContext_query:
  assumes "c_Estimator cfg = Some est" and "local \<noteq> []"
  shows "case SerializeLocalContext local t cfg of
           None \<Rightarrow> False
         | Some None \<Rightarrow> filter (in_turn t) (SemanticMessages local) = []
         | Some (Some lx) \<Rightarrow>
             filter (in_turn t) (SemanticMessages local) \<noteq> [] \<and>
             map lc_Text (lx_Chunks lx) = query_texts t cfg local \<and>
             map lc_Index (lx_Chunks lx) = [0..<length (lx_Chunks lx)] \<and>
             lx_MessageIDs lx = map m_Id local \<and> lx_EventID lx = ''sel-'' @ m_Id (last local) \<and>
             lx_Fingerprint lx =
               hex_EncodeToString (sha256_sum (fingerprint_input (lx_MessageIDs lx) (lx_Chunks lx)))"
proof -
  let ?q = "query_texts t cfg local"
  have len: "length (number_from 0 ?q) = length ?q" by (metis length_map number_from_Text)
  have "number_from 0 ?q = [] \<longleftrightarrow> filter (in_turn t) (SemanticMessages local) = []"
    using query_texts_empty [OF assms(1), of t local] len by (metis length_0_conv)
  then show ?thesis
    using assms(2) len number_from_Index [of 0 ?q]
    by (simp add: SerializeLocalContext_def serialize_loop_eq [OF assms(1)] number_from_Text)
qed

section \<open>A worked turn\<close>

definition turn_message :: "string \<Rightarrow> string \<Rightarrow> ContentBlock list \<Rightarrow> Message" where
  "turn_message i t bs =
     \<lparr>m_Id = i, m_Role = ROLE_USER, m_Content = bs, m_Position = 0, m_ThreadId = ''t'',
      m_CreatedAt = 0, m_TurnId = t\<rparr>"

definition example_window :: "Message list" where
  "example_window =
     [turn_message ''a'' ''old'' [BlockText ''x''], turn_message ''b'' ''new'' [BlockText ''y''],
      turn_message ''c'' ''new'' [BlockImage ''png'' ''..'']]"

theorem BuildActiveDiscourse_turn_witness:
  "BuildActiveDiscourse example_window ''new'' 10 = tl example_window"
proof -
  have "turn_message ''b'' ''new'' [BlockText ''y''] \<in> set example_window"
    by (simp add: example_window_def)
  from BuildActiveDiscourse_turn [OF _ this, of "''new''" 10] show ?thesis
    by (simp add: turn_message_def example_window_def)
qed

theorem SerializeLocalContext_query_witness:
  "case SerializeLocalContext example_window ''new'' example_config of
     None \<Rightarrow> False
   | Some None \<Rightarrow> False
   | Some (Some lx) \<Rightarrow> map lc_Text (lx_Chunks lx) = query_texts ''new'' example_config example_window \<and>
       lx_MessageIDs lx = [''a'', ''b'', ''c'']"
proof -
  have "c_Estimator example_config = Some (\<lambda>s. int (length s))" by (simp add: example_config_def)
  from SerializeLocalContext_query [OF this, of example_window "''new''"] show ?thesis
    by (auto simp: example_window_def turn_message_def SemanticMessages_def hasSemanticBlock_def
        split: option.splits)
qed

end
