(* ===== verification/Protocol_Closure.thy ===== *)
theory Protocol_Closure
  imports Proto_Types Go_Prelude
begin

text \<open>
  \<^verbatim>\<open>rrc/protocol.go\<close>: tool calls and tool results are answered by each other, and a
  message may only be delivered together with every message its protocol blocks need. The
  index is built in one pass over the corpus; \<open>CloseGroup\<close> is the breadth-first closure.
  The theorems read the result against the corpus itself: the group is the set of messages
  linked to the root, and closing fails exactly when a linked message has a block with no
  counterpart or with more than one.
\<close>

section \<open>Definitions\<close>

record DeliveryGroup =
  dg_RootID :: string
  dg_RootIDs :: "string list"
  dg_Score :: float64
  dg_Messages :: "Message list"

record ProtocolIndex =
  pi_callByKey :: "(string, Message) fmap"
  pi_resultByKey :: "(string, Message) fmap"
  pi_ambiguous :: "(string, bool) fmap"

datatype protocol_error =
    NilRoot
  | MultipleResults string string
  | MultipleCalls string string
  | MissingCounterpart string string string

definition nul :: string where
  "nul = [CHR 0x00]"

definition protocolKey :: "string \<Rightarrow> string \<Rightarrow> string" where
  "protocolKey threadID callID = threadID @ nul @ callID"

definition callTag :: "string \<Rightarrow> string" where
  "callTag key = ''call'' @ nul @ key"

definition resultTag :: "string \<Rightarrow> string" where
  "resultTag key = ''result'' @ nul @ key"

text \<open>One block of the index loop; \<open>clash\<close> is the test for an earlier message under the
  same key.\<close>

definition clash :: "(string, Message) fmap \<Rightarrow> string \<Rightarrow> Message \<Rightarrow> bool" where
  "clash byKey key m = (case fmlookup byKey key of None \<Rightarrow> False | Some prior \<Rightarrow> m_Id prior \<noteq> m_Id m)"

fun index_block :: "Message \<Rightarrow> ProtocolIndex \<Rightarrow> ContentBlock \<Rightarrow> ProtocolIndex" where
  "index_block m p (BlockToolCall tc) =
     (if tc_Id tc = [] then p
      else let key = protocolKey (m_ThreadId m) (tc_Id tc) in
        p\<lparr>pi_ambiguous := (if clash (pi_callByKey p) key m
             then fmupd (callTag key) True (pi_ambiguous p) else pi_ambiguous p),
          pi_callByKey := fmupd key m (pi_callByKey p)\<rparr>)"
| "index_block m p (BlockToolResult tr) =
     (if tr_ToolCallId tr = [] then p
      else let key = protocolKey (m_ThreadId m) (tr_ToolCallId tr) in
        p\<lparr>pi_ambiguous := (if clash (pi_resultByKey p) key m
             then fmupd (resultTag key) True (pi_ambiguous p) else pi_ambiguous p),
          pi_resultByKey := fmupd key m (pi_resultByKey p)\<rparr>)"
| "index_block m p _ = p"

definition NewProtocolIndex :: "Message list \<Rightarrow> ProtocolIndex" where
  "NewProtocolIndex corpus =
     foldl (\<lambda>p m. foldl (index_block m) p (m_Content m))
       \<lparr>pi_callByKey = fmempty, pi_resultByKey = fmempty, pi_ambiguous = fmempty\<rparr> corpus"

text \<open>The body of the closure's inner loop: \<open>Inr None\<close> is \<^verbatim>\<open>continue\<close>.\<close>

fun counterpart :: "ProtocolIndex \<Rightarrow> Message \<Rightarrow> ContentBlock \<Rightarrow> protocol_error + Message option" where
  "counterpart p current (BlockToolCall tc) =
     (let key = protocolKey (m_ThreadId current) (tc_Id tc) in
      if lookup_or False (pi_ambiguous p) (resultTag key)
      then Inl (MultipleResults (tc_Id tc) (m_ThreadId current))
      else (case fmlookup (pi_resultByKey p) key of
              None \<Rightarrow> Inl (MissingCounterpart (m_Id current) ''tool result'' (m_ThreadId current))
            | Some m \<Rightarrow> Inr (Some m)))"
| "counterpart p current (BlockToolResult tr) =
     (let key = protocolKey (m_ThreadId current) (tr_ToolCallId tr) in
      if lookup_or False (pi_ambiguous p) (callTag key)
      then Inl (MultipleCalls (tr_ToolCallId tr) (m_ThreadId current))
      else (case fmlookup (pi_callByKey p) key of
              None \<Rightarrow> Inl (MissingCounterpart (m_Id current) ''tool call'' (m_ThreadId current))
            | Some m \<Rightarrow> Inr (Some m)))"
| "counterpart p current _ = Inr None"

text \<open>The inner loop over the blocks of \<open>current\<close>: the ids seen, and the messages newly
  appended to both \<^verbatim>\<open>messages\<close> and \<^verbatim>\<open>queue\<close>.\<close>

fun close_blocks ::
  "ProtocolIndex \<Rightarrow> Message \<Rightarrow> ContentBlock list \<Rightarrow> string set \<Rightarrow> Message list \<Rightarrow>
   protocol_error + string set \<times> Message list" where
  "close_blocks p current [] seen new = Inr (seen, new)"
| "close_blocks p current (b # bs) seen new =
     (case counterpart p current b of
        Inl err \<Rightarrow> Inl err
      | Inr None \<Rightarrow> close_blocks p current bs seen new
      | Inr (Some m) \<Rightarrow>
          if m_Id m \<in> seen then close_blocks p current bs seen new
          else close_blocks p current bs (insert (m_Id m) seen) (new @ [m]))"

definition index_ids :: "ProtocolIndex \<Rightarrow> string set" where
  "index_ids p = m_Id ` (fset (fmran (pi_callByKey p)) \<union> fset (fmran (pi_resultByKey p)))"

lemma finite_index_ids [simp]: "finite (index_ids p)"
  by (simp add: index_ids_def)

lemma counterpart_index_ids: "counterpart p c b = Inr (Some m) \<Longrightarrow> m_Id m \<in> index_ids p"
  by (cases b) (auto simp: Let_def index_ids_def split: if_splits option.splits intro: fmranI)

lemma close_blocks_shape:
  "close_blocks p c bs seen new = Inr (seen', new') \<Longrightarrow>
   \<exists>fresh. new' = new @ fresh \<and> seen' = seen \<union> m_Id ` set fresh \<and>
     m_Id ` set fresh \<subseteq> index_ids p - seen \<and> distinct (map m_Id fresh)"
proof (induction bs arbitrary: seen new)
  case (Cons b bs)
  show ?case
  proof (cases "\<exists>m. counterpart p c b = Inr (Some m) \<and> m_Id m \<notin> seen")
    case True
    then obtain m where m: "counterpart p c b = Inr (Some m)" "m_Id m \<notin> seen" by blast
    with Cons.prems have "close_blocks p c bs (insert (m_Id m) seen) (new @ [m]) = Inr (seen', new')"
      by simp
    from Cons.IH [OF this] obtain fresh where f: "new' = (new @ [m]) @ fresh"
      "seen' = insert (m_Id m) seen \<union> m_Id ` set fresh"
      "m_Id ` set fresh \<subseteq> index_ids p - insert (m_Id m) seen" "distinct (map m_Id fresh)" by blast
    show ?thesis
      using f m counterpart_index_ids [OF m(1)] by (intro exI [of _ "m # fresh"]) auto
  next
    case False
    with Cons show ?thesis by (auto split: sum.splits option.splits if_splits)
  qed
qed simp

function close_loop ::
  "ProtocolIndex \<Rightarrow> string set \<Rightarrow> Message list \<Rightarrow> Message list \<Rightarrow> protocol_error + Message list" where
  "close_loop p seen [] messages = Inr messages"
| "close_loop p seen (current # queue) messages =
     (case close_blocks p current (m_Content current) seen [] of
        Inl err \<Rightarrow> Inl err
      | Inr (seen', new) \<Rightarrow> close_loop p seen' (queue @ new) (messages @ new))"
  by pat_completeness auto
termination
proof (relation "measures [\<lambda>(p, seen, queue, messages). card (index_ids p - seen),
      \<lambda>(p, seen, queue, messages). length queue]", goal_cases)
  case 1
  then show ?case by simp
next
  case (2 p seen current queue messages r seen' new)
  then have "close_blocks p current (m_Content current) seen [] = Inr (seen', new)" by simp
  from close_blocks_shape [OF this] have sh: "seen' = seen \<union> m_Id ` set new"
    "m_Id ` set new \<subseteq> index_ids p - seen" by auto
  show ?case
  proof (cases "new = []")
    case False
    then have "index_ids p - seen' \<subset> index_ids p - seen" using sh by (cases new) auto
    then have "card (index_ids p - seen') < card (index_ids p - seen)"
      by (intro psubset_card_mono) auto
    then show ?thesis by simp
  qed (use sh in simp)
qed

definition wire_less :: "Message \<Rightarrow> Message \<Rightarrow> bool" where
  "wire_less a b = (if m_ThreadId a \<noteq> m_ThreadId b then m_ThreadId a < m_ThreadId b
                    else m_Position a < m_Position b)"

definition CloseGroup ::
  "ProtocolIndex \<Rightarrow> Message option \<Rightarrow> float64 \<Rightarrow> protocol_error + DeliveryGroup" where
  "CloseGroup p rt score =
     (case rt of
        None \<Rightarrow> Inl NilRoot
      | Some r \<Rightarrow>
          (case close_loop p {m_Id r} [r] [r] of
             Inl err \<Rightarrow> Inl err
           | Inr messages \<Rightarrow>
               Inr \<lparr>dg_RootID = m_Id r, dg_RootIDs = [m_Id r], dg_Score = score,
                    dg_Messages = sort_stable wire_less messages\<rparr>))"

interpretation wire: weak_order wire_less "\<lambda>_. True"
  by unfold_locales (auto simp: wire_less_def split: if_splits)

section \<open>What the index holds\<close>

text \<open>The two halves of the index are symmetric: \<open>True\<close> stands for the calls,
  \<open>False\<close> for the results.\<close>

fun block_key :: "bool \<Rightarrow> Message \<Rightarrow> ContentBlock \<Rightarrow> string option" where
  "block_key True m (BlockToolCall tc) =
     (if tc_Id tc = [] then None else Some (protocolKey (m_ThreadId m) (tc_Id tc)))"
| "block_key False m (BlockToolResult tr) =
     (if tr_ToolCallId tr = [] then None else Some (protocolKey (m_ThreadId m) (tr_ToolCallId tr)))"
| "block_key _ m _ = None"

definition provides :: "bool \<Rightarrow> string \<Rightarrow> Message \<Rightarrow> bool" where
  "provides side key m \<longleftrightarrow> list_ex (\<lambda>b. block_key side m b = Some key) (m_Content m)"

definition byKey :: "bool \<Rightarrow> ProtocolIndex \<Rightarrow> (string, Message) fmap" where
  "byKey side p = (if side then pi_callByKey p else pi_resultByKey p)"

definition tag :: "bool \<Rightarrow> string \<Rightarrow> string" where
  "tag side key = (if side then callTag key else resultTag key)"

lemma tag_inj [simp]: "tag side key = tag side' key' \<longleftrightarrow> side = side' \<and> key = key'"
  by (auto simp: tag_def callTag_def resultTag_def nul_def)

lemma tags [simp]: "callTag key = tag True key" "resultTag key = tag False key"
  by (simp_all add: tag_def)

lemma byKey_index_block:
  "byKey side (index_block m p b) =
     (case block_key side m b of None \<Rightarrow> byKey side p | Some key \<Rightarrow> fmupd key m (byKey side p))"
  by (cases b; cases side) (simp_all add: byKey_def Let_def)

lemma ambiguous_index_block:
  "lookup_or False (pi_ambiguous (index_block m p b)) (tag side key) \<longleftrightarrow>
   lookup_or False (pi_ambiguous p) (tag side key) \<or>
   (block_key side m b = Some key \<and> clash (byKey side p) key m)"
  by (cases b; cases side) (auto simp: byKey_def Let_def)

text \<open>The invariant of the index loop, after the (message, block) pairs \<open>ps\<close>.\<close>

definition keyed :: "bool \<Rightarrow> string \<Rightarrow> (Message \<times> ContentBlock) list \<Rightarrow> Message set" where
  "keyed side key ps = {m. \<exists>b. (m, b) \<in> set ps \<and> block_key side m b = Some key}"

definition differ :: "Message set \<Rightarrow> bool" where
  "differ K \<longleftrightarrow> (\<exists>m \<in> K. \<exists>m' \<in> K. m_Id m \<noteq> m_Id m')"

lemma differ_empty [simp]: "\<not> differ {}"
  by (simp add: differ_def)

lemma differ_insert:
  "x \<in> K \<Longrightarrow> differ (insert m K) \<longleftrightarrow> differ K \<or> m_Id x \<noteq> m_Id m"
  "differ {m} \<longleftrightarrow> False"
  unfolding differ_def by (metis insert_iff) simp

definition index_inv :: "ProtocolIndex \<Rightarrow> (Message \<times> ContentBlock) list \<Rightarrow> bool" where
  "index_inv p ps \<longleftrightarrow> (\<forall>side key.
     (case fmlookup (byKey side p) key of
        None \<Rightarrow> keyed side key ps = {} | Some m \<Rightarrow> m \<in> keyed side key ps) \<and>
     lookup_or False (pi_ambiguous p) (tag side key) = differ (keyed side key ps))"

lemma keyed_snoc:
  "keyed side key (ps @ [(m, b)]) =
   (if block_key side m b = Some key then insert m (keyed side key ps) else keyed side key ps)"
  by (auto simp: keyed_def)

lemma index_inv_step:
  assumes "index_inv p ps"
  shows "index_inv (index_block m p b) (ps @ [(m, b)])"
  unfolding index_inv_def
proof (intro allI)
  fix side key
  let ?K = "keyed side key ps"
  have look: "case fmlookup (byKey side p) key of None \<Rightarrow> ?K = {} | Some m \<Rightarrow> m \<in> ?K"
    and amb: "lookup_or False (pi_ambiguous p) (tag side key) = differ ?K"
    using assms by (auto simp: index_inv_def)
  have "differ (insert m ?K) \<longleftrightarrow> differ ?K \<or> clash (byKey side p) key m"
    using look by (auto simp: clash_def differ_insert split: option.splits)
  with look amb show "(case fmlookup (byKey side (index_block m p b)) key of
        None \<Rightarrow> keyed side key (ps @ [(m, b)]) = {} | Some m' \<Rightarrow> m' \<in> keyed side key (ps @ [(m, b)])) \<and>
     lookup_or False (pi_ambiguous (index_block m p b)) (tag side key) =
       differ (keyed side key (ps @ [(m, b)]))"
    by (cases "block_key side m b")
       (auto simp: byKey_index_block ambiguous_index_block keyed_snoc split: option.splits)
qed

lemma index_inv_message:
  "index_inv p ps \<Longrightarrow> index_inv (foldl (index_block m) p bs) (ps @ map (Pair m) bs)"
proof (induction bs arbitrary: p ps)
  case (Cons b bs)
  then show ?case using Cons.IH [OF index_inv_step [OF Cons.prems]] by simp
qed simp

lemma index_inv_corpus:
  "index_inv p ps \<Longrightarrow>
   index_inv (foldl (\<lambda>p m. foldl (index_block m) p (m_Content m)) p ms)
     (ps @ concat (map (\<lambda>m. map (Pair m) (m_Content m)) ms))"
proof (induction ms arbitrary: p ps)
  case (Cons m ms)
  then show ?case using Cons.IH [OF index_inv_message [OF Cons.prems]] by simp
qed simp

lemma NewProtocolIndex_spec:
  fixes corpus :: "Message list" and side key
  defines "K \<equiv> {m \<in> set corpus. provides side key m}"
  shows "case fmlookup (byKey side (NewProtocolIndex corpus)) key of None \<Rightarrow> K = {} | Some m \<Rightarrow> m \<in> K"
    and "lookup_or False (pi_ambiguous (NewProtocolIndex corpus)) (tag side key) = differ K"
proof -
  let ?ps = "concat (map (\<lambda>m. map (Pair m) (m_Content m)) corpus)"
  have inv: "index_inv (NewProtocolIndex corpus) ?ps"
    using index_inv_corpus [of _ "[]" corpus]
    by (simp add: NewProtocolIndex_def index_inv_def byKey_def keyed_def)
  have K: "keyed side key ?ps = K"
    by (auto simp: keyed_def K_def provides_def list_ex_iff)
  from inv [unfolded index_inv_def, rule_format, of side key, unfolded K] show
    "case fmlookup (byKey side (NewProtocolIndex corpus)) key of None \<Rightarrow> K = {} | Some m \<Rightarrow> m \<in> K"
    "lookup_or False (pi_ambiguous (NewProtocolIndex corpus)) (tag side key) = differ K"
    by simp_all
qed

section \<open>Links between messages\<close>

text \<open>Read off the corpus: what a block asks for, and the messages that provide it.\<close>

fun wants :: "Message \<Rightarrow> ContentBlock \<Rightarrow> (bool \<times> string) option" where
  "wants m (BlockToolCall tc) = Some (False, protocolKey (m_ThreadId m) (tc_Id tc))"
| "wants m (BlockToolResult tr) = Some (True, protocolKey (m_ThreadId m) (tr_ToolCallId tr))"
| "wants m _ = None"

definition providers :: "Message list \<Rightarrow> Message \<Rightarrow> ContentBlock \<Rightarrow> Message list" where
  "providers corpus m b =
     (case wants m b of None \<Rightarrow> [] | Some (side, key) \<Rightarrow> filter (provides side key) corpus)"

definition satisfied :: "Message list \<Rightarrow> Message \<Rightarrow> bool" where
  "satisfied corpus m \<longleftrightarrow>
     list_all (\<lambda>b. wants m b \<noteq> None \<longrightarrow> length (providers corpus m b) = 1) (m_Content m)"

definition linked :: "Message list \<Rightarrow> Message \<Rightarrow> Message \<Rightarrow> bool" where
  "linked corpus m m' \<longleftrightarrow> list_ex (\<lambda>b. m' \<in> set (providers corpus m b)) (m_Content m)"

lemma counterpart_index:
  "counterpart p c b =
     (case wants c b of None \<Rightarrow> Inr None
      | Some (side, key) \<Rightarrow>
          if lookup_or False (pi_ambiguous p) (tag side key)
          then Inl (case b of BlockToolCall tc \<Rightarrow> MultipleResults (tc_Id tc) (m_ThreadId c)
                    | BlockToolResult tr \<Rightarrow> MultipleCalls (tr_ToolCallId tr) (m_ThreadId c))
          else (case fmlookup (byKey side p) key of
                  None \<Rightarrow> Inl (MissingCounterpart (m_Id c)
                            (if side then ''tool call'' else ''tool result'') (m_ThreadId c))
                | Some m \<Rightarrow> Inr (Some m)))"
  by (cases b) (auto simp: Let_def byKey_def split: option.splits)

text \<open>With unique message ids, the index answers a block exactly when one message of the
  corpus does.\<close>

lemma counterpart_spec:
  assumes ids: "distinct (map m_Id corpus)"
  shows "case counterpart (NewProtocolIndex corpus) c b of
           Inl err \<Rightarrow> wants c b \<noteq> None \<and> length (providers corpus c b) \<noteq> 1
         | Inr None \<Rightarrow> wants c b = None
         | Inr (Some m) \<Rightarrow> wants c b \<noteq> None \<and> providers corpus c b = [m]"
proof (cases "wants c b")
  case None
  then show ?thesis by (simp add: counterpart_index)
next
  case (Some w)
  obtain side key where w: "w = (side, key)" by (cases w)
  let ?F = "filter (provides side key) corpus"
  have set_F: "{m \<in> set corpus. provides side key m} = set ?F" by auto
  note spec = NewProtocolIndex_spec [of corpus side key, unfolded set_F]
  have dF: "distinct (map m_Id ?F)" using ids by (simp add: distinct_map_filter)
  have P: "providers corpus c b = ?F" using Some w by (simp add: providers_def)
  consider "?F = []" | m where "?F = [m]" | m m' r where "?F = m # m' # r"
    by (metis list.exhaust)
  then show ?thesis
  proof cases
    case 3
    then have "differ (set ?F)" using dF by (auto simp: differ_def)
    with 3 spec(2) Some w P show ?thesis by (simp add: counterpart_index)
  next
    case 1
    then have "fmlookup (byKey side (NewProtocolIndex corpus)) key = None"
      using spec(1) by (cases "fmlookup (byKey side (NewProtocolIndex corpus)) key") auto
    with 1 spec(2) Some w P show ?thesis by (simp add: counterpart_index)
  next
    case 2
    then have "fmlookup (byKey side (NewProtocolIndex corpus)) key = Some m"
      using spec(1) by (cases "fmlookup (byKey side (NewProtocolIndex corpus)) key") auto
    with 2 spec(2) Some w P show ?thesis by (simp add: counterpart_index differ_def)
  qed
qed

section \<open>The closure\<close>

lemma close_blocks_ok:
  assumes ids: "distinct (map m_Id corpus)"
    and "close_blocks (NewProtocolIndex corpus) c bs seen new = Inr (seen', new')"
  shows "(\<forall>b \<in> set bs. (wants c b \<noteq> None \<longrightarrow> length (providers corpus c b) = 1) \<and>
            m_Id ` set (providers corpus c b) \<subseteq> seen') \<and>
         set new' \<subseteq> set new \<union> (\<Union>b \<in> set bs. set (providers corpus c b)) \<and> seen \<subseteq> seen'"
  using assms(2)
proof (induction bs arbitrary: seen new)
  case (Cons b bs)
  note spec = counterpart_spec [OF ids, of c b]
  have none: "wants c b = None \<Longrightarrow> providers corpus c b = []" by (simp add: providers_def)
  show ?case
  proof (cases "counterpart (NewProtocolIndex corpus) c b")
    case (Inr r)
    show ?thesis
    proof (cases r)
      case None
      with Inr Cons.prems have
        "close_blocks (NewProtocolIndex corpus) c bs seen new = Inr (seen', new')" by simp
      from Cons.IH [OF this] None Inr spec none show ?thesis by simp
    next
      case (Some m)
      with Inr spec have m: "wants c b \<noteq> None" "providers corpus c b = [m]" by auto
      have "close_blocks (NewProtocolIndex corpus) c bs (insert (m_Id m) seen)
          (if m_Id m \<in> seen then new else new @ [m]) = Inr (seen', new')"
        using Cons.prems Inr Some by (auto simp: insert_absorb split: if_splits)
      from Cons.IH [OF this] m show ?thesis by (auto split: if_splits)
    qed
  qed (use Cons.prems in simp)
qed simp

lemma close_blocks_error:
  assumes ids: "distinct (map m_Id corpus)"
    and "close_blocks (NewProtocolIndex corpus) c bs seen new = Inl err"
  shows "\<exists>b \<in> set bs. wants c b \<noteq> None \<and> length (providers corpus c b) \<noteq> 1"
  using assms(2)
proof (induction bs arbitrary: seen new)
  case (Cons b bs)
  show ?case
  proof (cases "counterpart (NewProtocolIndex corpus) c b")
    case (Inl e)
    then show ?thesis using counterpart_spec [OF ids, of c b] by auto
  next
    case (Inr r)
    with Cons show ?thesis by (auto split: option.splits if_splits)
  qed
qed simp

definition close_inv ::
  "Message list \<Rightarrow> Message \<Rightarrow> string set \<Rightarrow> Message list \<Rightarrow> Message list \<Rightarrow> bool" where
  "close_inv corpus r seen queue messages \<longleftrightarrow>
     seen = m_Id ` set messages \<and> distinct (map m_Id messages) \<and> r \<in> set messages \<and>
     set messages \<subseteq> {m. (linked corpus)\<^sup>*\<^sup>* r m} \<and>
     (\<exists>finished. messages = finished @ queue \<and> (\<forall>m \<in> set finished. satisfied corpus m \<and>
        (\<forall>m'. linked corpus m m' \<longrightarrow> m_Id m' \<in> seen)))"

lemma close_inv_step:
  assumes ids: "distinct (map m_Id corpus)"
    and inv: "close_inv corpus r seen (c # queue) messages"
    and step: "close_blocks (NewProtocolIndex corpus) c (m_Content c) seen [] = Inr (seen', new)"
  shows "close_inv corpus r seen' (queue @ new) (messages @ new)"
proof -
  note ok = close_blocks_ok [OF ids step]
  from close_blocks_shape [OF step] have sh: "seen' = seen \<union> m_Id ` set new"
    "m_Id ` set new \<inter> seen = {}" "distinct (map m_Id new)" by auto
  from inv obtain finished where f: "messages = finished @ c # queue"
    "\<forall>m \<in> set finished. satisfied corpus m \<and> (\<forall>m'. linked corpus m m' \<longrightarrow> m_Id m' \<in> seen)"
    by (auto simp: close_inv_def)
  have c: "(linked corpus)\<^sup>*\<^sup>* r c" using inv f(1) by (auto simp: close_inv_def)
  have "linked corpus c m" if "m \<in> set new" for m
    using ok that by (auto simp: linked_def list_ex_iff)
  then have "set new \<subseteq> {m. (linked corpus)\<^sup>*\<^sup>* r m}"
    using c by (auto intro: rtranclp.rtrancl_into_rtrancl)
  moreover have "satisfied corpus c" "\<forall>m'. linked corpus c m' \<longrightarrow> m_Id m' \<in> seen'"
    using ok by (simp_all add: satisfied_def linked_def list_all_iff list_ex_iff) blast+
  then have "\<forall>m \<in> set (finished @ [c]). satisfied corpus m \<and>
      (\<forall>m'. linked corpus m m' \<longrightarrow> m_Id m' \<in> seen')"
    using f(2) sh(1) by auto
  moreover have "messages @ new = (finished @ [c]) @ queue @ new" using f(1) by simp
  ultimately show ?thesis
    using inv sh unfolding close_inv_def by (auto intro!: exI [of _ "finished @ [c]"])
qed

lemma close_loop_spec:
  assumes ids: "distinct (map m_Id corpus)" and p: "p = NewProtocolIndex corpus"
    and inv: "close_inv corpus r seen queue messages"
  shows "case close_loop p seen queue messages of
           Inl err \<Rightarrow> \<exists>m. (linked corpus)\<^sup>*\<^sup>* r m \<and> \<not> satisfied corpus m
         | Inr ms \<Rightarrow> close_inv corpus r (m_Id ` set ms) [] ms"
  using p inv
proof (induction p seen queue messages rule: close_loop.induct)
  case (1 p seen messages)
  then have "seen = m_Id ` set messages" by (simp add: close_inv_def)
  with 1 show ?case by simp
next
  case (2 p seen c queue messages)
  show ?case
  proof (cases "close_blocks p c (m_Content c) seen []")
    case (Inl err)
    have "\<not> satisfied corpus c"
      using close_blocks_error [OF ids Inl [unfolded 2(2)]] by (auto simp: satisfied_def list_all_iff)
    moreover have "(linked corpus)\<^sup>*\<^sup>* r c" using 2(3) by (auto simp: close_inv_def)
    ultimately show ?thesis using Inl by auto
  next
    case (Inr res)
    obtain seen' new where res: "res = (seen', new)" by (cases res)
    have "close_inv corpus r seen' (queue @ new) (messages @ new)"
      using close_inv_step [OF ids 2(3)] Inr res 2(2) by simp
    from "2.IH" [OF Inr res [symmetric] 2(2) this] show ?thesis using Inr res by simp
  qed
qed

lemma linked_in_corpus: "linked corpus m m' \<Longrightarrow> m' \<in> set corpus"
  by (auto simp: linked_def list_ex_iff providers_def split: option.splits prod.splits)

lemma close_inv_final:
  assumes ids: "distinct (map m_Id corpus)" and r: "r \<in> set corpus"
    and inv: "close_inv corpus r (m_Id ` set ms) [] ms"
  shows "set ms = {m. (linked corpus)\<^sup>*\<^sup>* r m}" and "\<forall>m \<in> set ms. satisfied corpus m"
proof -
  from inv have msub: "set ms \<subseteq> {m. (linked corpus)\<^sup>*\<^sup>* r m}" and rm: "r \<in> set ms"
    and all: "\<forall>m \<in> set ms. satisfied corpus m \<and> (\<forall>m'. linked corpus m m' \<longrightarrow> m_Id m' \<in> m_Id ` set ms)"
    by (auto simp: close_inv_def)
  have in_corpus: "m \<in> set corpus" if "(linked corpus)\<^sup>*\<^sup>* r m" for m
    using that r by (induction rule: rtranclp_induct) (auto intro: linked_in_corpus)
  have "m \<in> set ms" if "(linked corpus)\<^sup>*\<^sup>* r m" for m
    using that
  proof (induction rule: rtranclp_induct)
    case (step m m')
    then have "m_Id m' \<in> m_Id ` set ms" using all by blast
    then obtain x where "x \<in> set ms" "m_Id x = m_Id m'" by (metis imageE)
    then show ?case
      using ids linked_in_corpus [OF step(2)] in_corpus msub
      by (metis distinct_map inj_onD mem_Collect_eq subsetD)
  qed (rule rm)
  then show "set ms = {m. (linked corpus)\<^sup>*\<^sup>* r m}" using msub by auto
  show "\<forall>m \<in> set ms. satisfied corpus m" using all by blast
qed

lemma close_inv_start: "close_inv corpus r {m_Id r} [r] [r]"
  by (simp add: close_inv_def)

text \<open>C13: a delivery group is exact. For a root of a corpus with unique message ids, a
  successful closure returns precisely the messages linked to the root by tool calls and
  results, each once, in thread and position order; and every tool call and tool result in
  the group has exactly one counterpart in the corpus, which is in the group.\<close>

theorem CloseGroup_exact:
  assumes "distinct (map m_Id corpus)" and "r \<in> set corpus"
    and "CloseGroup (NewProtocolIndex corpus) (Some r) score = Inr g"
  shows "set (dg_Messages g) = {m. (linked corpus)\<^sup>*\<^sup>* r m} \<and>
         distinct (map m_Id (dg_Messages g)) \<and>
         sorted_wrt (\<lambda>a b. \<not> wire_less b a) (dg_Messages g) \<and>
         list_all (satisfied corpus) (dg_Messages g) \<and>
         dg_RootID g = m_Id r \<and> dg_RootIDs g = [m_Id r] \<and> dg_Score g = score"
proof -
  obtain ms where ms: "close_loop (NewProtocolIndex corpus) {m_Id r} [r] [r] = Inr ms"
    and g: "g = \<lparr>dg_RootID = m_Id r, dg_RootIDs = [m_Id r], dg_Score = score,
                 dg_Messages = sort_stable wire_less ms\<rparr>"
    using assms(3) by (auto simp: CloseGroup_def split: sum.splits)
  have inv: "close_inv corpus r (m_Id ` set ms) [] ms"
    using close_loop_spec [OF assms(1) refl close_inv_start [of corpus r]] ms by simp
  note fin = close_inv_final [OF assms(1,2) inv]
  have "sorted_wrt (\<lambda>a b. \<not> wire_less b a) (sort_stable wire_less ms)"
    by (rule wire.sorted_sort_stable) simp
  with fin inv g show ?thesis by (simp add: close_inv_def list_all_iff)
qed

text \<open>C14: closing fails only on a broken protocol. For a root of a corpus with unique message
  ids, \<open>CloseGroup\<close> returns an error exactly when some message linked to the root has a
  tool call or tool result with no counterpart, or with several.\<close>

theorem CloseGroup_error_iff:
  assumes "distinct (map m_Id corpus)" and "r \<in> set corpus"
  shows "(\<exists>err. CloseGroup (NewProtocolIndex corpus) (Some r) score = Inl err) \<longleftrightarrow>
         (\<exists>m. (linked corpus)\<^sup>*\<^sup>* r m \<and> \<not> satisfied corpus m)"
proof (cases "close_loop (NewProtocolIndex corpus) {m_Id r} [r] [r]")
  case (Inl err)
  then show ?thesis
    using close_loop_spec [OF assms(1) refl close_inv_start [of corpus r]]
    by (auto simp: CloseGroup_def)
next
  case (Inr ms)
  then have "close_inv corpus r (m_Id ` set ms) [] ms"
    using close_loop_spec [OF assms(1) refl close_inv_start [of corpus r]] by simp
  from close_inv_final [OF assms this] Inr show ?thesis by (auto simp: CloseGroup_def)
qed

section \<open>A worked closure\<close>

text \<open>A corpus with a question, a tool call and its result; and the same corpus without the
  result.\<close>

definition example_message :: "string \<Rightarrow> int \<Rightarrow> ContentBlock list \<Rightarrow> Message" where
  "example_message i pos bs =
     \<lparr>m_Id = i, m_Role = ROLE_USER, m_Content = bs, m_Position = pos, m_ThreadId = ''t'',
      m_CreatedAt = 0, m_TurnId = ''''\<rparr>"

definition example_question :: Message where
  "example_question = example_message ''q'' 0 [BlockText ''?'']"

definition example_call :: Message where
  "example_call = example_message ''c'' 1 [BlockToolCall
     \<lparr>tc_Id = ''k'', tc_Name = ''f'', tc_Arguments = '''', tc_Signature = ''''\<rparr>]"

definition example_result :: Message where
  "example_result = example_message ''r'' 2 [BlockToolResult
     \<lparr>tr_ToolCallId = ''k'', tr_Content = ''42'', tr_IsError = False\<rparr>]"

lemmas example_messages = example_message_def example_question_def example_call_def example_result_def

lemma example_CloseGroup:
  "CloseGroup (NewProtocolIndex [example_question, example_call, example_result])
     (Some example_result) 1 =
   Inr \<lparr>dg_RootID = ''r'', dg_RootIDs = [''r''], dg_Score = 1,
        dg_Messages = [example_call, example_result]\<rparr>"
  by (simp add: CloseGroup_def NewProtocolIndex_def example_messages Let_def clash_def
      protocolKey_def nul_def wire_less_def)

theorem CloseGroup_exact_witness:
  "set [example_call, example_result] =
     {m. (linked [example_question, example_call, example_result])\<^sup>*\<^sup>* example_result m} \<and>
   list_all (satisfied [example_question, example_call, example_result]) [example_call, example_result]"
  using CloseGroup_exact [OF _ _ example_CloseGroup] by (simp add: example_messages)

theorem CloseGroup_error_iff_witness:
  "(\<exists>err. CloseGroup (NewProtocolIndex [example_question, example_call]) (Some example_call) 1 = Inl err) \<and>
   (\<exists>m. (linked [example_question, example_call])\<^sup>*\<^sup>* example_call m \<and>
     \<not> satisfied [example_question, example_call] m)"
proof -
  let ?corpus = "[example_question, example_call]"
  have "CloseGroup (NewProtocolIndex ?corpus) (Some example_call) 1 =
      Inl (MissingCounterpart ''c'' ''tool result'' ''t'')"
    by (simp add: CloseGroup_def NewProtocolIndex_def example_messages Let_def clash_def
        protocolKey_def nul_def)
  then show ?thesis
    using CloseGroup_error_iff [of ?corpus example_call 1] by (simp add: example_messages)
qed

end
