(* ===== verification/Detection.thy ===== *)
theory Detection
  imports Proto_Types "HOL-Library.Word"
begin

unbundle bit_operations_syntax

text \<open>
  \<^verbatim>\<open>rrc/detect.go\<close> and \<^verbatim>\<open>rrc/acceptance.go\<close>: the acceptance law as
  detection against a noise floor the selection event measures about itself, the bit
  currency evidence is counted in, and the draw seed of the reference sample.
\<close>

definition ReferenceSampleSize :: nat where
  "ReferenceSampleSize = 64"

definition minReferenceSample :: nat where
  "minReferenceSample = 4"

definition nullP :: "float64 \<Rightarrow> float64 list \<Rightarrow> float64" where
  "nullP score refScores =
     (let k = length (filter (\<lambda>r. score \<le> r) refScores)
      in float_of_int (int k + 1) / float_of_int (int (length refScores) + 1))"

definition surprisalBits :: "float64 \<Rightarrow> float64" where
  "surprisalBits p = (if p \<le> 0 then PInf else - math_Log2 p)"

definition confidenceFromBits :: "float64 \<Rightarrow> float64" where
  "confidenceFromBits bits = (if bits = PInf then 1 else 1 - math_Exp2 (- bits))"

definition bitsFromConfidence :: "float64 \<Rightarrow> float64" where
  "bitsFromConfidence conf =
     (if 1 \<le> conf then PInf else if conf \<le> 0 then 0 else - math_Log2 (1 - conf))"

definition stanceBits :: "float64 \<Rightarrow> float64" where
  "stanceBits lossRatio =
     (if lossRatio \<le> 0 then 0 else if 1 \<le> lossRatio then PInf else - math_Log2 (1 - lossRatio))"

definition flatReference :: "float64 list \<Rightarrow> bool" where
  "flatReference refScores =
     (case refScores of
        [] \<Rightarrow> False
      | r0 # rs \<Rightarrow>
          if length refScores < minReferenceSample then False
          else let lo = foldl (\<lambda>lo r. if r < lo then r else lo) r0 rs;
                   hi = foldl (\<lambda>hi r. if hi < r then r else hi) r0 rs
               in hi - lo < Fin (1 / 10 ^ 9))"

text \<open>FNV-1a on 64-bit words: \<^verbatim>\<open>hash/fnv\<close>'s \<^verbatim>\<open>New64a\<close>.\<close>

definition fnv_offset64 :: "64 word" where
  "fnv_offset64 = 14695981039346656037"

definition fnv_prime64 :: "64 word" where
  "fnv_prime64 = 1099511628211"

definition referenceSeed :: "string \<Rightarrow> 64 word" where
  "referenceSeed fingerprint =
     foldl (\<lambda>h c. (h XOR of_nat (of_char c)) * fnv_prime64) fnv_offset64 fingerprint"

definition accept :: "float64 \<Rightarrow> float64 \<Rightarrow> float64 \<Rightarrow> int \<Rightarrow> bool" where
  "accept p lossRatio mu tokens \<longleftrightarrow> lossRatio + mu * float_of_int tokens \<le> p"

section \<open>The null probability\<close>

lemma nullP_Fin:
  "nullP s refs = Fin ((real (length (filter (\<lambda>r. s \<le> r) refs)) + 1) / (real (length refs) + 1))"
  by (simp add: nullP_def Let_def)

lemma nullP_le_iff:
  "nullP s refs \<le> Fin (real k / (real (length refs) + 1)) \<longleftrightarrow>
   length (filter (\<lambda>r. s \<le> r) refs) < k"
  by (simp add: nullP_Fin divide_le_cancel) linarith

text \<open>A candidate's null probability is at most the beat-all bar 1/(R+1) exactly when
  its score is above every reference score: a tie with a reference already fails.\<close>

lemma nullP_beats_all:
  "nullP s refs \<le> 1 / float_of_int (int (length refs) + 1) \<longleftrightarrow>
   list_all (\<lambda>r. \<not> s \<le> r) refs"
proof -
  have "1 / float_of_int (int (length refs) + 1) = Fin (real 1 / (real (length refs) + 1))"
    by simp
  then show ?thesis
    by (simp only: nullP_le_iff) (simp add: filter_empty_conv list_all_iff)
qed

lemma nullP_bounds:
  "Fin (1 / (real (length refs) + 1)) \<le> nullP s refs" and "nullP s refs \<le> Fin 1"
  by (simp_all add: nullP_Fin divide_right_mono)

lemma nullP_pos: "Fin 0 < nullP s refs"
  by (simp add: nullP_Fin)

lemma nullP_antimono:
  assumes "s \<le> s'"
  shows "nullP s' refs \<le> nullP s refs"
proof -
  have "length (filter (\<lambda>r. s' \<le> r) refs) \<le> length (filter (\<lambda>r. s \<le> r) refs)"
    using assms by (induction refs) (auto dest: float_le_trans)
  then show ?thesis by (simp add: nullP_Fin divide_right_mono)
qed

text \<open>The scores of all observations but the \<open>i\<close>-th: the reference sample when the
  \<open>i\<close>-th is the one under test.\<close>

definition others :: "'a list \<Rightarrow> nat \<Rightarrow> 'a list" where
  "others xs i = take i xs @ drop (Suc i) xs"

lemma length_others: "i < length xs \<Longrightarrow> length (others xs i) = length xs - 1"
  by (simp add: others_def)

lemma rank_others:
  assumes "i < length xs" and "xs ! i \<noteq> NaN"
  shows "card {j. j < length xs \<and> xs ! i \<le> xs ! j} =
         Suc (length (filter (\<lambda>r. xs ! i \<le> r) (others xs i)))"
proof -
  have "xs = take i xs @ xs ! i # drop (Suc i) xs"
    using assms(1) by (rule id_take_nth_drop)
  then have "length (filter (\<lambda>r. xs ! i \<le> r) xs) =
      length (filter (\<lambda>r. xs ! i \<le> r) (take i xs @ xs ! i # drop (Suc i) xs))"
    by simp
  then show ?thesis
    using assms(2) by (simp add: others_def length_filter_conv_card)
qed

text \<open>C33: the false-alarm law. Among \<open>R + 1\<close> observations of which none is NaN, at most
  \<open>k\<close> can have a null probability of \<open>k / (R + 1)\<close> or less against the other
  \<open>R\<close>, whatever the scores are: under exchangeability background passes the beat-all bar
  with probability at most \<open>1 / (R + 1)\<close>.\<close>

theorem nullP_false_alarm:
  assumes "list_all (\<lambda>x. x \<noteq> NaN) xs" and "xs \<noteq> []"
  shows "card {i. i < length xs \<and> nullP (xs ! i) (others xs i) \<le> Fin (real k / real (length xs))}
         \<le> k"
proof -
  let ?n = "length xs"
  define T where "T = {i. i < ?n \<and> card {j. j < ?n \<and> xs ! i \<le> xs ! j} \<le> k}"
  have "nullP (xs ! i) (others xs i) \<le> Fin (real k / real ?n) \<longleftrightarrow>
        card {j. j < ?n \<and> xs ! i \<le> xs ! j} \<le> k" if "i < ?n" for i
  proof -
    have "xs ! i \<noteq> NaN" using assms(1) that by (simp add: list_all_length)
    moreover have "real ?n = real (length (others xs i)) + 1"
      using that by (simp add: length_others)
    ultimately show ?thesis using that by (simp add: rank_others nullP_le_iff Suc_le_eq)
  qed
  then have T: "{i. i < ?n \<and> nullP (xs ! i) (others xs i) \<le> Fin (real k / real ?n)} = T"
    by (auto simp: T_def)
  have fin: "finite T" by (simp add: T_def)
  show ?thesis
  proof (cases "T = {}")
    case True
    then show ?thesis unfolding T by simp
  next
    case False
    have nan: "xs ! i \<noteq> NaN" if "i \<in> T" for i
      using that assms(1) by (simp add: T_def list_all_length)
    obtain m where m: "m \<in> T" "\<forall>i \<in> T. xs ! m \<le> xs ! i"
      using float_min_exists [of T "\<lambda>i. xs ! i", OF fin False] nan by auto
    then have "T \<subseteq> {j. j < ?n \<and> xs ! m \<le> xs ! j}" by (auto simp: T_def)
    then have "card T \<le> card {j. j < ?n \<and> xs ! m \<le> xs ! j}" by (intro card_mono) auto
    also have "\<dots> \<le> k" using m(1) by (simp add: T_def)
    finally show ?thesis unfolding T .
  qed
qed

theorem nullP_false_alarm_witness:
  "card {i. i < length [Fin 3, Fin 1, Fin 2] \<and>
       nullP ([Fin 3, Fin 1, Fin 2] ! i) (others [Fin 3, Fin 1, Fin 2] i)
         \<le> Fin (real 1 / real (length [Fin 3, Fin 1, Fin 2]))} \<le> 1"
  by (rule nullP_false_alarm) simp_all

section \<open>Bits and confidence\<close>

lemma log2_simps [simp]: "log 2 (1 / 2) = - 1" "log 2 (1 / 4) = - 2" "log 2 (1 / 8) = - 3"
  by (simp_all add: log_divide log_nat_power [of 2 2 2, simplified] log_nat_power [of 2 2 3, simplified])

lemma confidence_finite:
  "confidenceFromBits (Fin b) = Fin (1 - 2 powr (- b))"
  by (simp add: confidenceFromBits_def)

lemma confidence_in_unit: "0 \<le> b \<Longrightarrow> in_unit (confidenceFromBits (Fin b))"
proof -
  assume "0 \<le> b"
  then have "(2 :: real) powr (- b) \<le> 2 powr 0" by (intro powr_mono) auto
  then show ?thesis by (simp add: confidence_finite in_unit_Fin)
qed

lemma confidence_mono: "b \<le> b' \<Longrightarrow> confidenceFromBits (Fin b) \<le> confidenceFromBits (Fin b')"
  by (simp add: confidence_finite)

lemma log2_one_plus_bound:
  assumes "\<bar>d\<bar> \<le> 1 / 8"
  shows "\<bar>log 2 (1 + d)\<bar> \<le> 4 * \<bar>d\<bar>"
proof -
  have "\<bar>ln (1 + d) - d\<bar> \<le> 2 * d\<^sup>2" using assms by (intro abs_ln_one_plus_x_minus_x_bound) simp
  moreover have "d\<^sup>2 \<le> \<bar>d\<bar> * (1 / 8)"
    using mult_left_mono [OF assms abs_ge_zero [of d]] by (simp add: power2_eq_square abs_mult_self_eq)
  ultimately have num: "\<bar>ln (1 + d)\<bar> \<le> 2 * \<bar>d\<bar>" by linarith
  have den: "1 / 2 \<le> ln (2 :: real)" using ln_le_minus_one [of "1 / 2"] by (simp add: ln_div)
  have "\<bar>ln (1 + d)\<bar> / ln 2 \<le> 2 * \<bar>d\<bar> / (1 / 2)"
    using num den by (intro frac_le) simp_all
  then show ?thesis using den by (simp add: log_def)
qed

lemma bits_Fin: "0 \<le> s \<Longrightarrow> s < 1 \<Longrightarrow> bitsFromConfidence (Fin s) = Fin (- log 2 (1 - s))"
  by (auto simp: bitsFromConfidence_def)

lemma stored_bits_error:
  assumes "0 \<le> b" and "b \<le> 22" and "\<bar>s - (1 - 2 powr (- b))\<bar> \<le> 1 / 2 ^ 25" and "0 \<le> s"
  shows "\<exists>b'. bitsFromConfidence (Fin s) = Fin b' \<and> \<bar>b' - b\<bar> \<le> 2 powr (b - 23)"
proof -
  define x where "x = (2 :: real) powr (- b)"
  define d where "d = ((1 - s) - x) / x"
  have x: "0 < x" "1 / 2 ^ 22 \<le> x"
  proof -
    have "(2 :: real) powr (- 22) \<le> x" unfolding x_def using assms(2) by (intro powr_mono) simp_all
    moreover have "(2 :: real) powr (- 22) = 1 / 2 ^ 22" by (rule powr_neg_numeral) simp
    ultimately show "1 / 2 ^ 22 \<le> x" by (simp only:)
  qed (simp add: x_def)
  have "\<bar>(1 - s) - x\<bar> \<le> 1 / 2 ^ 25" using assms(3) unfolding x_def by linarith
  then have "\<bar>(1 - s) - x\<bar> / x \<le> 1 / 2 ^ 25 / x" using x(1) by (intro divide_right_mono) simp_all
  then have d: "\<bar>d\<bar> \<le> 1 / 2 ^ 25 / x" using x(1) by (simp only: d_def abs_divide abs_of_pos)
  also have "1 / 2 ^ 25 / x \<le> 1 / 2 ^ 25 / (1 / 2 ^ 22)" using x by (intro divide_left_mono) simp_all
  finally have small: "\<bar>d\<bar> \<le> 1 / 8" by simp
  have y: "1 - s = x * (1 + d)" using x(1) by (simp add: d_def field_simps)
  have "0 < 1 + d" using small by linarith
  then have "s < 1" using mult_pos_pos [OF x(1)] y by fastforce
  then have bits: "bitsFromConfidence (Fin s) = Fin (- log 2 (x * (1 + d)))" using assms(4) y by (simp add: bits_Fin)
  have "log 2 (x * (1 + d)) = - b + log 2 (1 + d)"
    using x(1) small by (subst log_mult) (auto simp: x_def)
  then have "\<bar>- log 2 (x * (1 + d)) - b\<bar> = \<bar>log 2 (1 + d)\<bar>" by simp
  also have "\<dots> \<le> 4 * \<bar>d\<bar>" by (rule log2_one_plus_bound [OF small])
  also have "\<dots> \<le> 4 * (1 / 2 ^ 25 / x)" using d by simp
  also have "\<dots> = 2 powr (b - 23)"
  proof -
    have "1 / x = 2 powr b" by (simp add: x_def powr_minus field_simps)
    moreover have "(2 :: real) powr (b - 23) = 2 powr b / 2 ^ 23" by (simp add: powr_diff)
    ultimately show ?thesis by simp
  qed
  finally show ?thesis using bits by blast
qed

lemma float32_almost_one: "float32 (Fin (1 - 2 powr (- 25))) = Fin 1"
proof -
  let ?r = "1 - 2 powr (- 25) :: real"
  have "(2 :: real) powr (- 25) = 1 / 2 ^ 25" by (rule powr_neg_numeral) simp
  then have r: "?r = 33554431 / 33554432" by simp
  have "f32_exponent ?r = - 1" unfolding r by (rule f32_exponent_eq) (simp_all add: power_int_minus)
  then have u: "f32_ulp ?r = 1 / 16777216" by (simp add: f32_ulp_def power_int_minus)
  have "round_even (?r / (1 / 16777216)) = 16777216"
  proof -
    have "\<lfloor>33554431 / 33554432 / (1 / 16777216 :: real)\<rfloor> = 16777215" by (simp add: floor_eq_iff)
    then show ?thesis unfolding r by (simp add: round_even_def Let_def)
  qed
  then have "f32_nearest ?r = 1" unfolding f32_nearest_def u by simp
  then show ?thesis unfolding r by (simp add: float32_pos f32_threshold_def)
qed

text \<open>C34: what assembly recovers of the evidence. The detector's bits are stored as a
  \<^verbatim>\<open>float32\<close> confidence; up to 22 bits they come back with an error of at most
  \<open>2^(b - 23)\<close>, which is under a hundred-thousandth of a bit for the evidence of a full
  reference sample, and from 25 bits on the stored confidence is 1 and comes back as infinite
  evidence.\<close>

theorem stored_confidence_bits:
  assumes "0 \<le> b"
  shows "(b \<le> 22 \<longrightarrow> (\<exists>b'. bitsFromConfidence (float32 (confidenceFromBits (Fin b))) = Fin b' \<and>
            \<bar>b' - b\<bar> \<le> 2 powr (b - 23))) \<and>
         (25 \<le> b \<longrightarrow> bitsFromConfidence (float32 (confidenceFromBits (Fin b))) = PInf)"
proof (intro conjI impI)
  have unit: "in_unit (Fin (1 - 2 powr (- b)))" using confidence_in_unit [OF assms] by (simp add: confidence_finite)
  then obtain s where s: "float32 (Fin (1 - 2 powr (- b))) = Fin s" "\<bar>s - (1 - 2 powr (- b))\<bar> \<le> 1 / 2 ^ 25" "0 \<le> s"
    using float32_unit_error [of "1 - 2 powr (- b)"] by (auto simp: in_unit_Fin)
  show "\<exists>b'. bitsFromConfidence (float32 (confidenceFromBits (Fin b))) = Fin b' \<and> \<bar>b' - b\<bar> \<le> 2 powr (b - 23)"
    if "b \<le> 22" using stored_bits_error [OF assms that s(2,3)] by (simp add: confidence_finite s(1))
  show "bitsFromConfidence (float32 (confidenceFromBits (Fin b))) = PInf" if "25 \<le> b"
  proof -
    have "float32 (confidenceFromBits (Fin 25)) \<le> float32 (confidenceFromBits (Fin b))"
      using that by (intro float32_mono confidence_mono)
    then have "Fin 1 \<le> float32 (confidenceFromBits (Fin b))" by (simp add: confidence_finite float32_almost_one)
    then show ?thesis by (simp add: bitsFromConfidence_def)
  qed
qed

theorem stored_confidence_bits_witness:
  "(\<exists>b'. bitsFromConfidence (float32 (confidenceFromBits (Fin 6))) = Fin b' \<and> \<bar>b' - 6\<bar> \<le> 2 powr (- 17)) \<and>
   bitsFromConfidence (float32 (confidenceFromBits (Fin 30))) = PInf"
  using stored_confidence_bits [of 6] stored_confidence_bits [of 30] by simp

lemma surprisal_nullP:
  "surprisalBits (nullP s refs) =
   Fin (log 2 (real (length refs) + 1) - log 2 (real (length (filter (\<lambda>r. s \<le> r) refs)) + 1))"
  by (simp add: surprisalBits_def nullP_Fin log_divide divide_le_0_iff not_le)

lemma stanceBits_Fin: "0 < r \<Longrightarrow> r < 1 \<Longrightarrow> stanceBits (Fin r) = Fin (- log 2 (1 - r))"
  by (simp add: stanceBits_def)

lemma stance_examples:
  "stanceBits (Fin (1 / 2)) = Fin 1" "stanceBits (Fin (3 / 4)) = Fin 2"
  "stanceBits (Fin (7 / 8)) = Fin 3"
  by (simp_all add: stanceBits_def)

text \<open>What the default stance means. A detection that beats a whole reference sample of
  \<open>R\<close> scores carries \<open>log2 (R + 1)\<close> bits, so it clears a stance of loss ratio
  \<open>r\<close> at zero price exactly when \<open>R + 1\<close> is at least \<open>1 / (1 - r)\<close>.\<close>

lemma beat_all_clears_stance:
  assumes "0 < r" and "r < 1" and "list_all (\<lambda>x. \<not> s \<le> x) refs"
  shows "stanceBits (Fin r) \<le> surprisalBits (nullP s refs) \<longleftrightarrow>
         1 / (1 - r) \<le> real (length refs) + 1"
proof -
  have "filter (\<lambda>x. s \<le> x) refs = []"
    using assms(3) by (simp add: filter_empty_conv list_all_iff)
  then have s: "surprisalBits (nullP s refs) = Fin (log 2 (real (length refs) + 1))"
    by (simp add: surprisal_nullP)
  have "- log 2 (1 - r) = log 2 (1 / (1 - r))"
    using assms by (simp add: log_divide)
  then show ?thesis
    using assms by (simp add: s stanceBits_Fin)
qed

lemma beat_all_clears_stance_example:
  "stanceBits (Fin (1 / 2)) \<le> surprisalBits (nullP (Fin 5) [Fin 1, Fin 2, Fin 3, Fin 4]) \<longleftrightarrow>
   1 / (1 - 1 / 2) \<le> real (length [Fin 1, Fin 2, Fin 3, Fin 4]) + 1"
  by (rule beat_all_clears_stance) simp_all

text \<open>The acceptance test is the expected-value inequality it was derived from.\<close>

lemma accept_expected_value:
  "accept (Fin p) (Fin r) (Fin mu) t \<longleftrightarrow> mu * real_of_int t \<le> p * (1 - r) - (1 - p) * r"
  by (simp add: accept_def algebra_simps)

lemma accept_zero_price: "accept (Fin p) (Fin r) 0 0 \<longleftrightarrow> r \<le> p"
  by (simp add: accept_def)

lemma referenceSeed_test_vectors:
  "referenceSeed [] = 0xcbf29ce484222325" "referenceSeed ''a'' = 0xaf63dc4c8601ec8c"
  by (simp_all add: referenceSeed_def fnv_offset64_def fnv_prime64_def)

end
