(* ===== verification/Edge_Dag.thy ===== *)
theory Edge_Dag
  imports Proto_Types
begin

text \<open>
  \<^verbatim>\<open>rrc/dag.go\<close>: the prerequisite graph as two adjacency maps over one edge set,
  and the scope filter of \<^verbatim>\<open>rrc/selection.go\<close> that every walk applies. Ranging over
  a Go map visits the keys in an order the runtime picks; the operations that range take
  that order as an argument \<open>ks\<close>, and their properties hold for every
  \<open>iteration_order\<close>.
\<close>

section \<open>State and operations\<close>

record dag =
  d_backward :: "(string, Edge list) fmap"
  d_forward :: "(string, Edge list) fmap"

definition newDAG :: dag where
  "newDAG = \<lparr>d_backward = fmempty, d_forward = fmempty\<rparr>"

definition AddEdge :: "dag \<Rightarrow> Edge \<Rightarrow> dag" where
  "AddEdge d edge =
     (let tid = e_ToMessageId edge; fid = e_FromMessageId edge in
      \<lparr>d_backward = fmupd tid (lookup_or [] (d_backward d) tid @ [edge]) (d_backward d),
       d_forward = fmupd fid (lookup_or [] (d_forward d) fid @ [edge]) (d_forward d)\<rparr>)"

definition Prerequisites :: "dag \<Rightarrow> string \<Rightarrow> Edge list" where
  "Prerequisites d messageID = lookup_or [] (d_backward d) messageID"

definition Dependents :: "dag \<Rightarrow> string \<Rightarrow> Edge list" where
  "Dependents d messageID = lookup_or [] (d_forward d) messageID"

definition HasMessage :: "dag \<Rightarrow> string \<Rightarrow> bool" where
  "HasMessage d messageID \<longleftrightarrow>
     fmlookup (d_backward d) messageID \<noteq> None \<or> fmlookup (d_forward d) messageID \<noteq> None"

definition iteration_order :: "('k, 'v) fmap \<Rightarrow> 'k list \<Rightarrow> bool" where
  "iteration_order m ks \<longleftrightarrow> distinct ks \<and> set ks = fset (fmdom m)"

definition AllEdges :: "string list \<Rightarrow> dag \<Rightarrow> Edge list" where
  "AllEdges ks d = concat (map (lookup_or [] (d_backward d)) ks)"

definition ThreadEdges :: "string list \<Rightarrow> dag \<Rightarrow> string \<Rightarrow> Edge list" where
  "ThreadEdges ks d threadID =
     filter (\<lambda>e. e_FromThreadId e = threadID \<and> e_ToThreadId e = threadID)
       (concat (map (lookup_or [] (d_backward d)) ks))"

definition scopeAllows :: "Edge \<Rightarrow> string \<Rightarrow> SelectionScope \<Rightarrow> bool" where
  "scopeAllows edge promptThreadID scope =
     (if scope = SELECTION_SCOPE_ALL_THREADS then True
      else e_FromThreadId edge = promptThreadID \<and> e_ToThreadId edge = promptThreadID)"

section \<open>The interface of the graph\<close>

text \<open>What the walks and the engine rely on: two views of one growing sequence of edges.\<close>

locale edge_store =
  fixes empty :: 'd and add :: "'d \<Rightarrow> Edge \<Rightarrow> 'd"
    and into :: "'d \<Rightarrow> string \<Rightarrow> Edge list" and out_of :: "'d \<Rightarrow> string \<Rightarrow> Edge list"
  assumes into_empty: "into empty v = []"
    and out_empty: "out_of empty v = []"
    and into_add: "into (add d e) v = into d v @ (if e_ToMessageId e = v then [e] else [])"
    and out_add: "out_of (add d e) v = out_of d v @ (if e_FromMessageId e = v then [e] else [])"
begin

definition load :: "'d \<Rightarrow> Edge list \<Rightarrow> 'd" where
  "load d es = foldl add d es"

lemma into_load: "into (load d es) v = into d v @ filter (\<lambda>e. e_ToMessageId e = v) es"
  unfolding load_def by (induction es arbitrary: d) (auto simp: into_add)

lemma out_load: "out_of (load d es) v = out_of d v @ filter (\<lambda>e. e_FromMessageId e = v) es"
  unfolding load_def by (induction es arbitrary: d) (auto simp: out_add)

lemma views_agree:
  "e \<in> set (into (load empty es) (e_ToMessageId e)) \<longleftrightarrow>
   e \<in> set (out_of (load empty es) (e_FromMessageId e))"
  by (auto simp: into_load out_load into_empty out_empty)

end

interpretation live: edge_store newDAG AddEdge Prerequisites Dependents
  by unfold_locales
     (auto simp: newDAG_def AddEdge_def Prerequisites_def Dependents_def Let_def)

abbreviation AddEdges_dag :: "dag \<Rightarrow> Edge list \<Rightarrow> dag" where
  "AddEdges_dag d es \<equiv> foldl AddEdge d es"

lemmas Prerequisites_load = live.into_load [unfolded live.load_def]
lemmas Dependents_load = live.out_load [unfolded live.load_def]

lemma Prerequisites_new [simp]: "Prerequisites newDAG v = []"
  by (rule live.into_empty)

section \<open>Enumeration\<close>

text \<open>Every list in the backward map sits under its own key.\<close>

definition dag_keyed :: "dag \<Rightarrow> bool" where
  "dag_keyed d \<longleftrightarrow> (\<forall>v. list_all (\<lambda>e. e_ToMessageId e = v) (Prerequisites d v))"

lemma dag_keyed_new [simp]: "dag_keyed newDAG"
  by (simp add: dag_keyed_def)

lemma dag_keyed_load: "dag_keyed d \<Longrightarrow> dag_keyed (AddEdges_dag d es)"
  by (auto simp: dag_keyed_def Prerequisites_load list_all_iff)

lemma dom_AddEdge: "fmdom (d_backward (AddEdge d e)) = finsert (e_ToMessageId e) (fmdom (d_backward d))"
  by (simp add: AddEdge_def Let_def)

lemma Prerequisites_outside: "v |\<notin>| fmdom (d_backward d) \<Longrightarrow> Prerequisites d v = []"
  by (simp add: Prerequisites_def lookup_or_def fmdom_notD)

lemma AllEdges_filter:
  assumes "distinct ks" and "dag_keyed d"
  shows "filter (\<lambda>e. e_ToMessageId e = v) (AllEdges ks d) =
         (if v \<in> set ks then Prerequisites d v else [])"
proof -
  have self: "filter (\<lambda>e. e_ToMessageId e = v) (Prerequisites d k) =
      (if k = v then Prerequisites d v else [])" for k
    using assms(2) by (auto simp: dag_keyed_def list_all_iff filter_id_conv filter_empty_conv)
  show ?thesis
    using assms(1) by (induction ks)
      (auto simp: AllEdges_def self [unfolded Prerequisites_def] Prerequisites_def)
qed

lemma AllEdges_Prerequisites:
  assumes "iteration_order (d_backward d) ks" and "dag_keyed d"
  shows "filter (\<lambda>e. e_ToMessageId e = v) (AllEdges ks d) = Prerequisites d v"
  using assms AllEdges_filter [of ks d v] Prerequisites_outside [of v d]
  by (auto simp: iteration_order_def)

text \<open>C32: the graph keeps exactly the edges it was given. After loading any list of edges
  into an empty graph, the prerequisites of a message are its incoming edges and its
  dependents its outgoing edges, both in insertion order, and enumerating the graph returns
  each loaded edge as often as it was added, whatever order the map is ranged in.\<close>

theorem dag_dual_index:
  assumes "iteration_order (d_backward (AddEdges_dag newDAG es)) ks"
  shows "Prerequisites (AddEdges_dag newDAG es) v = filter (\<lambda>e. e_ToMessageId e = v) es \<and>
         Dependents (AddEdges_dag newDAG es) v = filter (\<lambda>e. e_FromMessageId e = v) es \<and>
         mset (AllEdges ks (AddEdges_dag newDAG es)) = mset es"
proof (intro conjI)
  show "Prerequisites (AddEdges_dag newDAG es) v = filter (\<lambda>e. e_ToMessageId e = v) es"
    by (simp add: Prerequisites_load)
  show "Dependents (AddEdges_dag newDAG es) v = filter (\<lambda>e. e_FromMessageId e = v) es"
    by (simp add: Dependents_load live.out_empty)
  let ?all = "AllEdges ks (AddEdges_dag newDAG es)"
  have part: "filter (\<lambda>e. e_ToMessageId e = v) ?all = filter (\<lambda>e. e_ToMessageId e = v) es" for v
    using AllEdges_Prerequisites [OF assms dag_keyed_load [OF dag_keyed_new]]
    by (simp add: Prerequisites_load)
  show "mset ?all = mset es"
  proof (rule multiset_eqI)
    fix e :: Edge
    have "count (mset xs) e = count (mset (filter (\<lambda>x. e_ToMessageId x = e_ToMessageId e) xs)) e"
      for xs :: "Edge list" by (simp add: mset_filter)
    then show "count (mset ?all) e = count (mset es) e" by (metis part)
  qed
qed

definition example_edge :: "string \<Rightarrow> string \<Rightarrow> Edge" where
  "example_edge a b =
     \<lparr>e_FromMessageId = a, e_ToMessageId = b, e_Score = Fin (3 / 4),
      e_Source = EDGE_SOURCE_CROSS_ENCODER, e_CrossEncoderScore = Fin (3 / 4), e_DetectedAt = 0,
      e_FromThreadId = ''t'', e_ToThreadId = ''t'', e_ScorerModel = ''''\<rparr>"

theorem dag_dual_index_witness:
  "Prerequisites (AddEdges_dag newDAG [example_edge ''a'' ''c'', example_edge ''b'' ''c'']) ''c'' =
     filter (\<lambda>e. e_ToMessageId e = ''c'') [example_edge ''a'' ''c'', example_edge ''b'' ''c''] \<and>
   Dependents (AddEdges_dag newDAG [example_edge ''a'' ''c'', example_edge ''b'' ''c'']) ''c'' =
     filter (\<lambda>e. e_FromMessageId e = ''c'') [example_edge ''a'' ''c'', example_edge ''b'' ''c''] \<and>
   mset (AllEdges [''c''] (AddEdges_dag newDAG [example_edge ''a'' ''c'', example_edge ''b'' ''c''])) =
     mset [example_edge ''a'' ''c'', example_edge ''b'' ''c'']"
  by (rule dag_dual_index)
     (simp add: iteration_order_def newDAG_def AddEdge_def example_edge_def Let_def)

text \<open>Reloading an enumeration gives back the same prerequisites, in the same order.\<close>

lemma reload_Prerequisites:
  assumes "iteration_order (d_backward d) ks" and "dag_keyed d"
  shows "Prerequisites (AddEdges_dag newDAG (AllEdges ks d)) v = Prerequisites d v"
  using AllEdges_Prerequisites [OF assms] by (simp add: Prerequisites_load)

lemma scopeAllows_thread:
  "scopeAllows e t SELECTION_SCOPE_THREAD \<longleftrightarrow> e_FromThreadId e = t \<and> e_ToThreadId e = t"
  by (simp add: scopeAllows_def)

section \<open>The nodes of a graph\<close>

definition dag_sources :: "dag \<Rightarrow> string set" where
  "dag_sources d = e_FromMessageId ` (\<Union>es \<in> fset (fmran (d_backward d)). set es)"

lemma finite_dag_sources [simp]: "finite (dag_sources d)"
  by (simp add: dag_sources_def)

lemma Prerequisites_source: "e \<in> set (Prerequisites d v) \<Longrightarrow> e_FromMessageId e \<in> dag_sources d"
  unfolding dag_sources_def Prerequisites_def lookup_or_def
  by (auto split: option.splits intro!: imageI bexI fmranI)

end
