(* ===== verification/Go_Heap.thy ===== *)
theory Go_Heap
  imports Float64
begin

text \<open>
  \<^verbatim>\<open>container/heap\<close> on slices: the sift loops \<open>up\<close> and \<open>down\<close> with the index
  arithmetic of the Go library, and \<open>Push\<close> and \<open>Pop\<close> on top of them. The two best-first
  walks of the engine (\<^verbatim>\<open>selection.go\<close>, \<^verbatim>\<open>provenance.go\<close>) own such heaps.
  The interface they rely on is the locale \<open>best_first_queue\<close>; the heap functions
  implement it for every comparison that is a strict weak order on the elements in use.
\<close>

section \<open>Definitions\<close>

definition swap :: "'a list \<Rightarrow> nat \<Rightarrow> nat \<Rightarrow> 'a list" where
  "swap xs i j = xs[i := xs ! j, j := xs ! i]"

definition parent :: "nat \<Rightarrow> nat" where
  "parent j = (j - 1) div 2"

lemma parent_less [simp, intro]: "0 < k \<Longrightarrow> parent k < k"
  by (auto simp: parent_def)

lemma parent_le [simp]: "parent k \<le> k"
  by (auto simp: parent_def)

lemma parent_fix: "parent k = k \<longleftrightarrow> k = 0"
  by (auto simp: parent_def)

lemma parent_children: "0 < k \<Longrightarrow> parent k = i \<longleftrightarrow> k = 2 * i + 1 \<or> k = 2 * i + 2"
  by (auto simp: parent_def)

function heap_up :: "('a \<Rightarrow> 'a \<Rightarrow> bool) \<Rightarrow> 'a list \<Rightarrow> nat \<Rightarrow> 'a list" where
  "heap_up lt xs j =
     (let i = parent j in
      if i = j \<or> \<not> lt (xs ! j) (xs ! i) then xs else heap_up lt (swap xs i j) i)"
  by pat_completeness auto
termination
  by (relation "measure (\<lambda>(lt, xs, j). j)") (auto simp: parent_fix)

function heap_down :: "('a \<Rightarrow> 'a \<Rightarrow> bool) \<Rightarrow> 'a list \<Rightarrow> nat \<Rightarrow> nat \<Rightarrow> 'a list" where
  "heap_down lt xs i n =
     (let j1 = 2 * i + 1 in
      if n \<le> j1 then xs
      else let j = (if j1 + 1 < n \<and> lt (xs ! (j1 + 1)) (xs ! j1) then j1 + 1 else j1) in
        if \<not> lt (xs ! j) (xs ! i) then xs else heap_down lt (swap xs i j) j n)"
  by pat_completeness auto
termination
  by (relation "measure (\<lambda>(lt, xs, i, n). n - i)") (auto split: if_splits)

declare heap_up.simps [simp del] heap_down.simps [simp del]

definition heap_push :: "('a \<Rightarrow> 'a \<Rightarrow> bool) \<Rightarrow> 'a \<Rightarrow> 'a list \<Rightarrow> 'a list" where
  "heap_push lt x xs = heap_up lt (xs @ [x]) (length xs)"

text \<open>Popping an empty heap panics in Go; here it is \<open>None\<close>, and the walks test the
  length first.\<close>

definition heap_pop :: "('a \<Rightarrow> 'a \<Rightarrow> bool) \<Rightarrow> 'a list \<Rightarrow> ('a \<times> 'a list) option" where
  "heap_pop lt xs =
     (if xs = [] then None
      else let n = length xs - 1; ys = heap_down lt (swap xs 0 n) 0 n
           in Some (last ys, butlast ys))"

section \<open>Permutation\<close>

lemma length_swap [simp]: "length (swap xs i j) = length xs"
  by (simp add: swap_def)

lemma nth_swap:
  "i < length xs \<Longrightarrow> j < length xs \<Longrightarrow>
   swap xs i j ! k = (if k = j then xs ! i else if k = i then xs ! j else xs ! k)"
  by (cases "k = j"; cases "k = i") (simp_all add: swap_def)

lemma mset_swap [simp]: "i < length xs \<Longrightarrow> j < length xs \<Longrightarrow> mset (swap xs i j) = mset xs"
  unfolding swap_def by (rule mset_swap)

lemma mset_heap_up: "j < length xs \<Longrightarrow> mset (heap_up lt xs j) = mset xs"
proof (induction lt xs j rule: heap_up.induct)
  case (1 lt xs j)
  then show ?case
    using parent_le [of j] by (subst heap_up.simps) (auto simp: Let_def simp del: parent_le)
qed

lemma mset_heap_down: "i < n \<Longrightarrow> n \<le> length xs \<Longrightarrow> mset (heap_down lt xs i n) = mset xs"
proof (induction lt xs i n rule: heap_down.induct)
  case (1 lt xs i n)
  then show ?case
    by (subst heap_down.simps) (auto simp: Let_def)
qed

lemma length_heap_down [simp]: "length (heap_down lt xs i n) = length xs"
proof (induction lt xs i n rule: heap_down.induct)
  case (1 lt xs i n)
  then show ?case
    by (subst heap_down.simps) (auto simp: Let_def)
qed

lemma heap_down_above:
  "i < n \<Longrightarrow> n \<le> k \<Longrightarrow> k < length xs \<Longrightarrow> heap_down lt xs i n ! k = xs ! k"
proof (induction lt xs i n rule: heap_down.induct)
  case (1 lt xs i n)
  then show ?case
    by (subst heap_down.simps) (auto simp: Let_def nth_swap)
qed

lemma mset_heap_push: "mset (heap_push lt x xs) = add_mset x (mset xs)"
  by (simp add: heap_push_def mset_heap_up)

lemma heap_pop_shape:
  assumes "heap_pop lt xs = Some (x, ys)"
  shows "xs \<noteq> []" and "x = xs ! 0"
    and "ys = butlast (heap_down lt (swap xs 0 (length xs - 1)) 0 (length xs - 1))"
    and "mset xs = add_mset x (mset ys)"
proof -
  let ?n = "length xs - 1" and ?zs = "heap_down lt (swap xs 0 (length xs - 1)) 0 (length xs - 1)"
  from assms show ne: "xs \<noteq> []" and ys: "ys = butlast ?zs"
    by (auto simp: heap_pop_def Let_def split: if_splits)
  have x: "x = last ?zs"
    using assms by (auto simp: heap_pop_def Let_def split: if_splits)
  have zs: "?zs \<noteq> []" using ne by (metis length_0_conv length_heap_down length_swap)
  have "?zs ! ?n = swap xs 0 ?n ! ?n"
  proof (cases "?n = 0")
    case True
    then show ?thesis by (simp add: heap_down.simps)
  next
    case False
    then show ?thesis using ne by (intro heap_down_above) auto
  qed
  then show "x = xs ! 0"
    using ne zs x by (simp add: last_conv_nth nth_swap)
  have "mset ?zs = mset xs"
  proof (cases "?n = 0")
    case True
    then show ?thesis using ne by (simp add: heap_down.simps)
  next
    case False
    then show ?thesis using ne by (subst mset_heap_down) auto
  qed
  then show "mset xs = add_mset x (mset ys)"
    using zs unfolding x ys by (metis append_butlast_last_id mset.simps(2) mset_append
        mset_single_iff_right union_mset_add_mset_right add.right_neutral mset.simps(1))
qed

lemma heap_pop_None: "heap_pop lt xs = None \<longleftrightarrow> xs = []"
  by (simp add: heap_pop_def Let_def)

section \<open>The heap order\<close>

definition is_heap :: "('a \<Rightarrow> 'a \<Rightarrow> bool) \<Rightarrow> nat \<Rightarrow> 'a list \<Rightarrow> bool" where
  "is_heap lt n xs \<longleftrightarrow> (\<forall>k. 0 < k \<and> k < n \<longrightarrow> \<not> lt (xs ! k) (xs ! parent k))"

definition up_inv :: "('a \<Rightarrow> 'a \<Rightarrow> bool) \<Rightarrow> 'a list \<Rightarrow> nat \<Rightarrow> bool" where
  "up_inv lt xs j \<longleftrightarrow>
     (\<forall>k. 0 < k \<and> k < length xs \<and> k \<noteq> j \<longrightarrow> \<not> lt (xs ! k) (xs ! parent k)) \<and>
     (\<forall>k. 0 < k \<and> k < length xs \<and> parent k = j \<and> 0 < j \<longrightarrow> \<not> lt (xs ! k) (xs ! parent j))"

definition down_inv :: "('a \<Rightarrow> 'a \<Rightarrow> bool) \<Rightarrow> 'a list \<Rightarrow> nat \<Rightarrow> nat \<Rightarrow> bool" where
  "down_inv lt xs i n \<longleftrightarrow>
     (\<forall>k. 0 < k \<and> k < n \<and> parent k \<noteq> i \<longrightarrow> \<not> lt (xs ! k) (xs ! parent k)) \<and>
     (\<forall>k. 0 < k \<and> k < n \<and> parent k = i \<and> 0 < i \<longrightarrow> \<not> lt (xs ! k) (xs ! parent i))"

context weak_order
begin

lemma up_inv_step:
  assumes inv: "up_inv lt xs j" and j: "j < length xs" "0 < j" and lt: "lt (xs ! j) (xs ! parent j)"
    and ok: "\<forall>x \<in> set xs. ok x"
  shows "up_inv lt (swap xs (parent j) j) (parent j)"
proof -
  let ?i = "parent j" and ?ys = "swap xs (parent j) j"
  have i: "?i < j" using j by simp
  have okn: "ok (xs ! k)" if "k < length xs" for k using ok that by simp
  have ys: "?ys ! k = (if k = j then xs ! ?i else if k = ?i then xs ! j else xs ! k)" for k
    using j less_trans [OF i j(1)] by (intro nth_swap) simp_all
  note a = inv [unfolded up_inv_def, THEN conjunct1, rule_format]
  note b = inv [unfolded up_inv_def, THEN conjunct2, rule_format]
  have ij: "\<not> lt (xs ! ?i) (xs ! j)"
    by (rule asym [OF okn [OF j(1)] okn [OF less_trans [OF i j(1)]] lt])
  have "\<not> lt (?ys ! k) (?ys ! parent k)" if k: "0 < k" "k < length xs" "k \<noteq> ?i" for k
  proof -
    have pk: "parent k < k" using k by simp
    consider "k = j" | "k \<noteq> j" "parent k = j" | "k \<noteq> j" "parent k = ?i" "parent k \<noteq> j"
      | "k \<noteq> j" "parent k \<noteq> j" "parent k \<noteq> ?i" by blast
    then show ?thesis
    proof cases
      case 1
      then show ?thesis using ij i by (simp add: ys)
    next
      case 2
      then show ?thesis using b [of k] k j by (simp add: ys)
    next
      case 3
      have "\<not> lt (xs ! k) (xs ! ?i)" using a [of k] k 3 by auto
      then have "\<not> lt (xs ! k) (xs ! j)"
        using neg_trans [of "xs ! k" "xs ! ?i" "xs ! j"] ij okn k i j by auto
      then show ?thesis using 3 k by (simp add: ys)
    next
      case 4
      then show ?thesis using a [of k] k by (simp add: ys)
    qed
  qed
  moreover have "\<not> lt (?ys ! k) (?ys ! parent ?i)"
    if k: "0 < k" "k < length xs" "parent k = ?i" "0 < ?i" for k
  proof -
    have pi: "parent ?i < ?i" using k by simp
    have top: "\<not> lt (xs ! ?i) (xs ! parent ?i)" using a [of ?i] k i j by auto
    have "k \<noteq> ?i" using k parent_less [of k] by auto
    show ?thesis
    proof (cases "k = j")
      case True
      then show ?thesis using top pi i by (simp add: ys)
    next
      case False
      have "\<not> lt (xs ! k) (xs ! ?i)" using a [of k] k False by auto
      then have "\<not> lt (xs ! k) (xs ! parent ?i)"
        using neg_trans [of "xs ! k" "xs ! ?i" "xs ! parent ?i"] top okn k i j pi by auto
      then show ?thesis using False pi i \<open>k \<noteq> ?i\<close> by (simp add: ys)
    qed
  qed
  ultimately show ?thesis unfolding up_inv_def by simp
qed

lemma is_heap_up:
  assumes "up_inv lt xs j" and "j < length xs" and "\<forall>x \<in> set xs. ok x"
  shows "is_heap lt (length xs) (heap_up lt xs j)"
  using assms
proof (induction j arbitrary: xs rule: less_induct)
  case (less j)
  show ?case
  proof (cases "parent j = j \<or> \<not> lt (xs ! j) (xs ! parent j)")
    case True
    then have "heap_up lt xs j = xs" by (subst heap_up.simps) (simp add: Let_def)
    moreover have "\<not> lt (xs ! k) (xs ! parent k)" if "0 < k" "k < length xs" for k
      using less.prems(1) True that by (cases "k = j") (auto simp: up_inv_def)
    ultimately show ?thesis by (simp add: is_heap_def)
  next
    case False
    let ?ys = "swap xs (parent j) j"
    have j: "0 < j" using False by (auto simp: parent_fix)
    then have i: "parent j < j" by simp
    have set: "set ?ys = set xs"
      using less.prems(2) i by (intro mset_eq_set) simp
    have "is_heap lt (length ?ys) (heap_up lt ?ys (parent j))"
    proof (rule less.IH)
      show "up_inv lt ?ys (parent j)" using up_inv_step less.prems False j by blast
    qed (use i less.prems set in auto)
    moreover have "heap_up lt xs j = heap_up lt ?ys (parent j)"
      using False by (subst heap_up.simps) (simp add: Let_def)
    ultimately show ?thesis by simp
  qed
qed

lemma down_inv_step:
  assumes inv: "down_inv lt xs i n" and n: "n \<le> length xs" "j < n"
    and j: "parent j = i" "0 < j" and lt: "lt (xs ! j) (xs ! i)"
    and best: "\<And>k. 0 < k \<Longrightarrow> k < n \<Longrightarrow> parent k = i \<Longrightarrow> \<not> lt (xs ! k) (xs ! j)"
    and ok: "\<forall>x \<in> set xs. ok x"
  shows "down_inv lt (swap xs i j) j n"
proof -
  let ?ys = "swap xs i j"
  have i: "i < j" using j parent_less by blast
  have okn: "ok (xs ! k)" if "k < n" for k using ok that n by simp
  have ys: "?ys ! k = (if k = j then xs ! i else if k = i then xs ! j else xs ! k)" for k
    using i n by (intro nth_swap) simp_all
  note a = inv [unfolded down_inv_def, THEN conjunct1, rule_format]
  note b = inv [unfolded down_inv_def, THEN conjunct2, rule_format]
  have ij: "\<not> lt (xs ! i) (xs ! j)"
    by (rule asym [OF okn [OF n(2)] okn [OF less_trans [OF i n(2)]] lt])
  have "\<not> lt (?ys ! k) (?ys ! parent k)" if k: "0 < k" "k < n" "parent k \<noteq> j" for k
  proof -
    have pk: "parent k < k" using k by simp
    consider "k = j" | "k = i" | "k \<noteq> j" "parent k = i" | "k \<noteq> j" "k \<noteq> i" "parent k \<noteq> i" by blast
    then show ?thesis
    proof cases
      case 1
      then show ?thesis using ij i j by (simp add: ys)
    next
      case 2
      then show ?thesis using b [of j] k j n i pk by (simp add: ys)
    next
      case 3
      then show ?thesis using best [of k] k pk i by (simp add: ys)
    next
      case 4
      then show ?thesis using a [of k] k by (simp add: ys)
    qed
  qed
  moreover have "\<not> lt (?ys ! k) (?ys ! parent j)" if k: "0 < k" "k < n" "parent k = j" for k
  proof -
    have "j < k" using k parent_less by blast
    then show ?thesis using a [of k] k i j by (simp add: ys)
  qed
  ultimately show ?thesis unfolding down_inv_def by simp
qed

lemma is_heap_down:
  assumes "down_inv lt xs i n" and "n \<le> length xs" and "\<forall>x \<in> set xs. ok x"
  shows "is_heap lt n (heap_down lt xs i n)"
  using assms
proof (induction "n - i" arbitrary: xs i rule: less_induct)
  case less
  let ?j1 = "2 * i + 1"
  define j where "j = (if ?j1 + 1 < n \<and> lt (xs ! (?j1 + 1)) (xs ! ?j1) then ?j1 + 1 else ?j1)"
  have j: "0 < j" "parent j = i" "i < j" by (auto simp: j_def parent_def)
  have eq: "heap_down lt xs i n =
      (if n \<le> ?j1 \<or> \<not> lt (xs ! j) (xs ! i) then xs else heap_down lt (swap xs i j) j n)"
    by (subst heap_down.simps) (simp add: Let_def j_def)
  have okn: "ok (xs ! k)" if "k < n" for k using less.prems that by simp
  show ?case
  proof (cases "n \<le> ?j1")
    case True
    have "\<not> lt (xs ! k) (xs ! parent k)" if "0 < k" "k < n" for k
      using less.prems(1) that True parent_children [of k i] by (auto simp: down_inv_def)
    with True show ?thesis by (simp add: eq is_heap_def)
  next
    case False
    have jn: "j < n" using False by (auto simp: j_def)
    have best: "\<not> lt (xs ! k) (xs ! j)" if "0 < k" "k < n" "parent k = i" for k
    proof (cases "k = j")
      case True
      then show ?thesis using irrefl okn jn by simp
    next
      case kj: False
      have k: "k = ?j1 \<or> k = ?j1 + 1" using that parent_children [of k i] by simp
      show ?thesis
      proof (cases "k = ?j1")
        case True
        with kj have "j = ?j1 + 1" "lt (xs ! (?j1 + 1)) (xs ! ?j1)"
          by (auto simp: j_def split: if_splits)
        with True asym okn jn that show ?thesis by blast
      next
        case False
        with k kj have "k = ?j1 + 1" "j = ?j1" by (auto simp: j_def split: if_splits)
        with kj that show ?thesis by (simp add: j_def split: if_splits)
      qed
    qed
    show ?thesis
    proof (cases "lt (xs ! j) (xs ! i)")
      case True
      have set: "set (swap xs i j) = set xs"
        using jn j less.prems(2) by (intro mset_eq_set) simp
      have "is_heap lt n (heap_down lt (swap xs i j) j n)"
      proof (rule less.hyps)
        show "down_inv lt (swap xs i j) j n"
          using down_inv_step [OF less.prems(1,2) jn j(2,1) True] best less.prems(3) by blast
      qed (use jn j less.prems set in auto)
      with True False show ?thesis by (simp add: eq)
    next
      case stop: False
      have "\<not> lt (xs ! k) (xs ! parent k)" if k: "0 < k" "k < n" for k
      proof (cases "parent k = i")
        case True
        have "\<not> lt (xs ! k) (xs ! j)" by (rule best) (use k True in auto)
        with stop show ?thesis
          using neg_trans [of "xs ! k" "xs ! j" "xs ! i"] okn k jn j True by auto
      next
        case False
        then show ?thesis using less.prems(1) k by (simp add: down_inv_def)
      qed
      with stop show ?thesis by (simp add: eq is_heap_def)
    qed
  qed
qed

lemma heap_top:
  assumes "is_heap lt n xs" and "n \<le> length xs" and "\<forall>x \<in> set xs. ok x" and "k < n"
  shows "\<not> lt (xs ! k) (xs ! 0)"
  using assms(4)
proof (induction k rule: less_induct)
  case (less k)
  have okn: "ok (xs ! m)" if "m < n" for m using assms that by simp
  show ?case
  proof (cases "k = 0")
    case True
    then show ?thesis using irrefl okn less.prems by simp
  next
    case False
    then have p: "parent k < k" by simp
    then have "\<not> lt (xs ! parent k) (xs ! 0)" using less by simp
    moreover have "\<not> lt (xs ! k) (xs ! parent k)" using assms(1) False less.prems by (simp add: is_heap_def)
    ultimately show ?thesis
      using neg_trans [of "xs ! k" "xs ! parent k" "xs ! 0"] okn less.prems p by simp
  qed
qed

definition heap_inv :: "'a list \<Rightarrow> bool" where
  "heap_inv xs \<longleftrightarrow> is_heap lt (length xs) xs \<and> (\<forall>x \<in> set xs. ok x)"

lemma heap_inv_push:
  assumes "heap_inv xs" and "ok x"
  shows "heap_inv (heap_push lt x xs)"
proof -
  have "up_inv lt (xs @ [x]) (length xs)"
    using assms(1) by (auto simp: up_inv_def heap_inv_def is_heap_def nth_append parent_children
        less_trans [OF parent_less])
  then have "is_heap lt (length (xs @ [x])) (heap_push lt x xs)"
    unfolding heap_push_def using assms by (intro is_heap_up) (auto simp: heap_inv_def)
  moreover have "mset (heap_push lt x xs) = mset (xs @ [x])" by (simp add: mset_heap_push)
  then have "length (heap_push lt x xs) = length (xs @ [x])" "set (heap_push lt x xs) = set (xs @ [x])"
    by (metis size_mset) (metis \<open>mset (heap_push lt x xs) = mset (xs @ [x])\<close> mset_eq_set)
  ultimately show ?thesis using assms by (auto simp: heap_inv_def)
qed

lemma heap_inv_pop:
  assumes "heap_inv xs" and "heap_pop lt xs = Some (x, ys)"
  shows "heap_inv ys" and "y \<in> set ys \<Longrightarrow> \<not> lt y x"
proof -
  let ?n = "length xs - 1" and ?zs = "swap xs 0 (length xs - 1)"
  note shape = heap_pop_shape [OF assms(2)]
  have ne: "0 < length xs" using shape(1) by simp
  have set: "set ?zs = set xs" using ne by (intro mset_eq_set) simp
  have ok: "\<forall>x \<in> set xs. ok x" and hp: "is_heap lt (length xs) xs"
    using assms(1) by (auto simp: heap_inv_def)
  have zs: "?zs ! k = xs ! k" if "0 < k" "k < ?n" for k
    using that ne by (simp add: nth_swap)
  have "\<not> lt (?zs ! k) (?zs ! parent k)" if "0 < k" "k < ?n" "parent k \<noteq> 0" for k
  proof -
    have "parent k < ?n" using that less_trans [OF parent_less] by blast
    then have "?zs ! k = xs ! k" "?zs ! parent k = xs ! parent k"
      by (intro zs; use that in simp)+
    then show ?thesis using that hp by (simp add: is_heap_def)
  qed
  then have "down_inv lt ?zs 0 ?n" by (simp add: down_inv_def)
  then have hd: "is_heap lt ?n (heap_down lt ?zs 0 ?n)"
    by (rule is_heap_down) (use set ok in auto)
  have sub: "set ys \<subseteq> set xs" using mset_eq_set [of xs "x # ys"] shape(4) by auto
  have len: "length ys = ?n" by (simp add: shape(3))
  have "ys ! k = heap_down lt ?zs 0 ?n ! k" if "k < ?n" for k
    using that by (simp add: shape(3) nth_butlast)
  then have "is_heap lt (length ys) ys"
    using hd unfolding is_heap_def len by (metis less_trans parent_less)
  with sub ok show "heap_inv ys" by (auto simp: heap_inv_def)
  show "\<not> lt y x" if "y \<in> set ys"
  proof -
    from that sub obtain k where "k < length xs" "y = xs ! k" by (metis in_set_conv_nth subsetD)
    then show ?thesis using heap_top [OF hp _ ok] shape(2) by simp
  qed
qed

end

lemma pop_set: "heap_pop lt pq = Some (it, pq') \<Longrightarrow> set pq = insert it (set pq')"
  using heap_pop_shape(4) mset_eq_set [of pq "it # pq'"] by fastforce

lemma pop_length: "heap_pop lt pq = Some (it, pq') \<Longrightarrow> length pq = Suc (length pq')"
  by (metis heap_pop_shape(4) size_add_mset size_mset)

lemma set_heap_push: "set (heap_push lt x pq) = insert x (set pq)"
  using mset_heap_push [of lt x pq] mset_eq_set [of "heap_push lt x pq" "x # pq"] by simp

section \<open>The interface the walks rely on\<close>

locale best_first_queue =
  fixes before :: "'a \<Rightarrow> 'a \<Rightarrow> bool" and ok :: "'a \<Rightarrow> bool"
    and inv :: "'q \<Rightarrow> bool" and elems :: "'q \<Rightarrow> 'a multiset"
    and push :: "'a \<Rightarrow> 'q \<Rightarrow> 'q" and pop :: "'q \<Rightarrow> ('a \<times> 'q) option"
  assumes elems_push: "elems (push x q) = add_mset x (elems q)"
    and inv_push: "inv q \<Longrightarrow> ok x \<Longrightarrow> inv (push x q)"
    and pop_None: "pop q = None \<longleftrightarrow> elems q = {#}"
    and elems_pop: "pop q = Some (x, q') \<Longrightarrow> elems q = add_mset x (elems q')"
    and inv_pop: "inv q \<Longrightarrow> pop q = Some (x, q') \<Longrightarrow> inv q'"
    and pop_best: "inv q \<Longrightarrow> pop q = Some (x, q') \<Longrightarrow> y \<in># elems q' \<Longrightarrow> \<not> before y x"
begin

lemma pop_size: "pop q = Some (x, q') \<Longrightarrow> size (elems q') < size (elems q)"
  by (simp add: elems_pop)

text \<open>Pushing a batch: what the walks do with the prerequisites of a settled node.\<close>

lemma elems_push_all: "elems (foldl (\<lambda>q x. push x q) q xs) = elems q + mset xs"
  by (induction xs arbitrary: q) (auto simp: elems_push)

lemma inv_push_all: "inv q \<Longrightarrow> \<forall>x \<in> set xs. ok x \<Longrightarrow> inv (foldl (\<lambda>q x. push x q) q xs)"
  by (induction xs arbitrary: q) (auto simp: inv_push)

end

lemma heap_best_first_queue:
  assumes "weak_order lt ok"
  shows "best_first_queue lt ok (weak_order.heap_inv lt ok) mset (heap_push lt) (heap_pop lt)"
  by unfold_locales
    (auto simp: mset_heap_push heap_pop_None heap_pop_shape weak_order.heap_inv_push [OF assms]
      weak_order.heap_inv_pop [OF assms])

end
