(* ===== verification/Engine_Config.thy ===== *)
theory Engine_Config
  imports Chunking
begin

text \<open>\<^verbatim>\<open>rrc/config.go\<close>: the engine's tunables and their defaults, and
  \<^verbatim>\<open>rrc/errors.go\<close>. \<open>ErrOther\<close> is an error made with \<^verbatim>\<open>fmt.Errorf\<close>;
  a run-time panic is the value \<open>Panic\<close>.\<close>

record EngineConfig =
  cfg_ScorerModelID :: string
  cfg_LossRatio :: float64
  cfg_MinBatchStdDev :: float64
  cfg_RerankTopK :: int
  cfg_LocalContextSize :: int
  cfg_Chunk :: Config
  cfg_ContextBudgetTokens :: int
  cfg_BudgetHeadroomPct :: float64
  cfg_PerMsgDelimiterTokens :: int

definition DefaultConfig :: EngineConfig where
  "DefaultConfig =
     \<lparr>cfg_ScorerModelID = '''', cfg_LossRatio = Fin (1 / 2), cfg_MinBatchStdDev = Fin (5 / 100),
      cfg_RerankTopK = 64, cfg_LocalContextSize = 10, cfg_Chunk = chunk_DefaultConfig,
      cfg_ContextBudgetTokens = 150000, cfg_BudgetHeadroomPct = Fin (9 / 10),
      cfg_PerMsgDelimiterTokens = 5\<rparr>"

datatype rrc_error =
    ErrScorerFailed string
  | ErrScorerUnavailable
  | ErrMessageNotFound
  | ErrThreadNotFound
  | ErrOther string
  | Panic string

end
