(* ===== verification/Selection.thy ===== *)
theory Selection
  imports Detection Edge_Dag Go_Heap Engine_Config
begin

text \<open>
  \<^verbatim>\<open>rrc/selection.go\<close>: the best-first backward walk from the anchor through the
  cross-encoder edges of the graph, and the reduction of the recorded paths. The priority
  queue is \<^verbatim>\<open>container/heap\<close> over the walk's own \<open>Less\<close>; the \<^verbatim>\<open>index\<close>
  field of \<^verbatim>\<open>pqItem\<close> is written by the heap methods and never read, so it is left
  out. The walk ends because every settled node is new and the graph is finite.
\<close>

section \<open>Entries, scores and the queue\<close>

record selectionEntry =
  se_MessageID :: string
  se_EffectiveScore :: float64
  se_HopDepth :: int
  se_ViaEdges :: "Edge list"
  se_ThreadID :: string
  se_CrossThread :: bool
  se_ProvenanceWeight :: float64

record pqItem =
  pq_entry :: selectionEntry
  pq_priority :: float64

definition pq_Less :: "pqItem \<Rightarrow> pqItem \<Rightarrow> bool" where
  "pq_Less a b \<longleftrightarrow> pq_priority b < pq_priority a"

definition seedEdgeScore :: "Edge \<Rightarrow> float64" where
  "seedEdgeScore edge = e_Score edge"

definition relationalEdgeScore :: "Edge \<Rightarrow> float64 list \<Rightarrow> float64" where
  "relationalEdgeScore edge refFloor =
     (let raw = e_CrossEncoderScore edge in
      if minReferenceSample \<le> length refFloor then
        let p = nullP raw refFloor in
        if 1 / float_of_int (int (length refFloor) + 1) < p then 0
        else confidenceFromBits (surprisalBits p)
      else raw)"

definition seed_item :: "Edge \<Rightarrow> string \<Rightarrow> pqItem" where
  "seed_item edge promptThreadID =
     \<lparr>pq_entry =
        \<lparr>se_MessageID = e_FromMessageId edge, se_EffectiveScore = seedEdgeScore edge,
         se_HopDepth = 1, se_ViaEdges = [edge], se_ThreadID = e_FromThreadId edge,
         se_CrossThread = (e_FromThreadId edge \<noteq> promptThreadID),
         se_ProvenanceWeight = e_CrossEncoderScore edge\<rparr>,
      pq_priority = seedEdgeScore edge\<rparr>"

definition hop_item :: "selectionEntry \<Rightarrow> Edge \<Rightarrow> string \<Rightarrow> float64 list \<Rightarrow> pqItem" where
  "hop_item entry edge promptThreadID refFloor =
     (let effectiveScore = relationalEdgeScore edge refFloor * se_EffectiveScore entry in
      \<lparr>pq_entry =
         \<lparr>se_MessageID = e_FromMessageId edge, se_EffectiveScore = effectiveScore,
          se_HopDepth = se_HopDepth entry + 1, se_ViaEdges = se_ViaEdges entry @ [edge],
          se_ThreadID = e_FromThreadId edge,
          se_CrossThread = (e_FromThreadId edge \<noteq> promptThreadID),
          se_ProvenanceWeight = se_ProvenanceWeight entry * e_CrossEncoderScore edge\<rparr>,
       pq_priority = effectiveScore\<rparr>)"

text \<open>Which edges the walk follows: the guards of the two loops, in their order.\<close>

definition seed_admits :: "string \<Rightarrow> SelectionScope \<Rightarrow> EngineConfig \<Rightarrow> Edge \<Rightarrow> bool" where
  "seed_admits promptThreadID scope cfg edge \<longleftrightarrow>
     e_Source edge \<noteq> EDGE_SOURCE_PROVENANCE \<and> scopeAllows edge promptThreadID scope \<and>
     accept (seedEdgeScore edge) (cfg_LossRatio cfg) 0 0"

definition hop_admits ::
  "string \<Rightarrow> SelectionScope \<Rightarrow> EngineConfig \<Rightarrow> float64 list \<Rightarrow> Edge \<Rightarrow> bool" where
  "hop_admits promptThreadID scope cfg refFloor edge \<longleftrightarrow>
     e_Source edge \<noteq> EDGE_SOURCE_PROVENANCE \<and> scopeAllows edge promptThreadID scope \<and>
     accept (relationalEdgeScore edge refFloor) (cfg_LossRatio cfg) 0 0"

definition seed_queue ::
  "dag \<Rightarrow> string \<Rightarrow> string \<Rightarrow> SelectionScope \<Rightarrow> EngineConfig \<Rightarrow> pqItem list" where
  "seed_queue d promptID promptThreadID scope cfg =
     foldl (\<lambda>pq edge. if seed_admits promptThreadID scope cfg edge
                      then heap_push pq_Less (seed_item edge promptThreadID) pq else pq)
       [] (Prerequisites d promptID)"

definition expand ::
  "dag \<Rightarrow> string \<Rightarrow> SelectionScope \<Rightarrow> EngineConfig \<Rightarrow> float64 list \<Rightarrow> string set \<Rightarrow>
   selectionEntry \<Rightarrow> pqItem list \<Rightarrow> pqItem list" where
  "expand d promptThreadID scope cfg refFloor visited entry pq0 =
     foldl (\<lambda>pq edge. if e_FromMessageId edge \<notin> visited \<and>
                         hop_admits promptThreadID scope cfg refFloor edge
                      then heap_push pq_Less (hop_item entry edge promptThreadID refFloor) pq else pq)
       pq0 (Prerequisites d (se_MessageID entry))"

abbreviation item_id :: "pqItem \<Rightarrow> string" where
  "item_id it \<equiv> se_MessageID (pq_entry it)"

section \<open>Facts on the queue\<close>

lemma foldl_push_filter:
  "foldl (\<lambda>pq e. if P e then heap_push lt (f e) pq else pq) pq0 es =
   foldl (\<lambda>pq x. heap_push lt x pq) pq0 (map f (filter P es))"
  by (induction es arbitrary: pq0) auto

lemma mset_push_all: "mset (foldl (\<lambda>pq x. heap_push lt x pq) pq0 xs) = mset pq0 + mset xs"
  by (induction xs arbitrary: pq0) (auto simp: mset_heap_push)

lemma set_seed_queue:
  "set (seed_queue d p pt sc cfg) =
   (\<lambda>e. seed_item e pt) ` {e \<in> set (Prerequisites d p). seed_admits pt sc cfg e}"
proof -
  have "set (seed_queue d p pt sc cfg) =
      set (map (\<lambda>e. seed_item e pt) (filter (seed_admits pt sc cfg) (Prerequisites d p)))"
    unfolding seed_queue_def foldl_push_filter by (rule mset_eq_set) (simp add: mset_push_all)
  then show ?thesis by auto
qed

lemma set_expand:
  "set (expand d pt sc cfg rf visited en pq) = set pq \<union>
   (\<lambda>e. hop_item en e pt rf) ` {e \<in> set (Prerequisites d (se_MessageID en)).
      e_FromMessageId e \<notin> visited \<and> hop_admits pt sc cfg rf e}"
proof -
  have "set (expand d pt sc cfg rf visited en pq) =
      set (pq @ map (\<lambda>e. hop_item en e pt rf)
        (filter (\<lambda>e. e_FromMessageId e \<notin> visited \<and> hop_admits pt sc cfg rf e)
          (Prerequisites d (se_MessageID en))))"
    unfolding expand_def foldl_push_filter by (rule mset_eq_set) (simp add: mset_push_all)
  then show ?thesis by auto
qed

lemma id_seed_item [simp]: "item_id (seed_item e pt) = e_FromMessageId e"
  by (simp add: seed_item_def)

lemma id_hop_item [simp]: "item_id (hop_item en e pt rf) = e_FromMessageId e"
  by (simp add: hop_item_def Let_def)

section \<open>The walk\<close>

text \<open>\<open>visited\<close>, \<open>below\<close> and \<open>sel\<close> are the loop's locals; a round pops the best
  item, drops it if its message is settled, and otherwise settles it: below the floor, or
  selected and expanded.\<close>

function select_walk ::
  "dag \<Rightarrow> string \<Rightarrow> SelectionScope \<Rightarrow> EngineConfig \<Rightarrow> float64 list \<Rightarrow> string set \<Rightarrow>
   (string, float64) fmap \<Rightarrow> selectionEntry list \<Rightarrow> pqItem list \<Rightarrow>
   selectionEntry list \<times> (string, float64) fmap" where
  "select_walk d pt sc cfg rf visited below sel pq =
     (case heap_pop pq_Less pq of
        None \<Rightarrow> (sel, below)
      | Some (item, pq1) \<Rightarrow>
          let entry = pq_entry item; mid = se_MessageID entry in
          if mid \<in> visited then select_walk d pt sc cfg rf visited below sel pq1
          else let visited' = insert mid visited in
            if se_EffectiveScore entry < cfg_LossRatio cfg
            then select_walk d pt sc cfg rf visited'
                   (fmupd mid (se_EffectiveScore entry) below) sel pq1
            else select_walk d pt sc cfg rf visited' below (sel @ [entry])
                   (expand d pt sc cfg rf visited' entry pq1))"
  by pat_completeness auto
termination
proof (relation "measures [\<lambda>(d, pt, sc, cfg, rf, visited, below, sel, pq).
        card ((dag_sources d \<union> item_id ` set pq) - visited),
      \<lambda>(d, pt, sc, cfg, rf, visited, below, sel, pq). length pq]", goal_cases)
  case 1
  then show ?case by simp
next
  case (2 d pt sc cfg rf visited below sel pq p it pq1 en mid)
  then have pop: "heap_pop pq_Less pq = Some (it, pq1)" by simp
  have "card (dag_sources d \<union> item_id ` set pq1 - visited)
        \<le> card (dag_sources d \<union> item_id ` set pq - visited)"
    using pop_set [OF pop] by (intro card_mono) auto
  then show ?case using pop_length [OF pop] by auto
next
  case (3 d pt sc cfg rf visited below sel pq p it pq1 en mid)
  then have pop: "heap_pop pq_Less pq = Some (it, pq1)" by simp
  have "dag_sources d \<union> item_id ` set pq1 - insert mid visited
        \<subset> dag_sources d \<union> item_id ` set pq - visited"
    using 3 pop_set [OF pop] by auto
  then have "card (dag_sources d \<union> item_id ` set pq1 - insert mid visited)
        < card (dag_sources d \<union> item_id ` set pq - visited)"
    by (intro psubset_card_mono) auto
  then show ?case using 3 by simp
next
  case (4 d pt sc cfg rf visited below sel pq p it pq1 en mid)
  then have pop: "heap_pop pq_Less pq = Some (it, pq1)" by simp
  let ?pq = "expand d pt sc cfg rf (insert mid visited) en pq1"
  have "item_id ` set ?pq \<subseteq> item_id ` set pq1 \<union> dag_sources d"
    by (auto simp: set_expand Prerequisites_source)
  then have "dag_sources d \<union> item_id ` set ?pq - insert mid visited
        \<subset> dag_sources d \<union> item_id ` set pq - visited"
    using 4 pop_set [OF pop] by auto
  then have "card (dag_sources d \<union> item_id ` set ?pq - insert mid visited)
        < card (dag_sources d \<union> item_id ` set pq - visited)"
    by (intro psubset_card_mono) auto
  then show ?case using 4 by simp
qed

declare select_walk.simps [simp del]

text \<open>One lemma per kind of round.\<close>

lemma select_walk_done: "select_walk d pt sc cfg rf v b s [] = (s, b)"
  by (simp add: select_walk.simps heap_pop_def)

lemma select_walk_skip:
  "heap_pop pq_Less q = Some (it, q1) \<Longrightarrow> item_id it \<in> v \<Longrightarrow>
   select_walk d pt sc cfg rf v b s q = select_walk d pt sc cfg rf v b s q1"
  by (simp add: select_walk.simps [of d pt sc cfg rf v b s q])

lemma select_walk_low:
  "heap_pop pq_Less q = Some (it, q1) \<Longrightarrow> item_id it \<notin> v \<Longrightarrow>
   se_EffectiveScore (pq_entry it) < cfg_LossRatio cfg \<Longrightarrow>
   select_walk d pt sc cfg rf v b s q =
   select_walk d pt sc cfg rf (insert (item_id it) v)
     (fmupd (item_id it) (se_EffectiveScore (pq_entry it)) b) s q1"
  by (simp add: select_walk.simps [of d pt sc cfg rf v b s q] Let_def)

lemma select_walk_pick:
  "heap_pop pq_Less q = Some (it, q1) \<Longrightarrow> item_id it \<notin> v \<Longrightarrow>
   \<not> se_EffectiveScore (pq_entry it) < cfg_LossRatio cfg \<Longrightarrow>
   select_walk d pt sc cfg rf v b s q =
   select_walk d pt sc cfg rf (insert (item_id it) v) b (s @ [pq_entry it])
     (expand d pt sc cfg rf (insert (item_id it) v) (pq_entry it) q1)"
  by (simp add: select_walk.simps [of d pt sc cfg rf v b s q] Let_def)

definition extractSubgraph ::
  "dag \<Rightarrow> string \<Rightarrow> string \<Rightarrow> SelectionScope \<Rightarrow> EngineConfig \<Rightarrow> float64 list \<Rightarrow>
   selectionEntry list \<times> (string, float64) fmap" where
  "extractSubgraph d promptID promptThreadID scope cfg refFloor =
     select_walk d promptThreadID scope cfg refFloor {promptID} fmempty []
       (seed_queue d promptID promptThreadID scope cfg)"

end
