(* ===== verification/Selection_Correct.thy ===== *)
theory Selection_Correct
  imports Selection
begin

text \<open>
  Correctness of the best-first walk of \<^verbatim>\<open>rrc/selection.go\<close>. Soundness: what is
  selected is a real chain of admissible edges, and the numbers on the entry are those of
  the chain. Completeness and optimality: every message an admissible chain reaches with a
  score at or above the stance is selected, at the best such score, in descending order.
\<close>

section \<open>Chains of edges\<close>

fun via_path :: "dag \<Rightarrow> string \<Rightarrow> Edge list \<Rightarrow> string \<Rightarrow> bool" where
  "via_path d u [] v = (u = v)"
| "via_path d u (e # es) v =
     (e \<in> set (Prerequisites d u) \<and> via_path d (e_FromMessageId e) es v)"

lemma via_path_snoc [simp]:
  "via_path d u (es @ [e]) v \<longleftrightarrow>
   (\<exists>w. via_path d u es w \<and> e \<in> set (Prerequisites d w) \<and> e_FromMessageId e = v)"
  by (induction es arbitrary: u) auto

fun admissible :: "string \<Rightarrow> SelectionScope \<Rightarrow> EngineConfig \<Rightarrow> float64 list \<Rightarrow> Edge list \<Rightarrow> bool" where
  "admissible pt sc cfg rf [] = False"
| "admissible pt sc cfg rf (e # es) =
     (seed_admits pt sc cfg e \<and> list_all (hop_admits pt sc cfg rf) es)"

lemma admissible_snoc [simp]:
  "es \<noteq> [] \<Longrightarrow> admissible pt sc cfg rf (es @ [e]) \<longleftrightarrow>
   admissible pt sc cfg rf es \<and> hop_admits pt sc cfg rf e"
  by (cases es) auto

text \<open>The chain rule: this event's verdict on the first edge, times the re-derived
  strength of every further edge; and the product of the raw observations.\<close>

fun path_score :: "float64 list \<Rightarrow> Edge list \<Rightarrow> float64" where
  "path_score rf [] = 1"
| "path_score rf (e # es) = foldl (\<lambda>s e. relationalEdgeScore e rf * s) (seedEdgeScore e) es"

lemma path_score_snoc [simp]:
  "es \<noteq> [] \<Longrightarrow> path_score rf (es @ [e]) = relationalEdgeScore e rf * path_score rf es"
  by (cases es) auto

fun path_weight :: "Edge list \<Rightarrow> float64" where
  "path_weight [] = 1"
| "path_weight (e # es) = foldl (\<lambda>w e. w * e_CrossEncoderScore e) (e_CrossEncoderScore e) es"

lemma path_weight_snoc [simp]:
  "es \<noteq> [] \<Longrightarrow> path_weight (es @ [e]) = path_weight es * e_CrossEncoderScore e"
  by (cases es) auto

definition entry_ok ::
  "dag \<Rightarrow> string \<Rightarrow> string \<Rightarrow> SelectionScope \<Rightarrow> EngineConfig \<Rightarrow> float64 list \<Rightarrow> selectionEntry \<Rightarrow> bool" where
  "entry_ok d p pt sc cfg rf en \<longleftrightarrow>
     (let via = se_ViaEdges en in
      via_path d p via (se_MessageID en) \<and> admissible pt sc cfg rf via \<and>
      se_EffectiveScore en = path_score rf via \<and> se_HopDepth en = int (length via) \<and>
      se_ThreadID en = e_FromThreadId (last via) \<and>
      se_CrossThread en = (se_ThreadID en \<noteq> pt) \<and>
      se_ProvenanceWeight en = path_weight via)"

lemma entry_ok_via: "entry_ok d p pt sc cfg rf en \<Longrightarrow> se_ViaEdges en \<noteq> []"
  by (auto simp: entry_ok_def Let_def)

lemma entry_ok_seed:
  "e \<in> set (Prerequisites d p) \<Longrightarrow> seed_admits pt sc cfg e \<Longrightarrow>
   entry_ok d p pt sc cfg rf (pq_entry (seed_item e pt))"
  by (simp add: entry_ok_def seed_item_def)

lemma entry_ok_hop:
  assumes "entry_ok d p pt sc cfg rf en" and "e \<in> set (Prerequisites d (se_MessageID en))"
    and "hop_admits pt sc cfg rf e"
  shows "entry_ok d p pt sc cfg rf (pq_entry (hop_item en e pt rf))"
  using assms entry_ok_via [OF assms(1)] by (auto simp: entry_ok_def hop_item_def Let_def)

section \<open>Reasoning about the loop\<close>

text \<open>A property of the loop's state that the three kinds of round keep holds at the end,
  where the queue is empty.\<close>

lemma select_walk_rule:
  assumes "P visited below sel pq"
    and skip: "\<And>v b s q it q1. P v b s q \<Longrightarrow> heap_pop pq_Less q = Some (it, q1) \<Longrightarrow>
        item_id it \<in> v \<Longrightarrow> P v b s q1"
    and low: "\<And>v b s q it q1. P v b s q \<Longrightarrow> heap_pop pq_Less q = Some (it, q1) \<Longrightarrow>
        item_id it \<notin> v \<Longrightarrow> se_EffectiveScore (pq_entry it) < cfg_LossRatio cfg \<Longrightarrow>
        P (insert (item_id it) v) (fmupd (item_id it) (se_EffectiveScore (pq_entry it)) b) s q1"
    and pick: "\<And>v b s q it q1. P v b s q \<Longrightarrow> heap_pop pq_Less q = Some (it, q1) \<Longrightarrow>
        item_id it \<notin> v \<Longrightarrow> \<not> se_EffectiveScore (pq_entry it) < cfg_LossRatio cfg \<Longrightarrow>
        P (insert (item_id it) v) b (s @ [pq_entry it])
          (expand d pt sc cfg rf (insert (item_id it) v) (pq_entry it) q1)"
    and res: "select_walk d pt sc cfg rf visited below sel pq = (sel', below')"
  shows "\<exists>visited'. P visited' below' sel' []"
proof -
  have "d' = d \<and> pt' = pt \<and> sc' = sc \<and> cfg' = cfg \<and> rf' = rf \<longrightarrow> P v b s q \<longrightarrow>
      select_walk d' pt' sc' cfg' rf' v b s q = (sel', below') \<longrightarrow>
      (\<exists>visited'. P visited' below' sel' [])" for d' pt' sc' cfg' rf' v b s q
  proof (induction d' pt' sc' cfg' rf' v b s q rule: select_walk.induct)
    case (1 d' pt' sc' cfg' rf' v b s q)
    show ?case
    proof (intro impI, elim conjE)
      assume eq: "d' = d" "pt' = pt" "sc' = sc" "cfg' = cfg" "rf' = rf"
      assume P: "P v b s q" and walk: "select_walk d' pt' sc' cfg' rf' v b s q = (sel', below')"
      note IH = "1.IH" [unfolded eq] and walk = walk [unfolded eq]
      show "\<exists>visited'. P visited' below' sel' []"
      proof (cases "heap_pop pq_Less q")
        case None
        then have "q = []" by (simp add: heap_pop_None)
        with walk P show ?thesis by (auto simp: select_walk_done)
      next
        case (Some r)
        obtain it q1 where r: "r = (it, q1)" by (cases r)
        note pop = Some [unfolded r]
        consider "item_id it \<in> v"
          | "item_id it \<notin> v" "se_EffectiveScore (pq_entry it) < cfg_LossRatio cfg"
          | "item_id it \<notin> v" "\<not> se_EffectiveScore (pq_entry it) < cfg_LossRatio cfg" by blast
        then show ?thesis
        proof cases
          case 1
          then show ?thesis
            using IH(1) [OF pop refl refl refl] skip [OF P pop] walk
            by (simp add: select_walk_skip [OF pop])
        next
          case 2
          then show ?thesis
            using IH(2) [OF pop refl refl refl _ refl] low [OF P pop] walk
            by (simp add: select_walk_low [OF pop])
        next
          case 3
          then show ?thesis
            using IH(3) [OF pop refl refl refl _ refl] pick [OF P pop] walk
            by (simp add: select_walk_pick [OF pop])
        qed
      qed
    qed
  qed
  then show ?thesis using assms(1) res by blast
qed

section \<open>Soundness\<close>

definition sound_inv ::
  "dag \<Rightarrow> string \<Rightarrow> string \<Rightarrow> SelectionScope \<Rightarrow> EngineConfig \<Rightarrow> float64 list \<Rightarrow> string set \<Rightarrow>
   (string, float64) fmap \<Rightarrow> selectionEntry list \<Rightarrow> pqItem list \<Rightarrow> bool" where
  "sound_inv d p pt sc cfg rf visited below sel pq \<longleftrightarrow>
     visited = insert p (se_MessageID ` set sel \<union> fset (fmdom below)) \<and>
     p \<notin> se_MessageID ` set sel \<and> p |\<notin>| fmdom below \<and>
     se_MessageID ` set sel \<inter> fset (fmdom below) = {} \<and>
     distinct (map se_MessageID sel) \<and>
     (\<forall>en \<in> set sel. entry_ok d p pt sc cfg rf en \<and> \<not> se_EffectiveScore en < cfg_LossRatio cfg) \<and>
     (\<forall>it \<in> set pq. entry_ok d p pt sc cfg rf (pq_entry it) \<and>
        pq_priority it = se_EffectiveScore (pq_entry it)) \<and>
     (\<forall>v b. fmlookup below v = Some b \<longrightarrow> b < cfg_LossRatio cfg)"

lemma sound_inv_start:
  "sound_inv d p pt sc cfg rf {p} fmempty [] (seed_queue d p pt sc cfg)"
  by (auto simp: sound_inv_def set_seed_queue entry_ok_seed) (simp add: seed_item_def)

lemma priority_hop [simp]:
  "pq_priority (hop_item en e pt rf) = se_EffectiveScore (pq_entry (hop_item en e pt rf))"
  by (simp add: hop_item_def Let_def)

lemma priority_seed [simp]:
  "pq_priority (seed_item e pt) = se_EffectiveScore (pq_entry (seed_item e pt))"
  by (simp add: seed_item_def)

lemma sound_inv_skip:
  "sound_inv d p pt sc cfg rf v b s q \<Longrightarrow> heap_pop pq_Less q = Some (it, q1) \<Longrightarrow>
   sound_inv d p pt sc cfg rf v b s q1"
  using pop_set [of pq_Less q it q1] by (simp add: sound_inv_def)

lemma sound_inv_low:
  "sound_inv d p pt sc cfg rf v b s q \<Longrightarrow> heap_pop pq_Less q = Some (it, q1) \<Longrightarrow>
   item_id it \<notin> v \<Longrightarrow> se_EffectiveScore (pq_entry it) < cfg_LossRatio cfg \<Longrightarrow>
   sound_inv d p pt sc cfg rf (insert (item_id it) v)
     (fmupd (item_id it) (se_EffectiveScore (pq_entry it)) b) s q1"
  using pop_set [of pq_Less q it q1] by (auto simp: sound_inv_def)

lemma sound_inv_pick:
  "sound_inv d p pt sc cfg rf v b s q \<Longrightarrow> heap_pop pq_Less q = Some (it, q1) \<Longrightarrow>
   item_id it \<notin> v \<Longrightarrow> \<not> se_EffectiveScore (pq_entry it) < cfg_LossRatio cfg \<Longrightarrow>
   sound_inv d p pt sc cfg rf (insert (item_id it) v) b (s @ [pq_entry it])
     (expand d pt sc cfg rf (insert (item_id it) v) (pq_entry it) q1)"
  using pop_set [of pq_Less q it q1]
  by (auto simp: sound_inv_def set_expand intro!: entry_ok_hop)

lemma sound_inv_end:
  assumes "extractSubgraph d p pt sc cfg rf = (sel, below)"
  shows "\<exists>visited. sound_inv d p pt sc cfg rf visited below sel []"
  by (rule select_walk_rule [where P = "sound_inv d p pt sc cfg rf", OF sound_inv_start
        sound_inv_skip sound_inv_low sound_inv_pick assms [unfolded extractSubgraph_def]])

text \<open>C4: soundness of selection. Every selected entry is a non-empty chain of graph edges
  from the anchor to its message, each edge cross-encoder scored, in scope and accepted by
  the stance; its hop depth, thread, effective score and provenance weight are those of that
  chain; the score is not below the loss ratio; no message is selected twice and the anchor
  never; and what is reported as below the floor really is, and is not selected.\<close>

theorem extractSubgraph_sound:
  assumes "extractSubgraph d p pt sc cfg rf = (sel, below)"
  shows "list_all (\<lambda>en. entry_ok d p pt sc cfg rf en \<and>
            \<not> se_EffectiveScore en < cfg_LossRatio cfg) sel \<and>
         distinct (p # map se_MessageID sel) \<and>
         (\<forall>v b. fmlookup below v = Some b \<longrightarrow>
            b < cfg_LossRatio cfg \<and> v \<notin> se_MessageID ` set sel)"
proof -
  from sound_inv_end [OF assms] obtain vis where
    inv: "sound_inv d p pt sc cfg rf vis below sel []" by blast
  have "v \<in> fset (fmdom below)" if "fmlookup below v = Some b" for v b
    using that by (simp add: fmdomI)
  with inv show ?thesis by (auto simp: sound_inv_def list_all_iff)
qed

section \<open>Completeness and optimality\<close>

lemma pq_Less_weak_order: "weak_order pq_Less (\<lambda>it. pq_priority it \<noteq> NaN)"
proof -
  have "pq_Less = (\<lambda>a b. pq_priority b < pq_priority a)"
    by (auto simp: pq_Less_def fun_eq_iff)
  then show ?thesis using float_desc_weak_order [of "pq_priority :: pqItem \<Rightarrow> float64"] by simp
qed

abbreviation pq_inv :: "pqItem list \<Rightarrow> bool" where
  "pq_inv \<equiv> weak_order.heap_inv pq_Less (\<lambda>it. pq_priority it \<noteq> NaN)"

interpretation pq: best_first_queue pq_Less "\<lambda>it. pq_priority it \<noteq> NaN" pq_inv mset
  "heap_push pq_Less" "heap_pop pq_Less"
  by (rule heap_best_first_queue) (rule pq_Less_weak_order)

definition unit_edges :: "dag \<Rightarrow> bool" where
  "unit_edges d \<longleftrightarrow>
     (\<forall>v. list_all (\<lambda>e. in_unit (e_Score e) \<and> in_unit (e_CrossEncoderScore e)) (Prerequisites d v))"

lemma relational_in_unit:
  assumes "in_unit (e_CrossEncoderScore e)"
  shows "in_unit (relationalEdgeScore e rf)"
proof -
  have "surprisalBits (nullP s rf) = Fin (log 2 (real (length rf) + 1)
      - log 2 (real (length (filter (\<lambda>r. s \<le> r) rf)) + 1))" for s
    by (rule surprisal_nullP)
  moreover have "log 2 (real (length (filter (\<lambda>r. s \<le> r) rf)) + 1) \<le> log 2 (real (length rf) + 1)" for s
    by (rule log_mono) (auto simp: length_filter_le)
  ultimately have "in_unit (confidenceFromBits (surprisalBits (nullP s rf)))" for s
    by (simp add: confidence_in_unit)
  then show ?thesis
    using assms by (simp add: relationalEdgeScore_def Let_def in_unit_def)
qed

lemma unit_edgesD:
  assumes "unit_edges d" and "e \<in> set (Prerequisites d v)"
  shows "in_unit (seedEdgeScore e)" and "in_unit (relationalEdgeScore e rf)"
  using assms relational_in_unit by (auto simp: unit_edges_def list_all_iff seedEdgeScore_def)

text \<open>The value a settled message was settled at is at least \<open>s\<close>.\<close>

definition settled :: "(string, float64) fmap \<Rightarrow> selectionEntry list \<Rightarrow> string \<Rightarrow> float64 \<Rightarrow> bool" where
  "settled below sel v s \<longleftrightarrow>
     (\<exists>en \<in> set sel. se_MessageID en = v \<and> s \<le> se_EffectiveScore en) \<or>
     (\<exists>b. fmlookup below v = Some b \<and> s \<le> b)"

definition reached ::
  "(string, float64) fmap \<Rightarrow> selectionEntry list \<Rightarrow> pqItem list \<Rightarrow> string \<Rightarrow> float64 \<Rightarrow> bool" where
  "reached below sel pq v s \<longleftrightarrow>
     settled below sel v s \<or> (\<exists>it \<in> set pq. item_id it = v \<and> s \<le> pq_priority it)"

lemma settled_mono: "settled below sel v s \<Longrightarrow> s' \<le> s \<Longrightarrow> settled below sel v s'"
  by (auto simp: settled_def intro: float_le_trans)

definition opt_inv ::
  "dag \<Rightarrow> string \<Rightarrow> string \<Rightarrow> SelectionScope \<Rightarrow> EngineConfig \<Rightarrow> float64 list \<Rightarrow> string set \<Rightarrow>
   (string, float64) fmap \<Rightarrow> selectionEntry list \<Rightarrow> pqItem list \<Rightarrow> bool" where
  "opt_inv d p pt sc cfg rf visited below sel pq \<longleftrightarrow>
     sound_inv d p pt sc cfg rf visited below sel pq \<and> pq_inv pq \<and>
     (\<forall>it \<in> set pq. in_unit (pq_priority it)) \<and>
     (\<forall>en \<in> set sel. in_unit (se_EffectiveScore en)) \<and>
     sorted_wrt (\<lambda>a b. se_EffectiveScore b \<le> se_EffectiveScore a) sel \<and>
     (\<forall>it \<in> set pq. (\<forall>v \<in> visited - {p}. settled below sel v (pq_priority it)) \<and>
        (\<forall>en \<in> set sel. pq_priority it \<le> se_EffectiveScore en)) \<and>
     (\<forall>e \<in> set (Prerequisites d p). seed_admits pt sc cfg e \<and> e_FromMessageId e \<noteq> p \<longrightarrow>
        reached below sel pq (e_FromMessageId e) (seedEdgeScore e)) \<and>
     (\<forall>en \<in> set sel. \<forall>e \<in> set (Prerequisites d (se_MessageID en)).
        hop_admits pt sc cfg rf e \<and> e_FromMessageId e \<noteq> p \<longrightarrow>
        reached below sel pq (e_FromMessageId e) (relationalEdgeScore e rf * se_EffectiveScore en))"

lemma pop_best_priority:
  assumes "pq_inv q" and "heap_pop pq_Less q = Some (it, q1)" and "y \<in> set q"
    and "\<forall>it \<in> set q. in_unit (pq_priority it)"
  shows "pq_priority y \<le> pq_priority it"
proof -
  have q: "set q = insert it (set q1)" using assms(2) by (rule pop_set)
  then have nan: "pq_priority y \<noteq> NaN" "pq_priority it \<noteq> NaN"
    using assms(3,4) by (auto dest: in_unit_not_NaN)
  show ?thesis
  proof (cases "y \<in> set q1")
    case True
    then have "\<not> pq_priority it < pq_priority y"
      using pq.pop_best [OF assms(1,2)] by (simp add: pq_Less_def)
    then show ?thesis using nan by (simp add: float_not_less)
  next
    case False
    then show ?thesis using q assms(3) nan by auto
  qed
qed

lemma reached_skip:
  assumes "reached below sel q v s" and "set q = insert it (set q1)" and "v \<noteq> item_id it \<or>
    settled below sel v (pq_priority it)"
  shows "reached below sel q1 v s"
  using assms by (auto simp: reached_def intro: settled_mono)

lemma settled_low: "settled below sel v s \<Longrightarrow> m |\<notin>| fmdom below \<Longrightarrow> settled (fmupd m x below) sel v s"
  by (auto simp: settled_def dest: fmdomI)

lemma settled_pick: "settled below sel v s \<Longrightarrow> settled below (sel @ [en]) v s"
  by (auto simp: settled_def)

lemma reached_low:
  assumes "reached below sel q v s" and "set q = insert it (set q1)"
    and "\<forall>y \<in> set q. pq_priority y \<le> x" and "item_id it |\<notin>| fmdom below"
  shows "reached (fmupd (item_id it) x below) sel q1 v s"
proof (cases "settled below sel v s")
  case True
  then show ?thesis using settled_low assms(4) by (auto simp: reached_def)
next
  case False
  then obtain y where y: "y \<in> set q" "item_id y = v" "s \<le> pq_priority y"
    using assms(1) by (auto simp: reached_def)
  then have "s \<le> x" using assms(3) float_le_trans by blast
  then show ?thesis using y assms(2) by (auto simp: reached_def settled_def)
qed

lemma reached_pick:
  assumes "reached below sel q v s" and "set q = insert it (set q1)" and "set q1 \<subseteq> set q2"
    and "\<forall>y \<in> set q. pq_priority y \<le> se_EffectiveScore (pq_entry it)"
  shows "reached below (sel @ [pq_entry it]) q2 v s"
proof (cases "settled below sel v s")
  case True
  then show ?thesis using settled_pick by (auto simp: reached_def)
next
  case False
  then obtain y where y: "y \<in> set q" "item_id y = v" "s \<le> pq_priority y"
    using assms(1) by (auto simp: reached_def)
  then have "s \<le> se_EffectiveScore (pq_entry it)" using assms(4) float_le_trans by blast
  then show ?thesis using y assms(2,3) by (auto simp: reached_def settled_def)
qed

lemma seed_queue_inv:
  assumes "unit_edges d"
  shows "pq_inv (seed_queue d p pt sc cfg)"
  unfolding seed_queue_def foldl_push_filter
proof (rule pq.inv_push_all)
  show "pq_inv []"
    by (simp add: weak_order.heap_inv_def [OF pq_Less_weak_order] is_heap_def)
  show "\<forall>x \<in> set (map (\<lambda>e. seed_item e pt) (filter (seed_admits pt sc cfg) (Prerequisites d p))).
      pq_priority x \<noteq> NaN"
    using unit_edgesD(1) [OF assms] by (auto simp: seed_item_def dest: in_unit_not_NaN)
qed

lemma hop_priority_unit:
  assumes "unit_edges d" and "e \<in> set (Prerequisites d v)" and "in_unit (se_EffectiveScore en)"
  shows "in_unit (pq_priority (hop_item en e pt rf))"
    and "pq_priority (hop_item en e pt rf) \<le> se_EffectiveScore en"
  using assms unit_edgesD(2) [OF assms(1,2), of rf]
  by (simp_all add: hop_item_def Let_def in_unit_mult in_unit_mult_le)

lemma expand_inv:
  assumes "unit_edges d" and "pq_inv q" and "in_unit (se_EffectiveScore en)"
  shows "pq_inv (expand d pt sc cfg rf vis en q)"
  unfolding expand_def foldl_push_filter
proof (rule pq.inv_push_all [OF assms(2)])
  show "\<forall>x \<in> set (map (\<lambda>e. hop_item en e pt rf) (filter (\<lambda>e. e_FromMessageId e \<notin> vis \<and>
      hop_admits pt sc cfg rf e) (Prerequisites d (se_MessageID en)))). pq_priority x \<noteq> NaN"
    using hop_priority_unit(1) [OF assms(1) _ assms(3)]
    by (auto dest!: in_unit_not_NaN simp del: priority_hop)
qed

lemma opt_inv_start:
  assumes "unit_edges d"
  shows "opt_inv d p pt sc cfg rf {p} fmempty [] (seed_queue d p pt sc cfg)"
proof -
  have "reached fmempty [] (seed_queue d p pt sc cfg) (e_FromMessageId e) (seedEdgeScore e)"
    if "e \<in> set (Prerequisites d p)" "seed_admits pt sc cfg e" for e
  proof -
    have "seedEdgeScore e \<noteq> NaN" using unit_edgesD(1) [OF assms that(1)] by (rule in_unit_not_NaN)
    then have "seed_item e pt \<in> set (seed_queue d p pt sc cfg)" "seedEdgeScore e \<le> pq_priority (seed_item e pt)"
      using that by (auto simp: set_seed_queue) (simp add: seed_item_def)
    then show ?thesis unfolding reached_def using id_seed_item by blast
  qed
  then show ?thesis
    using sound_inv_start [of d p pt sc cfg rf] seed_queue_inv [OF assms, of p pt sc cfg]
      unit_edgesD(1) [OF assms]
    by (auto simp: opt_inv_def set_seed_queue) (simp add: seed_item_def)
qed

lemma opt_inv_skip:
  assumes inv: "opt_inv d p pt sc cfg rf v b s q" and pop: "heap_pop pq_Less q = Some (it, q1)"
    and vis: "item_id it \<in> v" and sound: "sound_inv d p pt sc cfg rf v b s q1"
  shows "opt_inv d p pt sc cfg rf v b s q1"
proof -
  note q = pop_set [OF pop]
  have "pq_inv q1" using pq.inv_pop [OF _ pop] inv by (simp add: opt_inv_def)
  moreover have "settled b s (item_id it) (pq_priority it)" if "item_id it \<noteq> p"
    using inv vis that q by (auto simp: opt_inv_def)
  then have "reached b s q1 u x" if "reached b s q u x" "u \<noteq> p" for u x
    using reached_skip [OF that(1) q] that(2) by blast
  ultimately show ?thesis using inv sound q by (simp add: opt_inv_def)
qed

lemma opt_inv_low:
  assumes inv: "opt_inv d p pt sc cfg rf v b s q" and pop: "heap_pop pq_Less q = Some (it, q1)"
    and new: "item_id it \<notin> v"
    and sound: "sound_inv d p pt sc cfg rf (insert (item_id it) v) (fmupd (item_id it) x b) s q1"
    and x: "x = se_EffectiveScore (pq_entry it)"
  shows "opt_inv d p pt sc cfg rf (insert (item_id it) v) (fmupd (item_id it) x b) s q1"
proof -
  note q = pop_set [OF pop]
  have sq: "sound_inv d p pt sc cfg rf v b s q" "pq_inv q" "\<forall>it \<in> set q. in_unit (pq_priority it)"
    using inv by (auto simp: opt_inv_def)
  have fresh: "item_id it |\<notin>| fmdom b" and xp: "x = pq_priority it"
    using sq(1) new q x by (auto simp: sound_inv_def)
  have best: "\<forall>y \<in> set q. pq_priority y \<le> x"
    using pop_best_priority [OF sq(2) pop _ sq(3)] xp by blast
  have "pq_inv q1" using pq.inv_pop [OF sq(2) pop] .
  moreover have "reached (fmupd (item_id it) x b) s q1 u y" if "reached b s q u y" for u y
    by (rule reached_low [OF that q best fresh])
  moreover have "settled (fmupd (item_id it) x b) s u (pq_priority y)"
    if "u \<in> insert (item_id it) v - {p}" "y \<in> set q1" for u y
  proof (cases "u = item_id it")
    case True
    then show ?thesis using best q that(2) by (simp add: settled_def)
  next
    case False
    then have "settled b s u (pq_priority y)" using inv that q by (simp add: opt_inv_def)
    then show ?thesis by (rule settled_low [OF _ fresh])
  qed
  ultimately show ?thesis
    using inv sound q by (simp add: opt_inv_def)
qed

lemma opt_inv_pick:
  assumes unit: "unit_edges d" and inv: "opt_inv d p pt sc cfg rf v b s q"
    and pop: "heap_pop pq_Less q = Some (it, q1)" and new: "item_id it \<notin> v"
    and en: "en = pq_entry it"
    and q2: "q2 = expand d pt sc cfg rf (insert (item_id it) v) en q1"
    and sound: "sound_inv d p pt sc cfg rf (insert (item_id it) v) b (s @ [en]) q2"
  shows "opt_inv d p pt sc cfg rf (insert (item_id it) v) b (s @ [en]) q2"
proof -
  note q = pop_set [OF pop]
  have sq: "sound_inv d p pt sc cfg rf v b s q" "pq_inv q" "\<forall>it \<in> set q. in_unit (pq_priority it)"
    using inv by (auto simp: opt_inv_def)
  have pe: "pq_priority it = se_EffectiveScore en"
    using sq(1) q en by (auto simp: sound_inv_def)
  have unit_en: "in_unit (se_EffectiveScore en)" using sq(3) q pe by auto
  have best: "\<forall>y \<in> set q. pq_priority y \<le> se_EffectiveScore (pq_entry it)"
    using pop_best_priority [OF sq(2) pop _ sq(3)] pe en by auto
  have sub: "set q1 \<subseteq> set q2" by (simp add: q2 set_expand)
  have items: "pq_priority y \<le> se_EffectiveScore en \<and> in_unit (pq_priority y)" if "y \<in> set q2" for y
    using that best q sq(3) en hop_priority_unit [OF unit _ unit_en]
    by (auto simp: q2 set_expand simp del: priority_hop)
  have refl: "se_EffectiveScore en \<le> se_EffectiveScore en"
    using unit_en in_unit_not_NaN by auto
  have old: "reached b (s @ [en]) q2 u y" if "reached b s q u y" for u y
    using reached_pick [OF that q sub best] en by simp
  have settled_new: "settled b (s @ [en]) u (pq_priority y)"
    if "u \<in> insert (item_id it) v - {p}" "y \<in> set q2" for u y
  proof (cases "u = item_id it")
    case True
    then show ?thesis using items [OF that(2)] en by (auto simp: settled_def)
  next
    case False
    then have "settled b s u (pq_priority it)" using inv that(1) q by (simp add: opt_inv_def)
    then show ?thesis using items [OF that(2)] pe settled_mono settled_pick by metis
  qed
  have new_step: "reached b (s @ [en]) q2 (e_FromMessageId e) (relationalEdgeScore e rf * se_EffectiveScore en)"
    if e: "e \<in> set (Prerequisites d (se_MessageID en))" "hop_admits pt sc cfg rf e"
      "e_FromMessageId e \<noteq> p" for e
  proof -
    let ?r = "relationalEdgeScore e rf * se_EffectiveScore en"
    have r: "?r \<le> se_EffectiveScore en" "?r \<noteq> NaN"
      using unit_edgesD(2) [OF unit e(1), of rf] unit_en in_unit_mult in_unit_mult_le in_unit_not_NaN
      by auto
    consider "e_FromMessageId e = item_id it" | "e_FromMessageId e \<in> v - {p}"
      | "e_FromMessageId e \<notin> insert (item_id it) v" using e(3) by blast
    then show ?thesis
    proof cases
      case 1
      then show ?thesis using r(1) en by (auto simp: reached_def settled_def)
    next
      case 2
      then have "settled b s (e_FromMessageId e) (pq_priority it)"
        using inv q by (auto simp: opt_inv_def)
      then show ?thesis using r(1) pe settled_mono settled_pick by (metis reached_def)
    next
      case 3
      then have "hop_item en e pt rf \<in> set q2" using e by (auto simp: q2 set_expand)
      moreover have "pq_priority (hop_item en e pt rf) = ?r" by (simp add: hop_item_def Let_def)
      ultimately show ?thesis using r(2) unfolding reached_def by (metis float_le_refl id_hop_item)
    qed
  qed
  have "pq_inv q2" unfolding q2 using expand_inv [OF unit pq.inv_pop [OF sq(2) pop] unit_en] .
  moreover have "sorted_wrt (\<lambda>a b. se_EffectiveScore b \<le> se_EffectiveScore a) (s @ [en])"
    using inv q pe by (auto simp: opt_inv_def sorted_wrt_append)
  moreover have "pq_priority y \<le> se_EffectiveScore c" if "c \<in> set s" "y \<in> set q2" for c y
  proof -
    have "pq_priority it \<le> se_EffectiveScore c" using inv q that(1) by (simp add: opt_inv_def)
    then show ?thesis using items [OF that(2)] pe float_le_trans by metis
  qed
  moreover have "\<forall>c \<in> set (s @ [en]). \<forall>e \<in> set (Prerequisites d (se_MessageID c)).
      hop_admits pt sc cfg rf e \<and> e_FromMessageId e \<noteq> p \<longrightarrow>
      reached b (s @ [en]) q2 (e_FromMessageId e) (relationalEdgeScore e rf * se_EffectiveScore c)"
    using inv old new_step by (auto simp: opt_inv_def)
  ultimately show ?thesis
    using inv sound unit_en items old settled_new by (simp add: opt_inv_def)
qed

lemma opt_sound: "opt_inv d p pt sc cfg rf v b s q \<Longrightarrow> sound_inv d p pt sc cfg rf v b s q"
  by (simp add: opt_inv_def)

lemma opt_inv_end:
  assumes "unit_edges d" and "extractSubgraph d p pt sc cfg rf = (sel, below)"
  shows "\<exists>visited. opt_inv d p pt sc cfg rf visited below sel []"
proof (rule select_walk_rule [where P = "opt_inv d p pt sc cfg rf", OF opt_inv_start [OF assms(1)]
      _ _ _ assms(2) [unfolded extractSubgraph_def]])
  fix v b s q it q1
  assume I: "opt_inv d p pt sc cfg rf v b s q" and pop: "heap_pop pq_Less q = Some (it, q1)"
  show "opt_inv d p pt sc cfg rf v b s q1" if vis: "item_id it \<in> v"
    by (rule opt_inv_skip [OF I pop vis sound_inv_skip [OF opt_sound [OF I] pop]])
  assume new: "item_id it \<notin> v"
  show "opt_inv d p pt sc cfg rf (insert (item_id it) v)
      (fmupd (item_id it) (se_EffectiveScore (pq_entry it)) b) s q1"
    if low: "se_EffectiveScore (pq_entry it) < cfg_LossRatio cfg"
    by (rule opt_inv_low [OF I pop new sound_inv_low [OF opt_sound [OF I] pop new low] refl])
  show "opt_inv d p pt sc cfg rf (insert (item_id it) v) b (s @ [pq_entry it])
      (expand d pt sc cfg rf (insert (item_id it) v) (pq_entry it) q1)"
    if pick: "\<not> se_EffectiveScore (pq_entry it) < cfg_LossRatio cfg"
    by (rule opt_inv_pick [OF assms(1) I pop new refl refl
          sound_inv_pick [OF opt_sound [OF I] pop new pick]])
qed

text \<open>Along an admissible chain the score never rises.\<close>

lemma path_score_unit:
  assumes "unit_edges d" and "via_path d u es v" and "es \<noteq> []"
  shows "in_unit (path_score rf es)"
  using assms(2,3)
proof (induction es arbitrary: v rule: rev_induct)
  case (snoc e es)
  show ?case
  proof (cases "es = []")
    case True
    with snoc.prems show ?thesis using unit_edgesD(1) [OF assms(1)] by auto
  next
    case False
    with snoc show ?thesis using unit_edgesD(2) [OF assms(1)] by (auto intro: in_unit_mult)
  qed
qed simp

lemma chain_selected:
  assumes unit: "unit_edges d" and inv: "opt_inv d p pt sc cfg rf vis below sel []"
    and path: "via_path d p es v" "admissible pt sc cfg rf es" "\<forall>e \<in> set es. e_FromMessageId e \<noteq> p"
    and score: "cfg_LossRatio cfg \<le> path_score rf es"
  shows "\<exists>en \<in> set sel. se_MessageID en = v \<and> path_score rf es \<le> se_EffectiveScore en"
  using path score
proof (induction es arbitrary: v rule: rev_induct)
  case Nil
  then show ?case by simp
next
  case (snoc e es)
  have not_below: "\<exists>en \<in> set sel. se_MessageID en = v \<and> s \<le> se_EffectiveScore en"
    if "reached below sel [] v s" "cfg_LossRatio cfg \<le> s" for s
  proof -
    have "\<not> (\<exists>b. fmlookup below v = Some b \<and> s \<le> b)"
      using inv that(2) float_le_trans float_less_le
      by (auto simp: opt_inv_def sound_inv_def) (metis float_le_not_NaN float_not_less)
    then show ?thesis using that(1) by (auto simp: reached_def settled_def)
  qed
  show ?case
  proof (cases "es = []")
    case True
    then have "reached below sel [] v (seedEdgeScore e)"
      using inv snoc.prems by (auto simp: opt_inv_def)
    then show ?thesis using not_below True snoc.prems by simp
  next
    case False
    then obtain w where w: "via_path d p es w" "e \<in> set (Prerequisites d w)" "e_FromMessageId e = v"
      using snoc.prems(1) by auto
    have u: "in_unit (relationalEdgeScore e rf)" "in_unit (path_score rf es)"
      using unit_edgesD(2) [OF unit w(2)] path_score_unit [OF unit w(1) False] by auto
    have step: "path_score rf (es @ [e]) \<le> path_score rf es"
      using in_unit_mult_le [OF u] False by simp
    from snoc.IH [OF w(1)] obtain en where
      en: "en \<in> set sel" "se_MessageID en = w" "path_score rf es \<le> se_EffectiveScore en"
      using snoc.prems False step float_le_trans by auto
    let ?r = "relationalEdgeScore e rf * se_EffectiveScore en"
    have "reached below sel [] v ?r"
      using inv en w snoc.prems False by (auto simp: opt_inv_def)
    moreover have le: "path_score rf (es @ [e]) \<le> ?r"
      using en(3) u False inv en(1) by (auto simp: opt_inv_def in_unit_Fin mult_left_mono)
    ultimately show ?thesis
      using not_below [of ?r] snoc.prems(4) float_le_trans by blast
  qed
qed

text \<open>C5: completeness and optimality of selection. When the recorded scores lie in the unit
  interval, a message that some chain of admissible edges connects to the anchor, without
  returning to the anchor, at a chain-rule score at or above the loss ratio, is selected, at
  a score no lower than that chain's; and the selected entries come in descending score.\<close>

theorem extractSubgraph_complete:
  assumes "unit_edges d" and "extractSubgraph d p pt sc cfg rf = (sel, below)"
    and "via_path d p es v" and "admissible pt sc cfg rf es"
    and "list_all (\<lambda>e. e_FromMessageId e \<noteq> p) es"
    and "cfg_LossRatio cfg \<le> path_score rf es"
  shows "(\<exists>en \<in> set sel. se_MessageID en = v \<and> path_score rf es \<le> se_EffectiveScore en) \<and>
         sorted_wrt (\<lambda>a b. se_EffectiveScore b \<le> se_EffectiveScore a) sel"
proof -
  from opt_inv_end [OF assms(1,2)] obtain vis where
    inv: "opt_inv d p pt sc cfg rf vis below sel []" by blast
  then show ?thesis
    using chain_selected [OF assms(1) inv assms(3,4) _ assms(6)] assms(5)
    by (simp add: list_all_iff opt_inv_def)
qed

section \<open>A worked selection\<close>

text \<open>Two messages behind the anchor \<open>c\<close>: \<open>a\<close> directly, \<open>b\<close> through
  \<open>a\<close>, every edge scored 3/4; the walk selects both, \<open>b\<close> at 9/16.\<close>

definition example_dag :: dag where
  "example_dag = AddEdges_dag newDAG [example_edge ''a'' ''c'', example_edge ''b'' ''a'']"

definition example_a :: selectionEntry where
  "example_a = pq_entry (seed_item (example_edge ''a'' ''c'') ''t'')"

definition example_b :: selectionEntry where
  "example_b = pq_entry (hop_item example_a (example_edge ''b'' ''a'') ''t'' [])"

lemma example_prerequisites:
  "Prerequisites example_dag v =
     (if v = ''c'' then [example_edge ''a'' ''c'']
      else if v = ''a'' then [example_edge ''b'' ''a''] else [])"
  by (simp add: example_dag_def live.into_add example_edge_def)

lemma example_fields:
  "se_MessageID example_a = ''a''" "se_MessageID example_b = ''b''"
  "se_EffectiveScore example_a = Fin (3 / 4)" "se_EffectiveScore example_b = Fin (9 / 16)"
  "cfg_LossRatio DefaultConfig = Fin (1 / 2)"
  by (simp_all add: example_a_def example_b_def seed_item_def hop_item_def Let_def example_edge_def
      seedEdgeScore_def relationalEdgeScore_def minReferenceSample_def DefaultConfig_def)

lemma example_admits:
  "seed_admits ''t'' SELECTION_SCOPE_THREAD DefaultConfig (example_edge x y)"
  "hop_admits ''t'' SELECTION_SCOPE_THREAD DefaultConfig [] (example_edge x y)"
  by (simp_all add: seed_admits_def hop_admits_def scopeAllows_def accept_def seedEdgeScore_def
      relationalEdgeScore_def minReferenceSample_def example_edge_def DefaultConfig_def)

lemma heap_push_first: "heap_push lt x [] = [x]"
  by (simp add: heap_push_def heap_up.simps parent_def)

lemma heap_pop_single: "heap_pop lt [x] = Some (x, [])"
  by (simp add: heap_pop_def heap_down.simps swap_def)

lemma example_selection:
  "extractSubgraph example_dag ''c'' ''t'' SELECTION_SCOPE_THREAD DefaultConfig [] =
   ([example_a, example_b], fmempty)"
proof -
  let ?ia = "seed_item (example_edge ''a'' ''c'') ''t''"
  let ?ib = "hop_item example_a (example_edge ''b'' ''a'') ''t'' []"
  let ?w = "select_walk example_dag ''t'' SELECTION_SCOPE_THREAD DefaultConfig []"
  let ?x = "expand example_dag ''t'' SELECTION_SCOPE_THREAD DefaultConfig []"
  have en: "pq_entry ?ia = example_a" "pq_entry ?ib = example_b"
    by (simp_all add: example_a_def example_b_def)
  have "seed_queue example_dag ''c'' ''t'' SELECTION_SCOPE_THREAD DefaultConfig = [?ia]"
    by (simp add: seed_queue_def example_prerequisites example_admits heap_push_first)
  moreover have "?x {''a'', ''c''} example_a [] = [?ib]"
    by (simp add: expand_def example_prerequisites example_admits heap_push_first example_fields)
       (simp add: example_edge_def)
  moreover have "?x {''b'', ''a'', ''c''} example_b [] = []"
    by (simp add: expand_def example_prerequisites example_fields)
  moreover have "?w {''c''} fmempty [] [?ia] =
      ?w (insert ''a'' {''c''}) fmempty [example_a] (?x {''a'', ''c''} example_a [])"
    by (subst select_walk_pick [OF heap_pop_single]) (simp_all add: en example_fields)
  moreover have "?w {''a'', ''c''} fmempty [example_a] [?ib] =
      ?w (insert ''b'' {''a'', ''c''}) fmempty [example_a, example_b] (?x {''b'', ''a'', ''c''} example_b [])"
    by (subst select_walk_pick [OF heap_pop_single]) (simp_all add: en example_fields)
  ultimately show ?thesis
    by (simp add: extractSubgraph_def select_walk_done)
qed

theorem extractSubgraph_sound_witness:
  "list_all (\<lambda>en. entry_ok example_dag ''c'' ''t'' SELECTION_SCOPE_THREAD DefaultConfig [] en \<and>
      \<not> se_EffectiveScore en < cfg_LossRatio DefaultConfig) [example_a, example_b] \<and>
   distinct (''c'' # map se_MessageID [example_a, example_b])"
  using extractSubgraph_sound [OF example_selection] by blast

theorem extractSubgraph_complete_witness:
  "(\<exists>en \<in> set [example_a, example_b]. se_MessageID en = ''b'' \<and>
      path_score [] [example_edge ''a'' ''c'', example_edge ''b'' ''a''] \<le> se_EffectiveScore en) \<and>
   sorted_wrt (\<lambda>a b. se_EffectiveScore b \<le> se_EffectiveScore a) [example_a, example_b]"
proof (rule extractSubgraph_complete [OF _ example_selection])
  show "unit_edges example_dag"
    by (auto simp: unit_edges_def example_prerequisites in_unit_def example_edge_def)
  show "via_path example_dag ''c'' [example_edge ''a'' ''c'', example_edge ''b'' ''a''] ''b''"
    by (simp add: example_prerequisites) (simp add: example_edge_def)
  show "admissible ''t'' SELECTION_SCOPE_THREAD DefaultConfig []
      [example_edge ''a'' ''c'', example_edge ''b'' ''a'']"
    by (simp add: example_admits)
  show "list_all (\<lambda>e. e_FromMessageId e \<noteq> ''c'')
      [example_edge ''a'' ''c'', example_edge ''b'' ''a'']"
    by (simp add: example_edge_def)
  show "cfg_LossRatio DefaultConfig \<le> path_score [] [example_edge ''a'' ''c'', example_edge ''b'' ''a'']"
    by (simp add: example_fields seedEdgeScore_def relationalEdgeScore_def minReferenceSample_def
        example_edge_def)
qed

end
