(* ===== verification/Selection_Reduction.thy ===== *)
theory Selection_Reduction
  imports Selection_Correct
begin

text \<open>
  \<^verbatim>\<open>transitiveReduction\<close> of \<^verbatim>\<open>rrc/selection.go\<close>. The recursive closure
  \<^verbatim>\<open>dfs\<close> marks every prerequisite it has not seen; here it runs on an explicit stack.
  The set it marks does not depend on the order a map is ranged in.
\<close>

section \<open>Definitions\<close>

definition fm_targets :: "(string, string list) fmap \<Rightarrow> string set" where
  "fm_targets m = (\<Union>xs \<in> fset (fmran m). set xs)"

lemma finite_fm_targets [simp]: "finite (fm_targets m)"
  by (simp add: fm_targets_def)

lemma lookup_fm_targets: "set (lookup_or [] m x) \<subseteq> fm_targets m"
proof (cases "fmlookup m x")
  case (Some xs)
  then have "xs \<in> fset (fmran m)" by (rule fmranI)
  with Some show ?thesis by (auto simp: fm_targets_def lookup_or_def)
qed (simp add: lookup_or_def)

function dfs :: "(string, string list) fmap \<Rightarrow> string set \<Rightarrow> string list \<Rightarrow> string set" where
  "dfs m visited [] = visited"
| "dfs m visited (x # stack) =
     (if x \<in> visited then dfs m visited stack
      else dfs m (insert x visited) (lookup_or [] m x @ stack))"
  by pat_completeness auto
termination
proof (relation "measures [\<lambda>(m, visited, stack). card ((fm_targets m \<union> set stack) - visited),
      \<lambda>(m, visited, stack). length stack]", goal_cases)
  case 1
  then show ?case by simp
next
  case (2 m visited x stack)
  have "card (fm_targets m \<union> set stack - visited) \<le> card (fm_targets m \<union> set (x # stack) - visited)"
    by (intro card_mono) auto
  then show ?case by auto
next
  case (3 m visited x stack)
  have "fm_targets m \<union> set (lookup_or [] m x @ stack) - insert x visited
        \<subset> fm_targets m \<union> set (x # stack) - visited"
    using 3 lookup_fm_targets [of m x] by auto
  then have "card (fm_targets m \<union> set (lookup_or [] m x @ stack) - insert x visited)
        < card (fm_targets m \<union> set (x # stack) - visited)"
    by (intro psubset_card_mono) auto
  then show ?case by simp
qed

definition directPrereqs :: "selectionEntry list \<Rightarrow> (string, string list) fmap" where
  "directPrereqs selected =
     (let ids = map se_MessageID selected in
      foldl (\<lambda>m s. fmupd (se_MessageID s)
          (filter (List.member ids) (map e_FromMessageId (se_ViaEdges s))) m)
        fmempty selected)"

definition reachable_from :: "selectionEntry list \<Rightarrow> string \<Rightarrow> string set" where
  "reachable_from selected x =
     (let m = directPrereqs selected in dfs m {} (lookup_or [] m x))"

definition prune_via :: "(string \<Rightarrow> string set) \<Rightarrow> Edge list \<Rightarrow> Edge list" where
  "prune_via reach via =
     filter (\<lambda>e. \<not> list_ex (\<lambda>other. e_FromMessageId other \<noteq> e_FromMessageId e \<and>
                    e_FromMessageId e \<in> reach (e_FromMessageId other)) via) via"

definition transitiveReduction :: "selectionEntry list \<Rightarrow> selectionEntry list" where
  "transitiveReduction selected =
     (if length selected \<le> 1 then selected
      else map (\<lambda>s. s\<lparr>se_ViaEdges := prune_via (reachable_from selected) (se_ViaEdges s)\<rparr>) selected)"

section \<open>The closure\<close>

definition fm_step :: "(string, string list) fmap \<Rightarrow> string \<Rightarrow> string \<Rightarrow> bool" where
  "fm_step m x y \<longleftrightarrow> y \<in> set (lookup_or [] m x)"

lemma dfs_mono: "visited \<subseteq> dfs m visited stack"
  by (induction m visited stack rule: dfs.induct) auto

lemma dfs_stack: "set stack \<subseteq> dfs m visited stack"
proof (induction m visited stack rule: dfs.induct)
  case (2 m visited x stack)
  then show ?case
    using dfs_mono [of visited m stack] dfs_mono [of "insert x visited" m "lookup_or [] m x @ stack"]
    by (cases "x \<in> visited") auto
qed simp

lemma dfs_closed:
  assumes "\<forall>x \<in> visited. \<forall>y. fm_step m x y \<longrightarrow> y \<in> visited \<union> set stack"
  shows "\<forall>x \<in> dfs m visited stack. \<forall>y. fm_step m x y \<longrightarrow> y \<in> dfs m visited stack"
  using assms
proof (induction m visited stack rule: dfs.induct)
  case (2 m visited x stack)
  then show ?case by (cases "x \<in> visited") (auto simp: fm_step_def)
qed simp

lemma dfs_sound: "y \<in> dfs m visited stack \<Longrightarrow>
  y \<in> visited \<or> (\<exists>x \<in> set stack. (fm_step m)\<^sup>*\<^sup>* x y)"
proof (induction m visited stack rule: dfs.induct)
  case (2 m visited x stack)
  show ?case
  proof (cases "x \<in> visited")
    case True
    with 2 show ?thesis by auto
  next
    case False
    with 2 have "y \<in> insert x visited \<or> (\<exists>z \<in> set (lookup_or [] m x @ stack). (fm_step m)\<^sup>*\<^sup>* z y)"
      by simp
    moreover have "(fm_step m)\<^sup>*\<^sup>* x y" if "z \<in> set (lookup_or [] m x)" "(fm_step m)\<^sup>*\<^sup>* z y" for z
      by (rule converse_rtranclp_into_rtranclp [of "fm_step m" x z]) (simp_all add: fm_step_def that)
    ultimately show ?thesis by auto
  qed
qed simp

lemma reachable_from_iff:
  "y \<in> reachable_from selected x \<longleftrightarrow> (fm_step (directPrereqs selected))\<^sup>+\<^sup>+ x y"
proof -
  let ?m = "directPrereqs selected"
  let ?r = "dfs ?m {} (lookup_or [] ?m x)"
  have closed: "\<forall>a \<in> ?r. \<forall>b. fm_step ?m a b \<longrightarrow> b \<in> ?r"
    using dfs_closed [of "{}"] by simp
  have "b \<in> ?r" if "(fm_step ?m)\<^sup>+\<^sup>+ x b" for b
    using that
  proof (induction rule: tranclp_induct)
    case (base b)
    then show ?case using dfs_stack by (auto simp: fm_step_def)
  next
    case (step a b)
    then show ?case using closed by blast
  qed
  moreover have "(fm_step ?m)\<^sup>+\<^sup>+ x y" if "y \<in> ?r"
    using dfs_sound [OF that] by (auto simp: fm_step_def intro: rtranclp_into_tranclp2)
  ultimately show ?thesis by (auto simp: reachable_from_def Let_def)
qed

lemma lookup_directPrereqs:
  assumes "distinct (map se_MessageID selected)" and "s \<in> set selected"
  shows "set (lookup_or [] (directPrereqs selected) (se_MessageID s)) =
         e_FromMessageId ` set (se_ViaEdges s) \<inter> se_MessageID ` set selected"
proof -
  define f where "f = (\<lambda>s :: selectionEntry. filter (List.member (map se_MessageID selected))
      (map e_FromMessageId (se_ViaEdges s)))"
  have "lookup_or [] (foldl (\<lambda>m s. fmupd (se_MessageID s) (f s) m) m xs) (se_MessageID s) = f s"
    if "s \<in> set xs" "distinct (map se_MessageID xs)" for m and xs :: "selectionEntry list"
    using that
  proof (induction xs rule: rev_induct)
    case (snoc x xs)
    then show ?case by (auto simp: image_iff)
  qed simp
  then show ?thesis
    using assms by (auto simp: directPrereqs_def Let_def f_def)
qed

section \<open>The recorded paths form a tree\<close>

text \<open>Every path the walk records extends, by one edge, the path of an entry it has
  already selected.\<close>

abbreviation via_ids :: "selectionEntry \<Rightarrow> string list" where
  "via_ids en \<equiv> map e_FromMessageId (se_ViaEdges en)"

definition extends :: "selectionEntry list \<Rightarrow> selectionEntry \<Rightarrow> bool" where
  "extends sel en \<longleftrightarrow> (\<exists>e. e_FromMessageId e = se_MessageID en \<and>
     (se_ViaEdges en = [e] \<or> (\<exists>c \<in> set sel. se_ViaEdges en = se_ViaEdges c @ [e])))"

definition tree_inv ::
  "string set \<Rightarrow> (string, float64) fmap \<Rightarrow> selectionEntry list \<Rightarrow> pqItem list \<Rightarrow> bool" where
  "tree_inv visited below sel pq \<longleftrightarrow>
     (\<forall>en \<in> set sel. extends sel en \<and> distinct (via_ids en) \<and> set (via_ids en) \<subseteq> visited) \<and>
     (\<forall>it \<in> set pq. extends sel (pq_entry it))"

lemma extends_mono: "extends sel en \<Longrightarrow> extends (sel @ xs) en"
  by (auto simp: extends_def)

lemma extends_seed: "extends sel (pq_entry (seed_item e pt))"
  by (auto simp: extends_def seed_item_def)

lemma extends_hop: "en \<in> set sel \<Longrightarrow> extends sel (pq_entry (hop_item en e pt rf))"
  by (auto simp: extends_def hop_item_def Let_def)

lemma tree_inv_skip:
  "tree_inv v b s q \<Longrightarrow> heap_pop lt q = Some (it, q1) \<Longrightarrow> tree_inv v b s q1"
  using pop_set [of lt q it q1] by (simp add: tree_inv_def)

lemma tree_inv_low:
  "tree_inv v b s q \<Longrightarrow> heap_pop lt q = Some (it, q1) \<Longrightarrow> tree_inv (insert x v) b' s q1"
  using pop_set [of lt q it q1] by (auto simp: tree_inv_def)

lemma tree_inv_pick:
  assumes inv: "tree_inv v b s q" and pop: "heap_pop pq_Less q = Some (it, q1)"
    and new: "item_id it \<notin> v"
  shows "tree_inv (insert (item_id it) v) b (s @ [pq_entry it])
          (expand d pt sc cfg rf (insert (item_id it) v) (pq_entry it) q1)"
proof -
  let ?en = "pq_entry it"
  note q = pop_set [OF pop]
  have ext: "extends s ?en" using inv q by (auto simp: tree_inv_def)
  then obtain e where e: "e_FromMessageId e = item_id it"
    "se_ViaEdges ?en = [e] \<or> (\<exists>c \<in> set s. se_ViaEdges ?en = se_ViaEdges c @ [e])"
    by (auto simp: extends_def)
  have old: "distinct (via_ids c) \<and> set (via_ids c) \<subseteq> v" if "c \<in> set s" for c
    using inv that by (simp add: tree_inv_def)
  from e(2) have "distinct (via_ids ?en) \<and> set (via_ids ?en) \<subseteq> insert (item_id it) v"
  proof
    assume "\<exists>c \<in> set s. se_ViaEdges ?en = se_ViaEdges c @ [e]"
    then obtain c where "c \<in> set s" "se_ViaEdges ?en = se_ViaEdges c @ [e]" by blast
    with old [of c] new e(1) show ?thesis by auto
  qed (simp add: e(1))
  moreover have "set (via_ids c) \<subseteq> insert (item_id it) v" if "c \<in> set s" for c
    using old [OF that] by auto
  ultimately show ?thesis
    using inv q ext old unfolding tree_inv_def
    by (auto simp del: set_map simp: set_expand intro: extends_mono extends_hop)
qed

lemma tree_inv_end:
  assumes "extractSubgraph d p pt sc cfg rf = (sel, below)"
  shows "\<exists>visited. tree_inv visited below sel []"
proof (rule select_walk_rule [where P = tree_inv, OF _ _ _ _ assms [unfolded extractSubgraph_def]])
  show "tree_inv {p} fmempty [] (seed_queue d p pt sc cfg)"
    by (auto simp: tree_inv_def set_seed_queue extends_seed)
qed (auto intro: tree_inv_skip tree_inv_low tree_inv_pick)

lemma prefix_selected:
  assumes tree: "\<forall>en \<in> set sel. extends sel en" and "en \<in> set sel" and "j < length (se_ViaEdges en)"
  shows "\<exists>c \<in> set sel. se_ViaEdges c = take (Suc j) (se_ViaEdges en) \<and> se_MessageID c = via_ids en ! j"
  using assms(2,3)
proof (induction "length (se_ViaEdges en)" arbitrary: en)
  case (Suc n)
  from tree Suc.prems have "extends sel en" by blast
  then obtain e where e: "e_FromMessageId e = se_MessageID en"
    "se_ViaEdges en = [e] \<or> (\<exists>c \<in> set sel. se_ViaEdges en = se_ViaEdges c @ [e])"
    unfolding extends_def by blast
  show ?case
  proof (cases "j = n")
    case True
    with e Suc show ?thesis by (auto simp: nth_append intro!: bexI [of _ en])
  next
    case False
    with e Suc obtain c where c: "c \<in> set sel" "se_ViaEdges en = se_ViaEdges c @ [e]" by auto
    with Suc False show ?thesis using Suc.hyps(1) [of c] by (auto simp: nth_append)
  qed
qed simp

lemma reachable_prefix:
  assumes ids: "distinct (map se_MessageID sel)" and tree: "\<forall>en \<in> set sel. extends sel en"
    and en: "en \<in> set sel" "distinct (via_ids en)" and j: "j < length (se_ViaEdges en)"
  shows "reachable_from sel (via_ids en ! j) = set (take (Suc j) (via_ids en))"
proof -
  let ?m = "directPrereqs sel"
  have steps: "fm_step ?m (via_ids en ! i) y \<longleftrightarrow> y \<in> set (take (Suc i) (via_ids en))"
    if i: "i < length (se_ViaEdges en)" for i y
  proof -
    from prefix_selected [OF tree en(1) i] obtain c where
      c: "c \<in> set sel" "se_ViaEdges c = take (Suc i) (se_ViaEdges en)" "se_MessageID c = via_ids en ! i"
      by blast
    have "x \<in> se_MessageID ` set sel" if "x \<in> set (via_ids en)" for x
    proof -
      from that obtain k where "k < length (se_ViaEdges en)" "x = via_ids en ! k"
        by (auto simp: in_set_conv_nth)
      then show ?thesis using prefix_selected [OF tree en(1), of k] by force
    qed
    then have "set (take (Suc i) (via_ids en)) \<subseteq> se_MessageID ` set sel"
      by (meson in_set_takeD subsetI)
    then show ?thesis
      using lookup_directPrereqs [OF ids c(1)] c(2,3) by (auto simp: fm_step_def take_map)
  qed
  have "y \<in> set (take (Suc j) (via_ids en))" if "(fm_step ?m)\<^sup>+\<^sup>+ (via_ids en ! j) y" for y
    using that
  proof (induction rule: tranclp_induct)
    case (base y)
    then show ?case using steps [OF j] by simp
  next
    case (step y z)
    from step(3) obtain k where k: "k \<le> j" "k < length (se_ViaEdges en)" "y = via_ids en ! k"
      using j by (auto simp: in_set_conv_nth) (metis less_Suc_eq_le)
    then have "z \<in> set (take (Suc k) (via_ids en))" using step(2) steps by simp
    then show ?case using k(1) set_take_subset_set_take [of "Suc k" "Suc j" "via_ids en"] by blast
  qed
  moreover have "(fm_step ?m)\<^sup>+\<^sup>+ (via_ids en ! j) y" if "y \<in> set (take (Suc j) (via_ids en))" for y
    using that steps [OF j] by (intro tranclp.r_into_trancl) simp
  ultimately show ?thesis by (auto simp: reachable_from_iff)
qed

lemma prune_via_last:
  assumes "via \<noteq> []" and d: "distinct (map e_FromMessageId via)"
    and reach: "\<And>j. j < length via \<Longrightarrow>
      reach (map e_FromMessageId via ! j) = set (take (Suc j) (map e_FromMessageId via))"
  shows "prune_via reach via = [last via]"
proof -
  obtain xs l where via: "via = xs @ [l]" using assms(1) by (metis append_butlast_last_id)
  let ?red = "\<lambda>e. list_ex (\<lambda>other. e_FromMessageId other \<noteq> e_FromMessageId e \<and>
                    e_FromMessageId e \<in> reach (e_FromMessageId other)) via"
  have top: "reach (e_FromMessageId l) = set (map e_FromMessageId via)"
    using reach [of "length xs"] by (simp add: via nth_append)
  have "?red e" if "e \<in> set xs" for e
    using that d top by (auto simp: via list_ex_iff)
  moreover have "\<not> ?red l"
  proof -
    have "e_FromMessageId l \<notin> reach (e_FromMessageId o')" if o': "o' \<in> set xs" for o'
    proof -
      from o' obtain j where j: "j < length xs" "o' = xs ! j" by (auto simp: in_set_conv_nth)
      then have "reach (e_FromMessageId o') = set (take (Suc j) (map e_FromMessageId xs))"
        using reach [of j] by (simp add: via nth_append)
      then show ?thesis using d by (auto simp: via dest: in_set_takeD)
    qed
    then show ?thesis by (auto simp: via list_ex_iff)
  qed
  ultimately show ?thesis by (auto simp: prune_via_def via filter_empty_conv)
qed

text \<open>What the reduction leaves. After it, an entry of the walk's result keeps exactly the
  last edge of its path, the one that starts at its own message: every earlier edge is
  pruned, because the later messages of the path have it among their recorded
  prerequisites. Nothing else of the entry changes.\<close>

lemma transitiveReduction_last_hop:
  assumes "extractSubgraph d p pt sc cfg rf = (sel, below)"
  shows "transitiveReduction sel =
         map (\<lambda>en. en\<lparr>se_ViaEdges := [last (se_ViaEdges en)]\<rparr>) sel"
proof -
  from tree_inv_end [OF assms] obtain v where tree: "tree_inv v below sel []" by blast
  from sound_inv_end [OF assms] have ids: "distinct (map se_MessageID sel)"
    by (auto simp: sound_inv_def)
  have ext: "\<forall>en \<in> set sel. extends sel en" using tree by (simp add: tree_inv_def)
  have pruned: "prune_via (reachable_from sel) (se_ViaEdges en) = [last (se_ViaEdges en)]"
    if "en \<in> set sel" for en
  proof (rule prune_via_last)
    show d: "distinct (via_ids en)" using tree that by (simp add: tree_inv_def)
    show "se_ViaEdges en \<noteq> []" using ext that by (auto simp: extends_def)
    show "reachable_from sel (via_ids en ! j) = set (take (Suc j) (via_ids en))"
      if "j < length (se_ViaEdges en)" for j
      by (rule reachable_prefix [OF ids ext \<open>en \<in> set sel\<close> d that])
  qed
  show ?thesis
  proof (cases "length sel \<le> 1")
    case True
    have "se_ViaEdges en = [last (se_ViaEdges en)]" if "sel = [en]" for en
      using ext by (auto simp: that extends_def)
    then have "map (\<lambda>en. en\<lparr>se_ViaEdges := [last (se_ViaEdges en)]\<rparr>) sel = sel"
      using True by (cases sel) simp_all
    with True show ?thesis by (simp add: transitiveReduction_def)
  next
    case False
    with pruned show ?thesis by (simp add: transitiveReduction_def)
  qed
qed

lemma transitiveReduction_last_hop_example:
  "transitiveReduction [example_a, example_b] =
   [example_a\<lparr>se_ViaEdges := [last (se_ViaEdges example_a)]\<rparr>,
    example_b\<lparr>se_ViaEdges := [last (se_ViaEdges example_b)]\<rparr>]"
  using transitiveReduction_last_hop [OF example_selection] by simp

end
