(* ===== verification/Provenance.thy ===== *)
theory Provenance
  imports Edge_Dag Go_Heap
begin

text \<open>
  The walk of \<^verbatim>\<open>rrc/provenance.go\<close> over the recorded \<open>generated from\<close> edges. Phase
  one settles at most \<open>provenanceReachCap\<close> messages best-first; phase two sums, over
  every path into the anchor set, the product of the recorded weights, in dependency order.
  Go's \<^verbatim>\<open>==\<close> on floats is false for NaN, so it is written as two comparisons. Ranging
  over the map \<^verbatim>\<open>inReach\<close> only builds the sorted \<^verbatim>\<open>members\<close>, so the order is
  immaterial and the map is kept as the list of its keys.
\<close>

section \<open>Phase one: capped reachability\<close>

definition provenanceReachCap :: nat where
  "provenanceReachCap = 64"

text \<open>\<^verbatim>\<open>contributorsOf\<close>: the incoming provenance relations in scope; its
  \<^verbatim>\<open>provIn\<close> pairs are the edge's source and score.\<close>

definition contributorsOf :: "dag \<Rightarrow> string \<Rightarrow> SelectionScope \<Rightarrow> string \<Rightarrow> Edge list" where
  "contributorsOf d cone scope u =
     filter (\<lambda>e. e_Source e = EDGE_SOURCE_PROVENANCE \<and> scopeAllows e cone scope) (Prerequisites d u)"

definition note_threads :: "Edge list \<Rightarrow> (string, string) fmap \<Rightarrow> (string, string) fmap" where
  "note_threads es threads = foldl (\<lambda>t e. fmupd (e_FromMessageId e) (e_FromThreadId e) t) threads es"

definition clamp01 :: "float64 \<Rightarrow> float64" where
  "clamp01 w = (if w < 0 then 0 else if 1 < w then 1 else w)"

record boundEntry =
  be_id :: string
  be_bound :: float64

definition bound_Less :: "boundEntry \<Rightarrow> boundEntry \<Rightarrow> bool" where
  "bound_Less a b =
     (if \<not> (be_bound a \<le> be_bound b \<and> be_bound b \<le> be_bound a) then be_bound b < be_bound a
      else be_id a < be_id b)"

record reach_state =
  rs_settled :: "string set"
  rs_inReach :: "string list"
  rs_best :: "(string, float64) fmap"
  rs_heap :: "boundEntry list"
  rs_threads :: "(string, string) fmap"

definition reach_push :: "string \<Rightarrow> float64 \<Rightarrow> reach_state \<Rightarrow> reach_state" where
  "reach_push i bound st =
     (if i \<in> rs_settled st then st
      else if (case fmlookup (rs_best st) i of None \<Rightarrow> True | Some cur \<Rightarrow> cur < bound)
      then st\<lparr>rs_best := fmupd i bound (rs_best st),
              rs_heap := heap_push bound_Less \<lparr>be_id = i, be_bound = bound\<rparr> (rs_heap st)\<rparr>
      else st)"

definition reach_expand ::
  "dag \<Rightarrow> string \<Rightarrow> SelectionScope \<Rightarrow> string \<Rightarrow> (float64 \<Rightarrow> float64) \<Rightarrow> reach_state \<Rightarrow> reach_state" where
  "reach_expand d cone scope u f st =
     (let es = contributorsOf d cone scope u in
      foldl (\<lambda>s e. reach_push (e_FromMessageId e) (f (clamp01 (e_Score e))) s)
        (st\<lparr>rs_threads := note_threads es (rs_threads st)\<rparr>) es)"

definition reach_seed :: "dag \<Rightarrow> string list \<Rightarrow> string \<Rightarrow> SelectionScope \<Rightarrow> reach_state" where
  "reach_seed d anchorIDs cone scope =
     foldl (\<lambda>st a. reach_expand d cone scope a (\<lambda>w. w) st)
       \<lparr>rs_settled = set anchorIDs, rs_inReach = [], rs_best = fmempty, rs_heap = [],
        rs_threads = fmempty\<rparr> anchorIDs"

lemma reach_push_frame [simp]:
  "rs_settled (reach_push i b st) = rs_settled st" "rs_inReach (reach_push i b st) = rs_inReach st"
  "rs_threads (reach_push i b st) = rs_threads st"
  by (simp_all add: reach_push_def)

lemma reach_fold_frame [simp]:
  "rs_settled (foldl (\<lambda>s e. reach_push (g e) (h e) s) st es) = rs_settled st"
  "rs_inReach (foldl (\<lambda>s e. reach_push (g e) (h e) s) st es) = rs_inReach st"
  by (induction es arbitrary: st) auto

lemma reach_expand_frame [simp]:
  "rs_settled (reach_expand d cone scope u f st) = rs_settled st"
  "rs_inReach (reach_expand d cone scope u f st) = rs_inReach st"
  by (simp_all add: reach_expand_def Let_def)

lemma reach_push_heap:
  "be_id ` set (rs_heap (reach_push i b st)) \<subseteq> insert i (be_id ` set (rs_heap st))"
  by (auto simp: reach_push_def set_heap_push)

lemma reach_expand_heap:
  "be_id ` set (rs_heap (reach_expand d cone scope u f st)) \<subseteq>
   e_FromMessageId ` set (contributorsOf d cone scope u) \<union> be_id ` set (rs_heap st)"
proof -
  have "be_id ` set (rs_heap (foldl (\<lambda>s e. reach_push (e_FromMessageId e) (h e) s) sx es)) \<subseteq>
      e_FromMessageId ` set es \<union> be_id ` set (rs_heap sx)" for es h and sx :: reach_state
  proof (induction es arbitrary: sx)
    case (Cons e es)
    have "be_id ` set (rs_heap (foldl (\<lambda>s e. reach_push (e_FromMessageId e) (h e) s) sx (e # es))) \<subseteq>
        e_FromMessageId ` set es \<union> be_id ` set (rs_heap (reach_push (e_FromMessageId e) (h e) sx))"
      using Cons.IH by simp
    also have "\<dots> \<subseteq> e_FromMessageId ` set es \<union> insert (e_FromMessageId e) (be_id ` set (rs_heap sx))"
      using reach_push_heap by (intro Un_mono order_refl)
    finally show ?case by simp
  qed simp
  then show ?thesis unfolding reach_expand_def Let_def by (rule order_trans) simp
qed

lemma contributorsOf_source:
  "e \<in> set (contributorsOf d cone scope u) \<Longrightarrow> e_FromMessageId e \<in> dag_sources d"
  by (auto simp: contributorsOf_def intro: Prerequisites_source)

function reach_loop ::
  "dag \<Rightarrow> string \<Rightarrow> SelectionScope \<Rightarrow> reach_state \<Rightarrow> reach_state \<times> bool" where
  "reach_loop d cone scope st =
     (case heap_pop bound_Less (rs_heap st) of
        None \<Rightarrow> (st, False)
      | Some (tp, h) \<Rightarrow>
          let i = be_id tp; b = be_bound tp; st1 = st\<lparr>rs_heap := h\<rparr> in
          if i \<in> rs_settled st \<or> b < lookup_or 0 (rs_best st) i then reach_loop d cone scope st1
          else if provenanceReachCap \<le> length (rs_inReach st) then (st1, True)
          else reach_loop d cone scope
            (reach_expand d cone scope i (\<lambda>w. b * w)
              (st1\<lparr>rs_settled := insert i (rs_settled st), rs_inReach := rs_inReach st @ [i]\<rparr>)))"
  by pat_completeness auto
termination
proof (relation "measures [\<lambda>(d, cone, scope, st).
        card ((dag_sources d \<union> be_id ` set (rs_heap st)) - rs_settled st),
      \<lambda>(d, cone, scope, st). length (rs_heap st)]", goal_cases)
  case 1
  then show ?case by simp
next
  case (2 d cone scope st r tp h i b st1)
  then have pop: "heap_pop bound_Less (rs_heap st) = Some (tp, h)" by simp
  have "card (dag_sources d \<union> be_id ` set h - rs_settled st)
        \<le> card (dag_sources d \<union> be_id ` set (rs_heap st) - rs_settled st)"
    using pop_set [OF pop] by (intro card_mono) auto
  then show ?case using pop_length [OF pop] 2 by auto
next
  case (3 d cone scope st r tp h i b st1)
  then have pop: "heap_pop bound_Less (rs_heap st) = Some (tp, h)" by simp
  note set_h = pop_set [OF pop]
  let ?st = "reach_expand d cone scope i (\<lambda>w. b * w)
      (st1\<lparr>rs_settled := insert i (rs_settled st), rs_inReach := rs_inReach st @ [i]\<rparr>)"
  have "be_id ` set (rs_heap ?st) \<subseteq> dag_sources d \<union> be_id ` set h"
  proof -
    have "be_id ` set (rs_heap ?st) \<subseteq>
        e_FromMessageId ` set (contributorsOf d cone scope i) \<union> be_id ` set h"
      using reach_expand_heap [of d cone scope i "\<lambda>w. b * w" "st1\<lparr>rs_settled := insert i (rs_settled st),
          rs_inReach := rs_inReach st @ [i]\<rparr>"] 3 by simp
    moreover have "e_FromMessageId ` set (contributorsOf d cone scope i) \<subseteq> dag_sources d"
      by (auto intro: contributorsOf_source)
    ultimately show ?thesis by blast
  qed
  then have "dag_sources d \<union> be_id ` set (rs_heap ?st) - insert i (rs_settled st)
        \<subset> dag_sources d \<union> be_id ` set (rs_heap st) - rs_settled st"
    using 3 set_h by auto
  then have "card (dag_sources d \<union> be_id ` set (rs_heap ?st) - insert i (rs_settled st))
        < card (dag_sources d \<union> be_id ` set (rs_heap st) - rs_settled st)"
    by (intro psubset_card_mono) auto
  then show ?case by simp
qed

declare reach_loop.simps [simp del]

section \<open>Phase two: path-sum mass\<close>

type_synonym outgoing_map = "(string, (string \<times> float64) list) fmap"
type_synonym pending_map = "(string, int) fmap"

definition link_edge ::
  "string set \<Rightarrow> string set \<Rightarrow> string \<Rightarrow> outgoing_map \<times> pending_map \<Rightarrow> Edge \<Rightarrow>
   outgoing_map \<times> pending_map" where
  "link_edge anchors inReach u op e =
     (let f = e_FromMessageId e; outgoing = fst op; pending = snd op in
      if f \<in> anchors \<or> f \<notin> inReach then op
      else (fmupd f (lookup_or [] outgoing f @ [(u, e_Score e)]) outgoing,
            if u \<notin> anchors \<and> u \<in> inReach then fmupd f (lookup_or 0 pending f + 1) pending
            else pending))"

definition build_links ::
  "dag \<Rightarrow> string \<Rightarrow> SelectionScope \<Rightarrow> string set \<Rightarrow> string set \<Rightarrow> string list \<Rightarrow>
   outgoing_map \<times> pending_map" where
  "build_links d cone scope anchors inReach targets =
     foldl (\<lambda>op u. foldl (link_edge anchors inReach u) op (contributorsOf d cone scope u))
       (fmempty, fmempty) targets"

record mass_state =
  ms_mass :: "(string, float64) fmap"
  ms_finalized :: "string set"
  ms_pending :: pending_map
  ms_threads :: "(string, string) fmap"

definition mass_sum ::
  "string set \<Rightarrow> string set \<Rightarrow> (string, float64) fmap \<Rightarrow> (string \<times> float64) list \<Rightarrow> float64" where
  "mass_sum anchors inReach mass outs =
     foldl (\<lambda>m (u, w). if u \<in> anchors then m + w
                       else if u \<in> inReach then m + w * lookup_or 0 mass u else m) 0 outs"

definition release ::
  "string set \<Rightarrow> string set \<Rightarrow> pending_map \<times> string list \<Rightarrow> Edge \<Rightarrow> pending_map \<times> string list" where
  "release inReach finalized pf e =
     (let f = e_FromMessageId e; pending = fst pf; freed = snd pf in
      if f \<notin> inReach \<or> f \<in> finalized then pf
      else let n = lookup_or 0 pending f - 1 in
        (fmupd f n pending, if n = 0 then freed @ [f] else freed))"

definition finalize ::
  "dag \<Rightarrow> string \<Rightarrow> SelectionScope \<Rightarrow> string set \<Rightarrow> string set \<Rightarrow> outgoing_map \<Rightarrow> string \<Rightarrow>
   mass_state \<Rightarrow> mass_state \<times> string list" where
  "finalize d cone scope anchors inReach outgoing v st =
     (let m = mass_sum anchors inReach (ms_mass st) (lookup_or [] outgoing v);
          fin = insert v (ms_finalized st);
          es = contributorsOf d cone scope v;
          pf = foldl (release inReach fin) (ms_pending st, []) es
      in (\<lparr>ms_mass = fmupd v m (ms_mass st), ms_finalized = fin, ms_pending = fst pf,
           ms_threads = note_threads es (ms_threads st)\<rparr>,
          sort (snd pf)))"

lemma release_freed: "set (snd (foldl (release R fin) pf es)) \<subseteq> set (snd pf) \<union> (R - fin)"
proof (induction es arbitrary: pf)
  case (Cons e es)
  have "set (snd (release R fin pf e)) \<subseteq> set (snd pf) \<union> (R - fin)"
    by (auto simp: release_def Let_def)
  then show ?case using Cons.IH [of "release R fin pf e"] by (simp only: foldl_Cons) blast
qed simp

lemma finalize_frame:
  assumes "finalize d cone scope A R outgoing v st = (st', freed)"
  shows "ms_finalized st' = insert v (ms_finalized st)" and "set freed \<subseteq> R - ms_finalized st'"
proof -
  show fin: "ms_finalized st' = insert v (ms_finalized st)"
    using assms by (auto simp: finalize_def Let_def)
  have "set freed = set (snd (foldl (release R (insert v (ms_finalized st)))
      (ms_pending st, []) (contributorsOf d cone scope v)))"
    using assms by (auto simp: finalize_def Let_def)
  then show "set freed \<subseteq> R - ms_finalized st'"
    using release_freed [of R "insert v (ms_finalized st)" "(ms_pending st, [])"
        "contributorsOf d cone scope v"] fin by simp
qed

text \<open>The work queue.\<close>

function mass_loop ::
  "dag \<Rightarrow> string \<Rightarrow> SelectionScope \<Rightarrow> string set \<Rightarrow> string list \<Rightarrow> outgoing_map \<Rightarrow> string list \<Rightarrow>
   mass_state \<Rightarrow> mass_state" where
  "mass_loop d cone scope anchors members outgoing [] st = st"
| "mass_loop d cone scope anchors members outgoing (v # queue) st =
     (if v \<in> ms_finalized st then mass_loop d cone scope anchors members outgoing queue st
      else case finalize d cone scope anchors (set members) outgoing v st of
        (st', freed) \<Rightarrow> mass_loop d cone scope anchors members outgoing (queue @ freed) st')"
  by pat_completeness auto
termination
proof (relation "measures [\<lambda>(d, cone, scope, anchors, members, outgoing, queue, st).
        card (set members \<union> set queue - ms_finalized st),
      \<lambda>(d, cone, scope, anchors, members, outgoing, queue, st). length queue]", goal_cases)
  case 1
  then show ?case by simp
next
  case (2 d cone scope anchors members outgoing v queue st)
  have "card (set members \<union> set queue - ms_finalized st)
      \<le> card (set members \<union> set (v # queue) - ms_finalized st)"
    by (intro card_mono) auto
  then show ?case by auto
next
  case (3 d cone scope anchors members outgoing v queue st st' freed)
  from 3 have "finalize d cone scope anchors (set members) outgoing v st = (st', freed)" by simp
  note fr = finalize_frame [OF this]
  have "set members \<union> set (queue @ freed) - ms_finalized st'
      \<subset> set members \<union> set (v # queue) - ms_finalized st"
    using 3(1) fr by auto
  then have "card (set members \<union> set (queue @ freed) - ms_finalized st')
      < card (set members \<union> set (v # queue) - ms_finalized st)"
    by (intro psubset_card_mono) auto
  then show ?case by simp
qed

definition mass_leftovers ::
  "dag \<Rightarrow> string \<Rightarrow> SelectionScope \<Rightarrow> string set \<Rightarrow> string list \<Rightarrow> outgoing_map \<Rightarrow> mass_state \<Rightarrow> mass_state" where
  "mass_leftovers d cone scope anchors members outgoing st =
     foldl (\<lambda>s v. if v \<in> ms_finalized s then s
                  else fst (finalize d cone scope anchors (set members) outgoing v s)) st members"

definition provenanceMassWalk ::
  "dag \<Rightarrow> string list \<Rightarrow> string \<Rightarrow> SelectionScope \<Rightarrow>
   (string, float64) fmap \<times> (string, string) fmap \<times> bool" where
  "provenanceMassWalk d anchorIDs cone scope =
     (case reach_loop d cone scope (reach_seed d anchorIDs cone scope) of
        (rs, truncated) \<Rightarrow>
          let members = sort (rs_inReach rs);
              targets = sort (anchorIDs @ members);
              links = build_links d cone scope (set anchorIDs) (set members) targets;
              ready = filter (\<lambda>v. lookup_or 0 (snd links) v = 0) members;
              st0 = \<lparr>ms_mass = fmempty, ms_finalized = {}, ms_pending = snd links,
                     ms_threads = rs_threads rs\<rparr>;
              st1 = mass_loop d cone scope (set anchorIDs) members (fst links) ready st0;
              st2 = mass_leftovers d cone scope (set anchorIDs) members (fst links) st1
          in (ms_mass st2, ms_threads st2, truncated))"

definition ProvenanceMass ::
  "Edge list \<Rightarrow> string list \<Rightarrow> string \<Rightarrow> SelectionScope \<Rightarrow> (string, float64) fmap \<times> bool" where
  "ProvenanceMass edges anchorIDs cone scope =
     (case provenanceMassWalk (AddEdges_dag newDAG edges) anchorIDs cone scope of
        (mass, threads, truncated) \<Rightarrow> (mass, truncated))"

end
