(* ===== verification/Engine.thy ===== *)
theory Engine
  imports Selection_Reduction Provenance Predicate_Algebra
begin

text \<open>
  \<^verbatim>\<open>rrc/engine.go\<close>, \<^verbatim>\<open>rrc/score_cache.go\<close> and the graph mutators of
  \<^verbatim>\<open>rrc/provenance.go\<close>: the engine's state and its operations other than prerequisite
  selection and assembly. Operations run under the engine's mutex, so each is one step on
  the state. The scorer and the chunk oracle are interfaces whose implementations are not
  part of the engine: they are fields holding functions. A nil interface, closure or map is
  \<open>None\<close>. The edge filter may rewrite the edge it is given (\<open>Some\<close> of the edge to
  admit) or veto it. The score persister is a callback; its calls are kept as a trace.
\<close>

section \<open>Score cache\<close>

record scoreKey =
  sk_Fingerprint :: string
  sk_ChunkIndex :: nat
  sk_CandidateMsgID :: string
  sk_CandidateChunkIdx :: int

record PersistedScore =
  ps_Key :: scoreKey
  ps_Score :: float64

record scoreCache =
  sc_scores :: "(scoreKey, float64) fmap"
  sc_persist :: bool
  sc_persisted :: "PersistedScore list"

definition newScoreCache :: scoreCache where
  "newScoreCache = \<lparr>sc_scores = fmempty, sc_persist = False, sc_persisted = []\<rparr>"

definition setPersister :: "bool \<Rightarrow> scoreCache \<Rightarrow> scoreCache" where
  "setPersister p sc = sc\<lparr>sc_persist := p\<rparr>"

definition setLocalContext :: "scoreKey \<Rightarrow> float64 \<Rightarrow> scoreCache \<Rightarrow> scoreCache" where
  "setLocalContext k score sc =
     sc\<lparr>sc_scores := fmupd k score (sc_scores sc),
        sc_persisted := (if sc_persist sc then sc_persisted sc @ [\<lparr>ps_Key = k, ps_Score = score\<rparr>]
                         else sc_persisted sc)\<rparr>"

definition getLocalContext :: "scoreCache \<Rightarrow> scoreKey \<Rightarrow> float64 option" where
  "getLocalContext sc k = fmlookup (sc_scores sc) k"

definition loadSilent :: "scoreKey \<Rightarrow> float64 \<Rightarrow> scoreCache \<Rightarrow> scoreCache" where
  "loadSilent k score sc = sc\<lparr>sc_scores := fmupd k score (sc_scores sc)\<rparr>"

section \<open>The engine\<close>

record ChunkRef =
  cr_MessageID :: string
  cr_ChunkIndex :: int
  cr_ThreadID :: string
  cr_Text :: string
  cr_Vector :: "float64 list"
  cr_RetrievalScore :: float64

record ChunkOracle =
  ChunksForMessages :: "string list \<Rightarrow> rrc_error + (string, ChunkRef list) fmap"
  EnsureVector :: "ChunkRef \<Rightarrow> rrc_error + float64 list"
  NearestChunks :: "string \<Rightarrow> int \<Rightarrow> Predicate \<Rightarrow> rrc_error + ChunkRef list"
  RepresentativeVectors :: "string list \<Rightarrow> rrc_error + (string, float64 list) fmap"
  RandomChunks :: "nat \<Rightarrow> 64 word \<Rightarrow> Predicate \<Rightarrow> rrc_error + ChunkRef list"

type_synonym Scorer = "string \<Rightarrow> string list \<Rightarrow> rrc_error + float64 list"

record Engine =
  en_scorer :: "Scorer option"
  en_dag :: dag
  en_scores :: scoreCache
  en_cfg :: EngineConfig
  en_oracle :: "ChunkOracle option"
  en_edgeFilter :: "(Edge \<Rightarrow> Edge option) option"
  en_price :: "(string, float64) fmap option"

definition lastPrice :: "Engine \<Rightarrow> string \<Rightarrow> float64" where
  "lastPrice e threadID = (case en_price e of None \<Rightarrow> 0 | Some m \<Rightarrow> lookup_or 0 m threadID)"

text \<open>Writing to a nil map panics.\<close>

definition setPrice :: "string \<Rightarrow> float64 \<Rightarrow> Engine \<Rightarrow> rrc_error + Engine" where
  "setPrice threadID mu e =
     (case en_price e of
        None \<Rightarrow> Inl (Panic ''assignment to entry in nil map'')
      | Some m \<Rightarrow> Inr (e\<lparr>en_price := Some (fmupd threadID mu m)\<rparr>))"

datatype EngineOption =
    WithChunkOracle ChunkOracle
  | WithScorePersister
  | WithLoadedEdges "Edge list"
  | WithEdgeFilter "Edge \<Rightarrow> Edge option"
  | WithLoadedScores "PersistedScore list"

fun apply_option :: "Engine \<Rightarrow> EngineOption \<Rightarrow> Engine" where
  "apply_option e (WithChunkOracle orc) = e\<lparr>en_oracle := Some orc\<rparr>"
| "apply_option e WithScorePersister = e\<lparr>en_scores := setPersister True (en_scores e)\<rparr>"
| "apply_option e (WithLoadedEdges es) = e\<lparr>en_dag := AddEdges_dag (en_dag e) es\<rparr>"
| "apply_option e (WithEdgeFilter f) = e\<lparr>en_edgeFilter := Some f\<rparr>"
| "apply_option e (WithLoadedScores ps) =
     e\<lparr>en_scores := foldl (\<lambda>sc p. loadSilent (ps_Key p) (ps_Score p) sc) (en_scores e) ps\<rparr>"

definition NewEngine :: "EngineConfig \<Rightarrow> Scorer option \<Rightarrow> EngineOption list \<Rightarrow> rrc_error + Engine" where
  "NewEngine cfg sc opts =
     (if c_Estimator (cfg_Chunk cfg) = None
      then Inl (Panic ''EngineConfig.Chunk.Estimator is nil'')
      else Inr (foldl apply_option
        \<lparr>en_scorer = sc, en_dag = newDAG, en_scores = newScoreCache, en_cfg = cfg,
         en_oracle = None, en_edgeFilter = None, en_price = Some fmempty\<rparr> opts))"

text \<open>The edge that entered the graph, or \<open>None\<close> when the filter dropped it.\<close>

definition admitEdge :: "Edge \<Rightarrow> Engine \<Rightarrow> Engine \<times> Edge option" where
  "admitEdge edge e =
     (case (case en_edgeFilter e of None \<Rightarrow> Some edge | Some f \<Rightarrow> f edge) of
        None \<Rightarrow> (e, None)
      | Some edge' \<Rightarrow> (e\<lparr>en_dag := AddEdge (en_dag e) edge'\<rparr>, Some edge'))"

definition admit_step :: "Engine \<times> Edge list \<Rightarrow> Edge \<Rightarrow> Engine \<times> Edge list" where
  "admit_step s edge =
     (case admitEdge edge (fst s) of
        (e', None) \<Rightarrow> (e', snd s) | (e', Some edge') \<Rightarrow> (e', snd s @ [edge']))"

definition AddEdges :: "Edge list \<Rightarrow> Engine \<Rightarrow> Engine \<times> Edge list" where
  "AddEdges edges e = foldl admit_step (e, []) edges"

section \<open>Recording provenance\<close>

record Contributor =
  ct_MessageID :: string
  ct_ThreadID :: string
  ct_Weight :: float64

text \<open>The contributors that survive the guards: not empty, not the anchor, not seen before.\<close>

fun fresh_contributors :: "string \<Rightarrow> string set \<Rightarrow> Contributor list \<Rightarrow> Contributor list" where
  "fresh_contributors anchorID seen [] = []"
| "fresh_contributors anchorID seen (c # cs) =
     (if ct_MessageID c = [] \<or> ct_MessageID c = anchorID \<or> ct_MessageID c \<in> seen
      then fresh_contributors anchorID seen cs
      else c # fresh_contributors anchorID (insert (ct_MessageID c) seen) cs)"

definition provenance_edge :: "int \<Rightarrow> EngineConfig \<Rightarrow> Message \<Rightarrow> Contributor \<Rightarrow> Edge" where
  "provenance_edge now cfg anchor c =
     \<lparr>e_FromMessageId = ct_MessageID c, e_ToMessageId = m_Id anchor, e_Score = float32 (ct_Weight c),
      e_Source = EDGE_SOURCE_PROVENANCE, e_CrossEncoderScore = 0, e_DetectedAt = now,
      e_FromThreadId = ct_ThreadID c, e_ToThreadId = m_ThreadId anchor,
      e_ScorerModel = cfg_ScorerModelID cfg\<rparr>"

text \<open>\<open>now\<close> gives the successive readings of the clock.\<close>

definition RecordProvenance ::
  "(nat \<Rightarrow> int) \<Rightarrow> Message option \<Rightarrow> Contributor list \<Rightarrow> Engine \<Rightarrow> Engine \<times> Edge list" where
  "RecordProvenance now anchor contributors e =
     (case anchor of
        None \<Rightarrow> (e, [])
      | Some a \<Rightarrow>
          foldl admit_step (e, [])
            (map (\<lambda>(i, c). provenance_edge (now i) (en_cfg e) a c)
              (List.enumerate 0 (fresh_contributors (m_Id a) {} contributors))))"

section \<open>Select\<close>

definition selected_message :: "selectionEntry \<Rightarrow> SelectedMessage" where
  "selected_message item =
     \<lparr>sm_MessageId = se_MessageID item, sm_EffectiveScore = float32 (se_EffectiveScore item),
      sm_HopDepth = wrap32 (se_HopDepth item), sm_ViaEdges = se_ViaEdges item, sm_ThreadId = se_ThreadID item,
      sm_CrossThread = se_CrossThread item, sm_ProvenanceWeight = float32 (se_ProvenanceWeight item)\<rparr>"

text \<open>\<open>ks\<close> is the order in which the map \<^verbatim>\<open>belowFloor\<close> is ranged.\<close>

definition excluded_below ::
  "string list \<Rightarrow> string set \<Rightarrow> (string, float64) fmap \<Rightarrow> ExcludedMessage list" where
  "excluded_below ks selectedIDs belowFloor =
     map (\<lambda>k. \<lparr>xm_MessageId = k, xm_Reason = EXCLUSION_REASON_BELOW_THRESHOLD,
               xm_Score = float32 (lookup_or 0 belowFloor k)\<rparr>)
       (filter (\<lambda>k. k \<notin> selectedIDs) ks)"

definition excluded_scope ::
  "dag \<Rightarrow> string \<Rightarrow> string \<Rightarrow> SelectionScope \<Rightarrow> string set \<Rightarrow> (string, float64) fmap \<Rightarrow>
   ExcludedMessage list" where
  "excluded_scope d anchorID threadID scope selectedIDs belowFloor =
     map (\<lambda>edge. \<lparr>xm_MessageId = e_FromMessageId edge, xm_Reason = EXCLUSION_REASON_UNSPECIFIED,
                  xm_Score = e_Score edge\<rparr>)
       (filter (\<lambda>edge. \<not> (e_FromMessageId edge \<in> selectedIDs \<or>
                           0 < lookup_or 0 belowFloor (e_FromMessageId edge)) \<and>
                        \<not> scopeAllows edge threadID scope)
         (Prerequisites d anchorID))"

definition selectLocked ::
  "string list \<Rightarrow> string \<Rightarrow> SelectionScope \<Rightarrow> string \<Rightarrow> float64 list \<Rightarrow> Engine \<Rightarrow>
   rrc_error + SelectionResult" where
  "selectLocked ks anchorID scope threadID refFloor e =
     (if scope = SELECTION_SCOPE_THREAD \<and> threadID = [] then Inl ErrThreadNotFound
      else case extractSubgraph (en_dag e) anchorID threadID scope (en_cfg e) refFloor of
        (sel, belowFloor) \<Rightarrow>
          let selected = transitiveReduction sel; ids = se_MessageID ` set selected in
          Inr \<lparr>sr_EventId = ''sel-'' @ anchorID, sr_Scope = scope, sr_ThreadId = threadID,
               sr_Selected = map selected_message selected,
               sr_Excluded = excluded_below ks ids belowFloor @
                             excluded_scope (en_dag e) anchorID threadID scope ids belowFloor,
               sr_LocalContextFingerprint = '''', sr_LocalContextMessageIds = [],
               sr_AnchorMessageId = anchorID\<rparr>)"

definition Select ::
  "string list \<Rightarrow> string \<Rightarrow> SelectionScope \<Rightarrow> string \<Rightarrow> Engine \<Rightarrow> rrc_error + SelectionResult" where
  "Select ks anchorID scope threadID e = selectLocked ks anchorID scope threadID [] e"

section \<open>Diversity reranking\<close>

definition cosineSim :: "float64 list \<Rightarrow> float64 list \<Rightarrow> float64" where
  "cosineSim a b =
     (if length a \<noteq> length b \<or> length a = 0 then 0
      else let dot = foldl (\<lambda>s (x, y). s + x * y) 0 (zip a b);
               normA = foldl (\<lambda>s x. s + x * x) 0 a;
               normB = foldl (\<lambda>s y. s + y * y) 0 b;
               denom = math_Sqrt normA * math_Sqrt normB
           in if denom = 0 then 0 else dot / denom)"

definition max_sim :: "float64 list \<Rightarrow> float64 \<Rightarrow> float64 list list \<Rightarrow> float64" where
  "max_sim candVec start vecs =
     foldl (\<lambda>m v. let s = cosineSim candVec v in if m < s then s else m) start vecs"

definition simToKept ::
  "(string, float64 list) fmap \<Rightarrow> float64 list list \<Rightarrow> float64 list option \<Rightarrow>
   SelectedMessage list \<Rightarrow> float64" where
  "simToKept repVecs queryVecs candVec kept =
     (case candVec of
        None \<Rightarrow> 0
      | Some cv \<Rightarrow>
          let m = max_sim cv (max_sim cv 0 queryVecs)
                (List.map_filter (\<lambda>k. fmlookup repVecs (sm_MessageId k)) kept)
          in if m < 0 then 0 else if 1 < m then 1 else m)"

text \<open>The scan for the largest value, from index \<open>i\<close> on; \<open>best\<close> stays unset when no
  value beats the start.\<close>

fun argmax_scan ::
  "(SelectedMessage \<Rightarrow> float64) \<Rightarrow> SelectedMessage list \<Rightarrow> nat \<Rightarrow> nat option \<Rightarrow> float64 \<Rightarrow>
   nat option \<times> float64" where
  "argmax_scan f [] i best bestScore = (best, bestScore)"
| "argmax_scan f (c # cs) i best bestScore =
     (if bestScore < f c then argmax_scan f cs (Suc i) (Some i) (f c)
      else argmax_scan f cs (Suc i) best bestScore)"

lemma argmax_scan_bound:
  "argmax_scan f cs i best bs = (Some j, s) \<Longrightarrow> best = Some j \<or> (i \<le> j \<and> j < i + length cs)"
  by (induction cs arbitrary: i best bs) (force split: if_splits)+

definition remove_nth :: "nat \<Rightarrow> 'a list \<Rightarrow> 'a list" where
  "remove_nth i xs = take i xs @ drop (Suc i) xs"

lemma length_remove_nth: "i < length xs \<Longrightarrow> length (remove_nth i xs) < length xs"
  by (simp add: remove_nth_def)

text \<open>The greedy loop; indexing with -1, when no candidate compares above minus infinity, is
  the panic \<open>None\<close>.\<close>

function mmr_loop ::
  "(SelectedMessage list \<Rightarrow> SelectedMessage \<Rightarrow> float64) \<Rightarrow> SelectedMessage list \<Rightarrow>
   SelectedMessage list \<Rightarrow> SelectedMessage list option" where
  "mmr_loop eff remaining out =
     (if remaining = [] then Some out
      else case argmax_scan (eff out) remaining 0 None NInf of
        (None, s) \<Rightarrow> None
      | (Some i, s) \<Rightarrow> mmr_loop eff (remove_nth i remaining)
          (out @ [(remaining ! i)\<lparr>sm_EffectiveScore := float32 s\<rparr>]))"
  by pat_completeness auto
termination
  by (relation "measure (\<lambda>(eff, remaining, out). length remaining)")
     (auto dest!: sym [of "(Some _, _)"] argmax_scan_bound simp: length_remove_nth)

declare mmr_loop.simps [simp del]

definition mmr_first ::
  "(SelectedMessage list \<Rightarrow> SelectedMessage \<Rightarrow> float64) \<Rightarrow> bool \<Rightarrow> SelectedMessage list \<Rightarrow>
   SelectedMessage list option" where
  "mmr_first eff queried remaining =
     (case argmax_scan (eff []) remaining 0 (Some 0) NInf of
        (best, s) \<Rightarrow>
          let i = the best; pick = remaining ! i in
          mmr_loop eff (remove_nth i remaining)
            [if queried then pick\<lparr>sm_EffectiveScore := float32 s\<rparr> else pick])"

definition original_scores :: "SelectedMessage list \<Rightarrow> (string, float64) fmap" where
  "original_scores selected =
     foldl (\<lambda>m item. fmupd (sm_MessageId item) (sm_EffectiveScore item) m) fmempty selected"

text \<open>On an error the caller gets its input back; \<open>Inl\<close> carries only the error.\<close>

definition ApplyMMR ::
  "SelectedMessage list \<Rightarrow> string list \<Rightarrow> Engine \<Rightarrow> rrc_error + SelectedMessage list" where
  "ApplyMMR selected queryIDs e =
     (if length selected \<le> 1 then Inr selected
      else case en_oracle e of
        None \<Rightarrow> Inl (ErrOther ''ApplyMMR: no chunk oracle configured'')
      | Some orc \<Rightarrow>
          (case RepresentativeVectors orc (map sm_MessageId selected @ queryIDs) of
             Inl err \<Rightarrow> Inl err
           | Inr repVecs \<Rightarrow>
               if fmdom repVecs = {||} then Inr selected
               else let original = original_scores selected;
                        queryVecs = List.map_filter (fmlookup repVecs) queryIDs;
                        eff = (\<lambda>kept c. lookup_or 0 original (sm_MessageId c) *
                                 (1 - simToKept repVecs queryVecs (fmlookup repVecs (sm_MessageId c)) kept));
                        remaining = sort_stable (\<lambda>a b. lookup_or 0 original (sm_MessageId b) <
                                                        lookup_or 0 original (sm_MessageId a)) selected
                    in (case mmr_first eff (queryVecs \<noteq> []) remaining of
                          None \<Rightarrow> Inl (Panic ''index out of range [-1]'')
                        | Some out \<Rightarrow> Inr out)))"

section \<open>Fork and merge\<close>

text \<open>\<open>ks\<close> ranges the backward map of the graph, \<open>qs\<close> the score map. The fork's
  engine value leaves the price map nil.\<close>

definition load_scores :: "scoreKey list \<Rightarrow> (scoreKey, float64) fmap \<Rightarrow> scoreCache \<Rightarrow> scoreCache" where
  "load_scores qs m sc = foldl (\<lambda>s k. loadSilent k (lookup_or 0 m k) s) sc qs"

definition Fork :: "string list \<Rightarrow> scoreKey list \<Rightarrow> Engine \<Rightarrow> Engine" where
  "Fork ks qs e =
     \<lparr>en_scorer = en_scorer e, en_dag = AddEdges_dag newDAG (AllEdges ks (en_dag e)),
      en_scores = load_scores qs (sc_scores (en_scores e))
                    (setPersister (sc_persist (en_scores e)) newScoreCache),
      en_cfg = en_cfg e, en_oracle = en_oracle e, en_edgeFilter = en_edgeFilter e, en_price = None\<rparr>"

definition merge_score :: "(scoreKey, float64) fmap \<Rightarrow> scoreCache \<Rightarrow> scoreKey \<Rightarrow> scoreCache" where
  "merge_score m sc k =
     (if sk_Fingerprint k = [] then sc
      else if getLocalContext sc k \<noteq> None then sc
      else setLocalContext k (lookup_or 0 m k) sc)"

definition Merge :: "string list \<Rightarrow> scoreKey list \<Rightarrow> Engine \<Rightarrow> Engine \<Rightarrow> Engine" where
  "Merge ks qs fork e =
     e\<lparr>en_dag := AddEdges_dag (en_dag e) (AllEdges ks (en_dag fork)),
       en_scores := foldl (merge_score (sc_scores (en_scores fork))) (en_scores e) qs\<rparr>"

end
