(* ===== verification/Engine_Correct.thy ===== *)
theory Engine_Correct
  imports Engine
begin

text \<open>
  Properties of the engine's operations: what a recorded provenance event leaves in the
  graph, that a fork selects as its parent does, what a merge brings back, the result of a
  selection, and that diversity reranking only reorders and discounts.
\<close>

section \<open>Admission\<close>

definition admitted :: "Engine \<Rightarrow> Edge \<Rightarrow> Edge option" where
  "admitted e edge = (case en_edgeFilter e of None \<Rightarrow> Some edge | Some f \<Rightarrow> f edge)"

lemma admitEdge_eq:
  "admitEdge edge e = (case admitted e edge of None \<Rightarrow> (e, None)
     | Some x \<Rightarrow> (e\<lparr>en_dag := AddEdge (en_dag e) x\<rparr>, Some x))"
  by (simp add: admitEdge_def admitted_def)

lemma admitted_dag [simp]: "admitted (e\<lparr>en_dag := d\<rparr>) = admitted e"
  by (simp add: admitted_def fun_eq_iff)

lemma admit_fold:
  "foldl admit_step (e, acc) xs =
   (e\<lparr>en_dag := AddEdges_dag (en_dag e) (List.map_filter (admitted e) xs)\<rparr>,
    acc @ List.map_filter (admitted e) xs)"
proof (induction xs arbitrary: e acc)
  case (Cons x xs)
  then show ?case
    by (cases "admitted e x") (simp_all add: admit_step_def admitEdge_eq map_filter_simps)
qed (simp add: map_filter_simps)

section \<open>Recorded provenance\<close>

lemma fresh_contributors_spec:
  "distinct (map ct_MessageID (fresh_contributors a seen cs)) \<and>
   ct_MessageID ` set (fresh_contributors a seen cs) = ct_MessageID ` set cs - insert [] (insert a seen)"
  by (induction cs arbitrary: seen) auto

lemma map_enumerate_snd: "map (f \<circ> snd) (List.enumerate n xs) = map f xs"
  by (induction xs arbitrary: n) auto

text \<open>C29: what recording provenance leaves behind. The edges returned are exactly the edges
  appended to the graph, and nothing else of the engine changes. Without an edge filter there
  is one provenance edge into the anchor for every distinct contributor other than the anchor
  itself and the empty id.\<close>

theorem RecordProvenance_graph:
  assumes "RecordProvenance now (Some a) cs e = (e', es)"
  shows "e' = e\<lparr>en_dag := AddEdges_dag (en_dag e) es\<rparr> \<and>
         (en_edgeFilter e = None \<longrightarrow>
            distinct (map e_FromMessageId es) \<and>
            e_FromMessageId ` set es = ct_MessageID ` set cs - {[], m_Id a} \<and>
            list_all (\<lambda>x. e_ToMessageId x = m_Id a \<and> e_ToThreadId x = m_ThreadId a \<and>
              e_Source x = EDGE_SOURCE_PROVENANCE) es)"
proof -
  let ?fs = "fresh_contributors (m_Id a) {} cs"
  let ?xs = "map (\<lambda>(i, c). provenance_edge (now i) (en_cfg e) a c) (List.enumerate 0 ?fs)"
  have r: "e' = e\<lparr>en_dag := AddEdges_dag (en_dag e) es\<rparr>" "es = List.map_filter (admitted e) ?xs"
    using assms by (auto simp: RecordProvenance_def admit_fold)
  have ids: "map e_FromMessageId ?xs = map ct_MessageID ?fs"
  proof -
    have "map e_FromMessageId ?xs = map (ct_MessageID \<circ> snd) (List.enumerate 0 ?fs)"
      by (auto simp: provenance_edge_def)
    then show ?thesis by (simp only: map_enumerate_snd)
  qed
  define xs where "xs = ?xs"
  have "es = xs" if "en_edgeFilter e = None"
  proof -
    have "admitted e = Some" using that by (simp add: admitted_def fun_eq_iff)
    then have "List.map_filter (admitted e) xs = xs" for xs
      by (induction xs) (simp_all add: map_filter_simps)
    with r(2) show ?thesis by (simp add: xs_def)
  qed
  moreover have "distinct (map e_FromMessageId xs)"
    "set (map e_FromMessageId xs) = ct_MessageID ` set cs - {[], m_Id a}"
    unfolding xs_def ids using fresh_contributors_spec [of "m_Id a" "{}" cs] by simp_all
  moreover have "list_all (\<lambda>x. e_ToMessageId x = m_Id a \<and> e_ToThreadId x = m_ThreadId a \<and>
      e_Source x = EDGE_SOURCE_PROVENANCE) xs"
    unfolding xs_def by (auto simp: list_all_iff provenance_edge_def)
  ultimately show ?thesis using r(1) by simp
qed

section \<open>Fork and merge\<close>

text \<open>The selection walk reads the graph only through its prerequisites.\<close>

lemma expand_cong:
  "Prerequisites d = Prerequisites d' \<Longrightarrow> expand d pt sc cfg rf v en q = expand d' pt sc cfg rf v en q"
  by (simp add: expand_def)

lemma select_walk_cong:
  "Prerequisites d = Prerequisites d' \<Longrightarrow>
   select_walk d pt sc cfg rf v b s q = select_walk d' pt sc cfg rf v b s q"
proof (induction d pt sc cfg rf v b s q rule: select_walk.induct)
  case (1 d pt sc cfg rf v b s q)
  show ?case
    by (subst (1 2) select_walk.simps)
       (auto simp: Let_def "1.IH" "1.prems" expand_cong [OF "1.prems", symmetric] split: option.splits prod.splits)
qed

lemma extractSubgraph_cong:
  assumes "Prerequisites d = Prerequisites d'"
  shows "extractSubgraph d p pt sc cfg rf = extractSubgraph d' p pt sc cfg rf"
  unfolding extractSubgraph_def seed_queue_def assms by (rule select_walk_cong [OF assms])

lemma load_scores_lookup:
  "fmlookup (sc_scores (load_scores qs m sc)) k =
     (if k \<in> set qs then Some (lookup_or 0 m k) else fmlookup (sc_scores sc) k)"
proof -
  have "fmlookup (sc_scores (foldl (\<lambda>s k. loadSilent k (lookup_or 0 m k) s) sc qs)) k =
      (if k \<in> set qs then Some (lookup_or 0 m k) else fmlookup (sc_scores sc) k)"
    by (induction qs arbitrary: sc) (auto simp: loadSilent_def)
  then show ?thesis by (simp add: load_scores_def)
qed

lemma iteration_lookup:
  "iteration_order m qs \<Longrightarrow> (if k \<in> set qs then Some (lookup_or z m k) else None) = fmlookup m k"
  by (cases "fmlookup m k") (auto simp: iteration_order_def lookup_or_def fmdom_notI fmdomI)

lemma Fork_Prerequisites:
  "iteration_order (d_backward (en_dag e)) ks \<Longrightarrow> dag_keyed (en_dag e) \<Longrightarrow>
   Prerequisites (en_dag (Fork ks qs e)) = Prerequisites (en_dag e)"
  by (rule ext) (simp add: Fork_def reload_Prerequisites)

lemma Fork_scores:
  "iteration_order (sc_scores (en_scores e)) qs \<Longrightarrow>
   sc_scores (en_scores (Fork ks qs e)) = sc_scores (en_scores e)"
  by (rule fmap_ext, subst iteration_lookup [of "sc_scores (en_scores e)" qs _ "Fin 0", symmetric])
     (simp_all add: Fork_def load_scores_lookup setPersister_def newScoreCache_def)

text \<open>C27: a fork answers as its parent. Whatever order the maps are ranged in, a fork of an
  engine has the parent's prerequisites for every message and the parent's cached scores, and
  every selection on the fork returns what it returns on the parent.\<close>

theorem Fork_faithful:
  assumes "iteration_order (d_backward (en_dag e)) ks" and "dag_keyed (en_dag e)"
    and "iteration_order (sc_scores (en_scores e)) qs"
  shows "Prerequisites (en_dag (Fork ks qs e)) = Prerequisites (en_dag e) \<and>
         sc_scores (en_scores (Fork ks qs e)) = sc_scores (en_scores e) \<and>
         selectLocked bs anchor scope t rf (Fork ks qs e) = selectLocked bs anchor scope t rf e"
proof -
  note P = Fork_Prerequisites [OF assms(1,2), of qs]
  have "en_cfg (Fork ks qs e) = en_cfg e" by (simp add: Fork_def)
  then show ?thesis
    using P Fork_scores [OF assms(3), of ks] extractSubgraph_cong [OF P]
    by (simp add: selectLocked_def excluded_scope_def)
qed

lemma merge_score_lookup:
  "getLocalContext (foldl (merge_score m) sc qs) k =
     (case getLocalContext sc k of
        Some s \<Rightarrow> Some s
      | None \<Rightarrow> if k \<in> set qs \<and> sk_Fingerprint k \<noteq> [] then Some (lookup_or 0 m k) else None)"
  by (induction qs arbitrary: sc)
     (auto simp: merge_score_def getLocalContext_def setLocalContext_def split: option.splits)

text \<open>C28: what a merge brings back. The prerequisites of every message are the parent's
  followed by the fork's; a cached score of the parent is kept, and a score only the fork has
  is taken over when it belongs to a serialized Local Context.\<close>

theorem Merge_combines:
  assumes "iteration_order (d_backward (en_dag fork)) ks" and "dag_keyed (en_dag fork)"
    and "iteration_order (sc_scores (en_scores fork)) qs"
  shows "Prerequisites (en_dag (Merge ks qs fork e)) v =
           Prerequisites (en_dag e) v @ Prerequisites (en_dag fork) v \<and>
         getLocalContext (en_scores (Merge ks qs fork e)) k =
           (case getLocalContext (en_scores e) k of
              Some s \<Rightarrow> Some s
            | None \<Rightarrow> if sk_Fingerprint k = [] then None else getLocalContext (en_scores fork) k)"
proof -
  have "Prerequisites (en_dag (Merge ks qs fork e)) v =
      Prerequisites (en_dag e) v @ Prerequisites (en_dag fork) v"
    using AllEdges_Prerequisites [OF assms(1,2)] by (simp add: Merge_def Prerequisites_load)
  moreover have "(if k \<in> set qs then Some (lookup_or 0 (sc_scores (en_scores fork)) k) else None) =
      getLocalContext (en_scores fork) k"
    using iteration_lookup [OF assms(3)] by (simp add: getLocalContext_def)
  ultimately show ?thesis
    by (auto simp: Merge_def merge_score_lookup split: option.splits)
qed

section \<open>Select\<close>

lemma transitiveReduction_ids [simp]:
  "map se_MessageID (transitiveReduction sel) = map se_MessageID sel"
  by (simp add: transitiveReduction_def)

lemma transitiveReduction_scores [simp]:
  "map se_EffectiveScore (transitiveReduction sel) = map se_EffectiveScore sel"
  by (simp add: transitiveReduction_def)

text \<open>C25: a selection result is consistent. It is an error exactly for the thread scope with
  no thread; otherwise the selected messages are distinct and never the anchor; the walk scored
  none of them below the loss ratio, and what the result records is that score narrowed to
  \<^verbatim>\<open>float32\<close>, so it may be below the loss ratio but not below the narrowed loss
  ratio; nothing is both selected and excluded; and the messages reported below the threshold
  are exactly those the walk refused, each scored below the loss ratio and recorded narrowed,
  at most the narrowed loss ratio.\<close>

theorem selectLocked_consistent:
  assumes "extractSubgraph (en_dag e) anchor t scope (en_cfg e) rf = (sel, below)"
    and "iteration_order below ks"
  shows "case selectLocked ks anchor scope t rf e of
           Inl err \<Rightarrow> err = ErrThreadNotFound \<and> scope = SELECTION_SCOPE_THREAD \<and> t = []
         | Inr r \<Rightarrow>
             \<not> (scope = SELECTION_SCOPE_THREAD \<and> t = []) \<and>
             distinct (anchor # map sm_MessageId (sr_Selected r)) \<and>
             map sm_EffectiveScore (sr_Selected r) = map (\<lambda>s. float32 (se_EffectiveScore s)) sel \<and>
             list_all (\<lambda>s. \<not> se_EffectiveScore s < cfg_LossRatio (en_cfg e)) sel \<and>
             list_all (\<lambda>s. \<not> sm_EffectiveScore s < float32 (cfg_LossRatio (en_cfg e))) (sr_Selected r) \<and>
             sm_MessageId ` set (sr_Selected r) \<inter> xm_MessageId ` set (sr_Excluded r) = {} \<and>
             map xm_MessageId (filter (\<lambda>x. xm_Reason x = EXCLUSION_REASON_BELOW_THRESHOLD)
               (sr_Excluded r)) = ks \<and>
             list_all (\<lambda>x. xm_Reason x = EXCLUSION_REASON_BELOW_THRESHOLD \<longrightarrow>
               (\<exists>s. fmlookup below (xm_MessageId x) = Some s \<and> s < cfg_LossRatio (en_cfg e) \<and>
                  xm_Score x = float32 s \<and> xm_Score x \<le> float32 (cfg_LossRatio (en_cfg e)))) (sr_Excluded r)"
proof (cases "scope = SELECTION_SCOPE_THREAD \<and> t = []")
  case True
  then show ?thesis by (simp add: selectLocked_def)
next
  case False
  let ?sel = "transitiveReduction sel"
  let ?ids = "se_MessageID ` set ?sel"
  let ?below = "excluded_below ks ?ids below"
  let ?scope = "excluded_scope (en_dag e) anchor t scope ?ids below"
  from sound_inv_end [OF assms(1)] obtain vis where
    inv: "sound_inv (en_dag e) anchor t scope (en_cfg e) rf vis below sel []" by blast
  have ids: "?ids = se_MessageID ` set sel"
    by (metis list.set_map transitiveReduction_ids)
  have apart: "k \<notin> ?ids" if "k \<in> set ks" for k
    using inv assms(2) that by (auto simp: sound_inv_def iteration_order_def ids)
  then have below: "map xm_MessageId ?below = ks"
    by (simp add: excluded_below_def comp_def filter_id_conv [THEN iffD2])
  have sc: "se_EffectiveScore ` set ?sel = se_EffectiveScore ` set sel"
    by (metis list.set_map transitiveReduction_scores)
  have "map sm_MessageId (map selected_message ?sel) = map se_MessageID sel"
    by (simp add: comp_def selected_message_def)
  moreover have walk: "list_all (\<lambda>s. \<not> se_EffectiveScore s < cfg_LossRatio (en_cfg e)) sel"
    using inv by (auto simp: sound_inv_def list_all_iff)
  moreover have scores: "map sm_EffectiveScore (map selected_message ?sel) = map (\<lambda>s. float32 (se_EffectiveScore s)) sel"
  proof -
    have "map sm_EffectiveScore (map selected_message ?sel) = map float32 (map se_EffectiveScore ?sel)"
      by (simp add: comp_def selected_message_def del: transitiveReduction_scores)
    also have "\<dots> = map float32 (map se_EffectiveScore sel)" by (simp only: transitiveReduction_scores)
    finally show ?thesis by (simp add: comp_def)
  qed
  moreover have "list_all (\<lambda>s. \<not> sm_EffectiveScore s < float32 (cfg_LossRatio (en_cfg e))) (map selected_message ?sel)"
  proof -
    have "sm_EffectiveScore ` set (map selected_message ?sel) = (\<lambda>s. float32 (se_EffectiveScore s)) ` set sel"
      using scores by (metis list.set_map)
    then have "\<exists>x \<in> set sel. sm_EffectiveScore s = float32 (se_EffectiveScore x)"
      if "s \<in> set (map selected_message ?sel)" for s using that by (metis imageE imageI)
    then show ?thesis using walk float32_not_less unfolding list_all_iff by metis
  qed
  moreover have "sm_MessageId ` set (map selected_message ?sel) = ?ids"
    by (auto simp: selected_message_def image_image)
  moreover have "?ids \<inter> xm_MessageId ` set (?below @ ?scope) = {}"
  proof (rule equals0I)
    fix y
    assume y: "y \<in> ?ids \<inter> xm_MessageId ` set (?below @ ?scope)"
    then obtain x where "x \<in> set (?below @ ?scope)" "y = xm_MessageId x" by (elim IntE imageE)
    then have "y \<notin> ?ids" by (auto simp: excluded_below_def excluded_scope_def)
    with y show False by simp
  qed
  moreover have "filter (\<lambda>x. xm_Reason x = EXCLUSION_REASON_BELOW_THRESHOLD) (?below @ ?scope) = ?below"
    by (auto simp: excluded_below_def excluded_scope_def filter_id_conv filter_empty_conv)
  moreover have "list_all (\<lambda>x. xm_Reason x = EXCLUSION_REASON_BELOW_THRESHOLD \<longrightarrow>
      (\<exists>s. fmlookup below (xm_MessageId x) = Some s \<and> s < cfg_LossRatio (en_cfg e) \<and>
         xm_Score x = float32 s \<and> xm_Score x \<le> float32 (cfg_LossRatio (en_cfg e)))) (?below @ ?scope)"
    using inv assms(2) float32_mono float_less_le
    by (auto simp: list_all_iff excluded_below_def excluded_scope_def sound_inv_def
        iteration_order_def lookup_or_def fmlookup_dom_iff simp del: less_float64.simps less_eq_float64.simps)
  moreover have "distinct (anchor # map se_MessageID sel)"
    using inv by (auto simp: sound_inv_def)
  ultimately show ?thesis
    using False below by (simp add: selectLocked_def assms(1) Let_def del: map_map)
qed

section \<open>Diversity reranking\<close>

lemma argmax_scan_result:
  "argmax_scan f cs i best bs = (b, s) \<Longrightarrow>
   (b = best \<and> s = bs \<and> (\<forall>c \<in> set cs. \<not> bs < f c)) \<or>
   (\<exists>j < length cs. b = Some (i + j) \<and> s = f (cs ! j))"
proof (induction cs arbitrary: i best bs)
  case (Cons c cs)
  show ?case
  proof (cases "bs < f c")
    case True
    with Cons.prems have "argmax_scan f cs (Suc i) (Some i) (f c) = (b, s)" by simp
    from Cons.IH [OF this] show ?thesis
    proof
      assume "b = Some i \<and> s = f c \<and> (\<forall>x \<in> set cs. \<not> f c < f x)"
      then show ?thesis by (intro disjI2 exI [of _ 0]) simp
    next
      assume "\<exists>j < length cs. b = Some (Suc i + j) \<and> s = f (cs ! j)"
      then obtain j where "j < length cs" "b = Some (Suc i + j)" "s = f (cs ! j)" by blast
      then show ?thesis by (intro disjI2 exI [of _ "Suc j"]) simp
    qed
  next
    case False
    with Cons.prems have "argmax_scan f cs (Suc i) best bs = (b, s)" by simp
    from Cons.IH [OF this] show ?thesis
    proof
      assume "b = best \<and> s = bs \<and> (\<forall>x \<in> set cs. \<not> bs < f x)"
      then show ?thesis using False by simp
    next
      assume "\<exists>j < length cs. b = Some (Suc i + j) \<and> s = f (cs ! j)"
      then obtain j where "j < length cs" "b = Some (Suc i + j)" "s = f (cs ! j)" by blast
      then show ?thesis by (intro disjI2 exI [of _ "Suc j"]) simp
    qed
  qed
qed simp

lemma argmax_scan_found:
  assumes "cs \<noteq> []" and "\<forall>c \<in> set cs. NInf < f c"
  obtains j where "argmax_scan f cs 0 best NInf = (Some j, f (cs ! j))" and "j < length cs"
proof -
  obtain b s where r: "argmax_scan f cs 0 best NInf = (b, s)" by (cases "argmax_scan f cs 0 best NInf")
  from argmax_scan_result [OF r] show thesis
  proof
    assume "b = best \<and> s = NInf \<and> (\<forall>c \<in> set cs. \<not> NInf < f c)"
    then show thesis using assms by (cases cs) auto
  next
    assume "\<exists>j < length cs. b = Some (0 + j) \<and> s = f (cs ! j)"
    then show thesis using that r by auto
  qed
qed

lemma mset_remove_nth: "i < length xs \<Longrightarrow> add_mset (xs ! i) (mset (remove_nth i xs)) = mset xs"
  unfolding remove_nth_def by (metis Cons_nth_drop_Suc append_take_drop_id mset.simps(2) mset_append
      union_mset_add_mset_right)

text \<open>A message without its score.\<close>

definition unscored :: "SelectedMessage \<Rightarrow> SelectedMessage" where
  "unscored s = s\<lparr>sm_EffectiveScore := 0\<rparr>"

lemma mset_unscored_remove:
  "i < length xs \<Longrightarrow> add_mset (unscored (xs ! i)) (mset (map unscored (remove_nth i xs))) = mset (map unscored xs)"
  using mset_remove_nth [of i xs] by (metis image_mset_add_mset mset_map)

lemma set_remove_nth: "i < length xs \<Longrightarrow> set (remove_nth i xs) \<subseteq> set xs"
  unfolding remove_nth_def by (auto dest: in_set_takeD in_set_dropD)

lemma mmr_loop_spec:
  assumes "\<And>kept c. c \<in> set remaining \<Longrightarrow> NInf < eff kept c \<and> Q c (float32 (eff kept c))"
  shows "\<exists>more. mmr_loop eff remaining out = Some (out @ more) \<and>
           mset (map unscored more) = mset (map unscored remaining) \<and>
           (\<forall>m \<in> set more. \<exists>c \<in> set remaining. unscored m = unscored c \<and> Q c (sm_EffectiveScore m))"
  using assms
proof (induction "length remaining" arbitrary: remaining out rule: less_induct)
  case less
  show ?case
  proof (cases "remaining = []")
    case True
    then show ?thesis by (simp add: mmr_loop.simps [of eff "[]" out])
  next
    case False
    obtain j where j: "argmax_scan (eff out) remaining 0 None NInf = (Some j, eff out (remaining ! j))"
      "j < length remaining"
      using argmax_scan_found [OF False, of "eff out" None] less.prems by blast
    let ?m = "(remaining ! j)\<lparr>sm_EffectiveScore := float32 (eff out (remaining ! j))\<rparr>"
    have "\<exists>more. mmr_loop eff (remove_nth j remaining) (out @ [?m]) = Some ((out @ [?m]) @ more) \<and>
        mset (map unscored more) = mset (map unscored (remove_nth j remaining)) \<and>
        (\<forall>m \<in> set more. \<exists>c \<in> set (remove_nth j remaining). unscored m = unscored c \<and> Q c (sm_EffectiveScore m))"
      using less.hyps [OF length_remove_nth [OF j(2)]] less.prems set_remove_nth [OF j(2)] by blast
    then obtain more where more: "mmr_loop eff (remove_nth j remaining) (out @ [?m]) = Some ((out @ [?m]) @ more)"
      "mset (map unscored more) = mset (map unscored (remove_nth j remaining))"
      "\<forall>m \<in> set more. \<exists>c \<in> set (remove_nth j remaining). unscored m = unscored c \<and> Q c (sm_EffectiveScore m)"
      by blast
    have "unscored ?m = unscored (remaining ! j)" by (simp add: unscored_def)
    moreover have "Q (remaining ! j) (sm_EffectiveScore ?m)" using less.prems j(2) by simp
    moreover have "mmr_loop eff remaining out = Some (out @ ?m # more)"
      using False j(1) more(1) by (simp add: mmr_loop.simps [of eff remaining out])
    ultimately show ?thesis
      using more(2,3) mset_unscored_remove [OF j(2)] set_remove_nth [OF j(2)] j(2)
      by (intro exI [of _ "?m # more"]) (auto simp: nth_mem)
  qed
qed

lemma max_sim_not_NaN: "start \<noteq> NaN \<Longrightarrow> max_sim cv start vs \<noteq> NaN"
  unfolding max_sim_def
proof (induction vs arbitrary: start)
  case (Cons v vs)
  then show ?case using float_less_not_NaN [of start "cosineSim cv v"] by (simp add: Let_def)
qed simp

text \<open>A comparison with NaN is false, so a redundancy is always between 0 and 1.\<close>

lemma simToKept_unit: "in_unit (simToKept vecs qs cv kept)"
proof (cases cv)
  case None
  then show ?thesis by (simp add: simToKept_def in_unit_def)
next
  case (Some c)
  define m where "m = max_sim c (max_sim c 0 qs) (List.map_filter (\<lambda>k. fmlookup vecs (sm_MessageId k)) kept)"
  have "m \<noteq> NaN" unfolding m_def by (intro max_sim_not_NaN) simp
  then have "in_unit (if m < 0 then 0 else if 1 < m then 1 else m)"
    by (cases m) (auto simp: in_unit_def)
  then show ?thesis unfolding simToKept_def Some m_def Let_def by simp
qed

lemma original_scores_lookup:
  assumes "distinct (map sm_MessageId xs)" and "x \<in> set xs"
  shows "lookup_or 0 (original_scores xs) (sm_MessageId x) = sm_EffectiveScore x"
  using assms
proof (induction xs rule: rev_induct)
  case (snoc y ys)
  have "sm_MessageId x \<noteq> sm_MessageId y" if "x \<in> set ys" using snoc.prems that by (auto simp: image_iff)
  with snoc show ?case by (auto simp: original_scores_def)
qed simp

lemma discount:
  assumes "0 \<le> x" and "x < PInf" and "is_float32 x" and "in_unit s"
  shows "NInf < x * (1 - s) \<and> 0 \<le> float32 (x * (1 - s)) \<and> float32 (x * (1 - s)) \<le> x"
proof -
  have d: "NInf < x * (1 - s)" "0 \<le> x * (1 - s)" "x * (1 - s) \<le> x"
    using assms(1,2,4) by (cases x; auto simp: in_unit_Fin mult_left_le)+
  have "float32 0 \<le> float32 (x * (1 - s))" "float32 (x * (1 - s)) \<le> float32 x"
    by (rule float32_mono [OF d(2)], rule float32_mono [OF d(3)])
  then show ?thesis using d(1) assms(3) by (simp add: is_float32_def del: less_eq_float64.simps less_float64.simps float64_consts)
qed

text \<open>C26: diversity reranking never loses a prerequisite and never raises a score. When the
  selected messages are distinct with finite scores that are not negative, and are
  \<^verbatim>\<open>float32\<close> numbers as the type of the field has it, and the oracle has
  answered, reranking returns without panic; the result has the same messages with all their
  fields but the score; and every new score lies between 0 and the message's original score.\<close>

theorem ApplyMMR_discounts:
  assumes "distinct (map sm_MessageId selected)"
    and "list_all (\<lambda>s. 0 \<le> sm_EffectiveScore s \<and> sm_EffectiveScore s < PInf \<and> is_float32 (sm_EffectiveScore s)) selected"
    and "en_oracle e = Some orc"
    and "RepresentativeVectors orc (map sm_MessageId selected @ queryIDs) = Inr vecs"
  shows "\<exists>out. ApplyMMR selected queryIDs e = Inr out \<and>
           mset (map unscored out) = mset (map unscored selected) \<and>
           list_all (\<lambda>m. 0 \<le> sm_EffectiveScore m \<and>
             list_ex (\<lambda>s. unscored m = unscored s \<and> sm_EffectiveScore m \<le> sm_EffectiveScore s) selected) out"
proof (cases "length selected \<le> 1 \<or> fmdom vecs = {||}")
  case True
  then have "ApplyMMR selected queryIDs e = Inr selected" using assms(3,4) by (auto simp: ApplyMMR_def)
  moreover have "0 \<le> x \<Longrightarrow> x \<le> x" for x :: float64 by (cases x) auto
  ultimately show ?thesis using assms(2) by (auto simp: list_all_iff list_ex_iff)
next
  case False
  let ?orig = "\<lambda>c. lookup_or 0 (original_scores selected) (sm_MessageId c)"
  let ?qs = "List.map_filter (fmlookup vecs) queryIDs"
  let ?eff = "\<lambda>kept c. ?orig c * (1 - simToKept vecs ?qs (fmlookup vecs (sm_MessageId c)) kept)"
  let ?rem = "sort_stable (\<lambda>a b. ?orig b < ?orig a) selected"
  have eff: "NInf < ?eff kept c \<and> 0 \<le> float32 (?eff kept c) \<and> float32 (?eff kept c) \<le> sm_EffectiveScore c"
    if "c \<in> set selected" for kept c
    using discount [OF _ _ _ simToKept_unit, of "sm_EffectiveScore c"] assms(2) that
      original_scores_lookup [OF assms(1) that] by (simp add: list_all_iff)
  have rem: "?rem \<noteq> []" using False by (metis le_zero_eq length_0_conv length_sort_stable nat_le_linear)
  obtain j where j: "argmax_scan (?eff []) ?rem 0 (Some 0) NInf = (Some j, ?eff [] (?rem ! j))" "j < length ?rem"
    using argmax_scan_found [OF rem, of "?eff []" "Some 0"] eff by auto
  define first where "first = (if ?qs \<noteq> [] then (?rem ! j)\<lparr>sm_EffectiveScore := float32 (?eff [] (?rem ! j))\<rparr> else ?rem ! j)"
  have in_sel: "?rem ! j \<in> set selected" using j(2) by (metis nth_mem set_sort_stable)
  have ok: "0 \<le> sm_EffectiveScore s \<and> sm_EffectiveScore s \<le> sm_EffectiveScore s" if "s \<in> set selected" for s
    using assms(2) that by (cases "sm_EffectiveScore s") (auto simp: list_all_iff)
  have first: "unscored first = unscored (?rem ! j)" "0 \<le> sm_EffectiveScore first"
    "sm_EffectiveScore first \<le> sm_EffectiveScore (?rem ! j)"
    using eff [OF in_sel, of "[]"] ok [OF in_sel] by (simp_all add: first_def unscored_def)
  have "set (remove_nth j ?rem) \<subseteq> set selected" using set_remove_nth [OF j(2)] by simp
  note sub = this
  have "NInf < ?eff kept c \<and> 0 \<le> float32 (?eff kept c) \<and> float32 (?eff kept c) \<le> sm_EffectiveScore c"
    if "c \<in> set (remove_nth j ?rem)" for kept c
    by (rule eff [OF subsetD [OF sub that]])
  from mmr_loop_spec [of "remove_nth j ?rem" ?eff "\<lambda>c x. 0 \<le> x \<and> x \<le> sm_EffectiveScore c", OF this, of "[first]"]
  obtain more where more: "mmr_loop ?eff (remove_nth j ?rem) [first] = Some ([first] @ more)"
    "mset (map unscored more) = mset (map unscored (remove_nth j ?rem))"
    "\<forall>m \<in> set more. \<exists>c \<in> set (remove_nth j ?rem). unscored m = unscored c \<and>
        0 \<le> sm_EffectiveScore m \<and> sm_EffectiveScore m \<le> sm_EffectiveScore c" by auto
  have "mmr_first ?eff (?qs \<noteq> []) ?rem = Some (first # more)"
    unfolding mmr_first_def j(1) prod.case Let_def option.sel first_def [symmetric]
    using more(1) by (simp only: append_Cons append_Nil)
  then have "ApplyMMR selected queryIDs e = Inr (first # more)"
    using False assms(3,4) unfolding ApplyMMR_def Let_def by (simp del: float64_consts)
  moreover have "mset (map unscored (first # more)) = mset (map unscored selected)"
  proof -
    have "mset (map unscored (first # more)) = mset (map unscored ?rem)"
      using more(2) mset_unscored_remove [OF j(2)] first(1) by simp
    also have "\<dots> = mset (map unscored selected)" by (simp only: mset_map mset_sort_stable)
    finally show ?thesis .
  qed
  moreover have "list_all (\<lambda>m. 0 \<le> sm_EffectiveScore m \<and> list_ex (\<lambda>s. unscored m = unscored s \<and>
      sm_EffectiveScore m \<le> sm_EffectiveScore s) selected) (first # more)"
  proof -
    have "\<exists>s \<in> set selected. unscored m = unscored s \<and> 0 \<le> sm_EffectiveScore m \<and>
        sm_EffectiveScore m \<le> sm_EffectiveScore s" if "m \<in> set more" for m
      using more(3) that sub by (meson subsetD)
    then show ?thesis using first in_sel unfolding list_all_iff list_ex_iff by auto
  qed
  ultimately show ?thesis by blast
qed

section \<open>A worked engine\<close>

definition example_oracle :: ChunkOracle where
  "example_oracle =
     \<lparr>ChunksForMessages = (\<lambda>_. Inr fmempty), EnsureVector = (\<lambda>_. Inr []),
      NearestChunks = (\<lambda>_ _ _. Inr []),
      RepresentativeVectors = (\<lambda>ids. Inr (fmap_of_list (map (\<lambda>i. (i, [1, 0])) ids))),
      RandomChunks = (\<lambda>_ _ _. Inr [])\<rparr>"

definition example_engine :: Engine where
  "example_engine =
     \<lparr>en_scorer = None, en_dag = example_dag, en_scores = newScoreCache, en_cfg = DefaultConfig,
      en_oracle = Some example_oracle, en_edgeFilter = None, en_price = Some fmempty\<rparr>"

definition example_anchor :: Message where
  "example_anchor =
     \<lparr>m_Id = ''c'', m_Role = ROLE_USER, m_Content = [BlockText ''?''], m_Position = 2,
      m_ThreadId = ''t'', m_CreatedAt = 0, m_TurnId = ''''\<rparr>"

definition example_contributor :: "string \<Rightarrow> Contributor" where
  "example_contributor i = \<lparr>ct_MessageID = i, ct_ThreadID = ''t'', ct_Weight = 1\<rparr>"

lemma example_engine_order:
  "iteration_order (d_backward (en_dag example_engine)) [''c'', ''a'']"
  "dag_keyed (en_dag example_engine)"
  "iteration_order (sc_scores (en_scores example_engine)) []"
  by (auto simp: example_engine_def example_dag_def iteration_order_def newDAG_def AddEdge_def
      example_edge_def Let_def newScoreCache_def intro: dag_keyed_load)
     (simp add: dag_keyed_def Prerequisites_def lookup_or_def)

theorem RecordProvenance_graph_witness:
  "e_FromMessageId ` set (snd (RecordProvenance (\<lambda>i. int i) (Some example_anchor)
     (map example_contributor [''a'', ''c'', ''b'', ''a'']) example_engine)) = {''a'', ''b''}"
  using RecordProvenance_graph [of "\<lambda>i. int i" example_anchor
      "map example_contributor [''a'', ''c'', ''b'', ''a'']" example_engine, OF prod.collapse [symmetric]]
  by (auto simp: example_engine_def example_anchor_def example_contributor_def)

theorem Fork_faithful_witness:
  "selectLocked [] ''c'' SELECTION_SCOPE_THREAD ''t'' [] (Fork [''c'', ''a''] [] example_engine) =
   selectLocked [] ''c'' SELECTION_SCOPE_THREAD ''t'' [] example_engine"
  using Fork_faithful [OF example_engine_order] by blast

theorem Merge_combines_witness:
  "Prerequisites (en_dag (Merge [''c'', ''a''] [] example_engine example_engine)) ''c'' =
   [example_edge ''a'' ''c'', example_edge ''a'' ''c'']"
  using Merge_combines [OF example_engine_order, of example_engine "''c''"]
  by (simp add: example_engine_def example_prerequisites)

theorem selectLocked_consistent_witness:
  "case selectLocked [] ''c'' SELECTION_SCOPE_THREAD ''t'' [] example_engine of
     Inl err \<Rightarrow> False
   | Inr r \<Rightarrow> distinct (''c'' # map sm_MessageId (sr_Selected r)) \<and>
       sm_MessageId ` set (sr_Selected r) \<inter> xm_MessageId ` set (sr_Excluded r) = {}"
proof -
  have "extractSubgraph (en_dag example_engine) ''c'' ''t'' SELECTION_SCOPE_THREAD (en_cfg example_engine) [] =
      ([example_a, example_b], fmempty)"
    using example_selection by (simp add: example_engine_def)
  from selectLocked_consistent [OF this, of "[]"] show ?thesis
    by (auto simp: iteration_order_def split: sum.splits)
qed

theorem ApplyMMR_discounts_witness:
  "\<exists>out. ApplyMMR (map selected_message [example_a, example_b]) [''c''] example_engine = Inr out \<and>
     mset (map unscored out) = mset (map unscored (map selected_message [example_a, example_b]))"
proof -
  let ?sel = "map selected_message [example_a, example_b]"
  have "distinct (map sm_MessageId ?sel)"
    "list_all (\<lambda>s. 0 \<le> sm_EffectiveScore s \<and> sm_EffectiveScore s < PInf \<and> is_float32 (sm_EffectiveScore s)) ?sel"
    using float32_dyadic [of 9 "- 4"]
    by (simp_all add: selected_message_def example_fields power_int_minus is_float32_def)
  moreover have "en_oracle example_engine = Some example_oracle" by (simp add: example_engine_def)
  moreover have "RepresentativeVectors example_oracle (map sm_MessageId ?sel @ [''c'']) =
      Inr (fmap_of_list (map (\<lambda>i. (i, [1, 0])) (map sm_MessageId ?sel @ [''c''])))"
    by (simp add: example_oracle_def)
  ultimately show ?thesis using ApplyMMR_discounts by blast
qed

end
