(* ===== verification/Provenance_Correct.thy ===== *)
theory Provenance_Correct
  imports Provenance
begin

text \<open>
  Correctness of the provenance walk of \<^verbatim>\<open>rrc/provenance.go\<close>: what phase one reaches
  and when it is complete, and that the masses of phase two solve the path-sum equation when
  provenance is generation-ordered.
\<close>

section \<open>Phase one\<close>

definition prov_step :: "dag \<Rightarrow> string \<Rightarrow> SelectionScope \<Rightarrow> string \<Rightarrow> string \<Rightarrow> bool" where
  "prov_step d cone scope u x \<longleftrightarrow> x \<in> e_FromMessageId ` set (contributorsOf d cone scope u)"

definition ancestry :: "dag \<Rightarrow> string \<Rightarrow> SelectionScope \<Rightarrow> string set \<Rightarrow> string set" where
  "ancestry d cone scope A = {x. \<exists>a \<in> A. (prov_step d cone scope)\<^sup>+\<^sup>+ a x}"

lemma ancestry_step:
  "u \<in> A \<union> ancestry d cone scope A \<Longrightarrow> prov_step d cone scope u x \<Longrightarrow> x \<in> ancestry d cone scope A"
  by (auto simp: ancestry_def intro: tranclp.intros)

text \<open>What phase one keeps, after the nodes \<open>D\<close> have been expanded.\<close>

definition reach_sound ::
  "dag \<Rightarrow> string \<Rightarrow> SelectionScope \<Rightarrow> string set \<Rightarrow> reach_state \<Rightarrow> bool" where
  "reach_sound d cone scope A st \<longleftrightarrow>
     rs_settled st = A \<union> set (rs_inReach st) \<and> A \<inter> set (rs_inReach st) = {} \<and>
     distinct (rs_inReach st) \<and>
     set (rs_inReach st) \<union> be_id ` set (rs_heap st) \<subseteq> ancestry d cone scope A"

definition reach_inv ::
  "dag \<Rightarrow> string \<Rightarrow> SelectionScope \<Rightarrow> string set \<Rightarrow> string set \<Rightarrow> reach_state \<Rightarrow> bool" where
  "reach_inv d cone scope A D st \<longleftrightarrow>
     reach_sound d cone scope A st \<and>
     (\<forall>i b. fmlookup (rs_best st) i = Some b \<and> i \<notin> rs_settled st \<longrightarrow>
        \<lparr>be_id = i, be_bound = b\<rparr> \<in> set (rs_heap st)) \<and>
     (\<forall>u \<in> D. \<forall>x. prov_step d cone scope u x \<longrightarrow> x \<in> rs_settled st \<or> x |\<in>| fmdom (rs_best st))"

lemma reach_sound_threads [simp]:
  "reach_sound d cone scope A (st\<lparr>rs_threads := t\<rparr>) = reach_sound d cone scope A st"
  by (simp add: reach_sound_def)

lemma reach_sound_push:
  assumes "reach_sound d cone scope A st" and "i \<in> ancestry d cone scope A"
  shows "reach_sound d cone scope A (reach_push i b st)"
proof -
  have "insert i (be_id ` set (rs_heap st)) \<subseteq> ancestry d cone scope A"
    using assms by (simp add: reach_sound_def)
  with reach_push_heap have "be_id ` set (rs_heap (reach_push i b st)) \<subseteq> ancestry d cone scope A"
    by (rule order_trans)
  with assms show ?thesis by (simp add: reach_sound_def)
qed

lemma reach_sound_pop:
  "reach_sound d cone scope A st \<Longrightarrow> heap_pop lt (rs_heap st) = Some (tp, h) \<Longrightarrow>
   reach_sound d cone scope A (st\<lparr>rs_heap := h\<rparr>)"
  using pop_set [of lt "rs_heap st" tp h] unfolding reach_sound_def by auto

lemma reach_push_dom:
  "i \<in> rs_settled st \<or> i |\<in>| fmdom (rs_best (reach_push i b st))"
  "x |\<in>| fmdom (rs_best st) \<Longrightarrow> x |\<in>| fmdom (rs_best (reach_push i b st))"
  by (auto simp: reach_push_def fmlookup_dom_iff split: option.splits)

lemma reach_inv_push:
  assumes inv: "reach_inv d cone scope A D st" and "i \<in> ancestry d cone scope A"
  shows "reach_inv d cone scope A D (reach_push i b st)"
proof -
  have "\<lparr>be_id = j, be_bound = c\<rparr> \<in> set (rs_heap (reach_push i b st))"
    if "fmlookup (rs_best (reach_push i b st)) j = Some c" "j \<notin> rs_settled st" for j c
    using inv that by (auto simp: reach_push_def reach_inv_def set_heap_push split: if_splits option.splits)
  moreover have "x \<in> rs_settled st \<or> x |\<in>| fmdom (rs_best (reach_push i b st))"
    if "u \<in> D" "prov_step d cone scope u x" for u x
    using inv that reach_push_dom(2) [of x st i b] unfolding reach_inv_def by blast
  ultimately show ?thesis
    using inv reach_sound_push [OF _ assms(2)] unfolding reach_inv_def by auto
qed

lemma reach_inv_fold:
  "reach_inv d cone scope A D st \<Longrightarrow> g ` set es \<subseteq> ancestry d cone scope A \<Longrightarrow>
   reach_inv d cone scope A D (foldl (\<lambda>s e. reach_push (g e) (h e) s) st es) \<and>
   (\<forall>e \<in> set es. g e \<in> rs_settled st \<or>
      g e |\<in>| fmdom (rs_best (foldl (\<lambda>s e. reach_push (g e) (h e) s) st es))) \<and>
   fmdom (rs_best st) |\<subseteq>| fmdom (rs_best (foldl (\<lambda>s e. reach_push (g e) (h e) s) st es))"
proof (induction es arbitrary: st)
  case (Cons e es)
  let ?s = "reach_push (g e) (h e) st"
  have "reach_inv d cone scope A D ?s" using Cons.prems by (intro reach_inv_push) auto
  from Cons.IH [OF this] Cons.prems show ?case
    using reach_push_dom(1) [of "g e" st "h e"] reach_push_dom(2) [of _ st "g e" "h e"] by auto
qed simp

lemma reach_inv_expand:
  assumes inv: "reach_inv d cone scope A D st" and u: "u \<in> A \<union> ancestry d cone scope A"
  shows "reach_inv d cone scope A (insert u D) (reach_expand d cone scope u f st)"
proof -
  let ?es = "contributorsOf d cone scope u"
  let ?st = "st\<lparr>rs_threads := note_threads ?es (rs_threads st)\<rparr>"
  have "e_FromMessageId ` set ?es \<subseteq> ancestry d cone scope A"
    using ancestry_step [OF u] by (auto simp: prov_step_def)
  moreover have "reach_inv d cone scope A D ?st" using inv by (simp add: reach_inv_def)
  ultimately have "reach_inv d cone scope A D (reach_expand d cone scope u f st) \<and>
      (\<forall>e \<in> set ?es. e_FromMessageId e \<in> rs_settled st \<or>
         e_FromMessageId e |\<in>| fmdom (rs_best (reach_expand d cone scope u f st)))"
    using reach_inv_fold [of d cone scope A D ?st e_FromMessageId ?es "\<lambda>e. f (clamp01 (e_Score e))"]
    by (simp add: reach_expand_def Let_def)
  then show ?thesis by (auto simp: reach_inv_def prov_step_def)
qed

lemma reach_inv_seed: "reach_inv d cone scope (set as) (set as) (reach_seed d as cone scope)"
proof -
  have key: "reach_inv d cone scope (set as) (D \<union> set xs)
      (foldl (\<lambda>st a. reach_expand d cone scope a (\<lambda>w. w) st) st xs)"
    if "set xs \<subseteq> set as" "reach_inv d cone scope (set as) D st" for xs D st
    using that
  proof (induction xs arbitrary: D st)
    case (Cons x xs)
    have "reach_inv d cone scope (set as) (insert x D) (reach_expand d cone scope x (\<lambda>w. w) st)"
      using Cons.prems by (intro reach_inv_expand) auto
    from Cons.IH [OF _ this] Cons.prems(1) show ?case by simp
  qed simp
  have "reach_inv d cone scope (set as) {}
      \<lparr>rs_settled = set as, rs_inReach = [], rs_best = fmempty, rs_heap = [], rs_threads = fmempty\<rparr>"
    by (simp add: reach_inv_def reach_sound_def)
  from key [OF order_refl this] show ?thesis unfolding reach_seed_def by simp
qed

lemma reach_inv_skip:
  assumes inv: "reach_inv d cone scope A D st" and pop: "heap_pop bound_Less (rs_heap st) = Some (tp, h)"
    and skip: "be_id tp \<in> rs_settled st \<or> be_bound tp < lookup_or 0 (rs_best st) (be_id tp)"
  shows "reach_inv d cone scope A D (st\<lparr>rs_heap := h\<rparr>)"
proof -
  have differs: "\<lparr>be_id = i, be_bound = b\<rparr> \<noteq> tp"
    if "fmlookup (rs_best st) i = Some b" "i \<notin> rs_settled st" for i b
  proof
    assume "\<lparr>be_id = i, be_bound = b\<rparr> = tp"
    with skip that have "b < b" by (auto simp: lookup_or_def)
    then show False by (cases b) simp_all
  qed
  have "\<lparr>be_id = i, be_bound = b\<rparr> \<in> set h"
    if "fmlookup (rs_best st) i = Some b" "i \<notin> rs_settled st" for i b
  proof -
    have "\<lparr>be_id = i, be_bound = b\<rparr> \<in> set (rs_heap st)" using inv that by (simp add: reach_inv_def)
    then show ?thesis using differs [OF that] pop_set [OF pop] by simp
  qed
  with inv reach_sound_pop [OF _ pop] show ?thesis unfolding reach_inv_def by auto
qed

lemma reach_inv_settle:
  assumes inv: "reach_inv d cone scope A D st" and pop: "heap_pop bound_Less (rs_heap st) = Some (tp, h)"
    and new: "be_id tp \<notin> rs_settled st"
  shows "reach_inv d cone scope A D (st\<lparr>rs_heap := h, rs_settled := insert (be_id tp) (rs_settled st),
           rs_inReach := rs_inReach st @ [be_id tp]\<rparr>)"
  (is "reach_inv d cone scope A D ?st")
proof -
  have "reach_sound d cone scope A ?st"
    using inv new pop_set [OF pop] by (auto simp: reach_inv_def reach_sound_def)
  moreover have "\<lparr>be_id = i, be_bound = b\<rparr> \<in> set h"
    if "fmlookup (rs_best st) i = Some b" "i \<notin> rs_settled st" "i \<noteq> be_id tp" for i b
  proof -
    have "\<lparr>be_id = i, be_bound = b\<rparr> \<in> set (rs_heap st)" using inv that by (simp add: reach_inv_def)
    then show ?thesis using that(3) pop_set [OF pop] by auto
  qed
  moreover have "x \<in> rs_settled st \<or> x |\<in>| fmdom (rs_best st)"
    if "u \<in> D" "prov_step d cone scope u x" for u x
    using inv that unfolding reach_inv_def by blast
  ultimately show ?thesis unfolding reach_inv_def by auto
qed

lemma reach_loop_inv:
  "reach_inv d cone scope A (rs_settled st) st \<Longrightarrow> length (rs_inReach st) \<le> provenanceReachCap \<Longrightarrow>
   case reach_loop d cone scope st of (rs, truncated) \<Rightarrow>
     reach_sound d cone scope A rs \<and> length (rs_inReach rs) \<le> provenanceReachCap \<and>
     (truncated \<longrightarrow> length (rs_inReach rs) = provenanceReachCap) \<and>
     (\<not> truncated \<longrightarrow> reach_inv d cone scope A (rs_settled rs) rs \<and> rs_heap rs = [])"
proof (induction d cone scope st rule: reach_loop.induct)
  case (1 d cone scope st)
  note inv = "1.prems"(1)
  show ?case
  proof (cases "heap_pop bound_Less (rs_heap st)")
    case None
    then have "rs_heap st = []" by (simp add: heap_pop_None)
    with None "1.prems" show ?thesis
      by (simp add: reach_loop.simps [of d cone scope st] reach_inv_def)
  next
    case (Some r)
    obtain tp h where r: "r = (tp, h)" by (cases r)
    note pop = Some [unfolded r]
    let ?i = "be_id tp" and ?b = "be_bound tp"
    let ?st = "st\<lparr>rs_heap := h, rs_settled := insert ?i (rs_settled st), rs_inReach := rs_inReach st @ [?i]\<rparr>"
    consider (skip) "?i \<in> rs_settled st \<or> ?b < lookup_or 0 (rs_best st) ?i"
      | (cap) "\<not> (?i \<in> rs_settled st \<or> ?b < lookup_or 0 (rs_best st) ?i)"
          "provenanceReachCap \<le> length (rs_inReach st)"
      | (settle) "\<not> (?i \<in> rs_settled st \<or> ?b < lookup_or 0 (rs_best st) ?i)"
          "\<not> provenanceReachCap \<le> length (rs_inReach st)" by blast
    then show ?thesis
    proof cases
      case skip
      then show ?thesis
        using "1.IH"(1) [OF Some r [symmetric] refl refl refl skip] reach_inv_skip [OF inv pop skip] "1.prems"(2)
        by (simp add: reach_loop.simps [of d cone scope st] pop Let_def)
    next
      case cap
      have "reach_sound d cone scope A (st\<lparr>rs_heap := h\<rparr>)"
        using inv reach_sound_pop [OF _ pop] by (simp add: reach_inv_def)
      then show ?thesis
        using cap "1.prems"(2) by (simp add: reach_loop.simps [of d cone scope st] pop Let_def)
    next
      case settle
      have "?i \<in> ancestry d cone scope A"
        using inv pop_set [OF pop] by (auto simp: reach_inv_def reach_sound_def)
      then have "reach_inv d cone scope A (insert ?i (rs_settled st))
          (reach_expand d cone scope ?i (\<lambda>w. ?b * w) ?st)"
        using settle(1) reach_inv_settle [OF inv pop] by (intro reach_inv_expand) auto
      then show ?thesis
        using "1.IH"(2) [OF Some r [symmetric] refl refl refl settle] settle "1.prems"(2)
        by (simp add: reach_loop.simps [of d cone scope st] pop Let_def)
    qed
  qed
qed

lemma reach_result:
  assumes "reach_loop d cone scope (reach_seed d as cone scope) = (rs, truncated)"
  shows "distinct (rs_inReach rs)" and "length (rs_inReach rs) \<le> provenanceReachCap"
    and "set (rs_inReach rs) \<subseteq> ancestry d cone scope (set as) - set as"
    and "truncated \<Longrightarrow> length (rs_inReach rs) = provenanceReachCap"
    and "\<not> truncated \<Longrightarrow> set (rs_inReach rs) = ancestry d cone scope (set as) - set as"
proof -
  have settled: "rs_settled (foldl (\<lambda>st a. reach_expand d cone scope a (\<lambda>w. w) st) st xs) = rs_settled st"
    and reach: "rs_inReach (foldl (\<lambda>st a. reach_expand d cone scope a (\<lambda>w. w) st) st xs) = rs_inReach st"
    for st xs by (induction xs arbitrary: st) simp_all
  have seed: "rs_settled (reach_seed d as cone scope) = set as" "rs_inReach (reach_seed d as cone scope) = []"
    by (simp_all add: reach_seed_def settled reach)
  have inv: "reach_sound d cone scope (set as) rs \<and> length (rs_inReach rs) \<le> provenanceReachCap \<and>
      (truncated \<longrightarrow> length (rs_inReach rs) = provenanceReachCap) \<and>
      (\<not> truncated \<longrightarrow> reach_inv d cone scope (set as) (rs_settled rs) rs \<and> rs_heap rs = [])"
    using reach_loop_inv [of d cone scope "set as" "reach_seed d as cone scope"] reach_inv_seed [of d cone scope as]
      seed assms by simp
  then show "distinct (rs_inReach rs)" "length (rs_inReach rs) \<le> provenanceReachCap"
    and sub: "set (rs_inReach rs) \<subseteq> ancestry d cone scope (set as) - set as"
    and "truncated \<Longrightarrow> length (rs_inReach rs) = provenanceReachCap"
    by (auto simp: reach_sound_def)
  assume "\<not> truncated"
  with inv have full: "reach_inv d cone scope (set as) (rs_settled rs) rs" "rs_heap rs = []" by auto
  have "fset (fmdom (rs_best rs)) \<subseteq> rs_settled rs"
    using full by (auto simp: reach_inv_def fmlookup_dom_iff)
  then have closed: "x \<in> rs_settled rs" if "u \<in> rs_settled rs" "prov_step d cone scope u x" for u x
    using full that unfolding reach_inv_def by blast
  have set_eq: "rs_settled rs = set as \<union> set (rs_inReach rs)" using inv by (simp add: reach_sound_def)
  have "x \<in> rs_settled rs" if "(prov_step d cone scope)\<^sup>+\<^sup>+ a x" "a \<in> set as" for a x
    using that
  proof (induction rule: tranclp_induct)
    case (base y)
    then show ?case using closed [of a y] set_eq by blast
  qed (rule closed)
  then show "set (rs_inReach rs) = ancestry d cone scope (set as) - set as"
    using sub set_eq by (auto simp: ancestry_def)
qed

section \<open>The links of phase two\<close>

text \<open>The number of edges from \<open>x\<close> into \<open>u\<close>, and the edges out of \<open>x\<close> in the
  order the targets are visited.\<close>

definition edges_between :: "dag \<Rightarrow> string \<Rightarrow> SelectionScope \<Rightarrow> string \<Rightarrow> string \<Rightarrow> nat" where
  "edges_between d cone scope x u =
     length (filter (\<lambda>e. e_FromMessageId e = x) (contributorsOf d cone scope u))"

definition out_terms ::
  "dag \<Rightarrow> string \<Rightarrow> SelectionScope \<Rightarrow> string list \<Rightarrow> string \<Rightarrow> (string \<times> float64) list" where
  "out_terms d cone scope targets x =
     concat (map (\<lambda>u. map (\<lambda>e. (u, e_Score e))
       (filter (\<lambda>e. e_FromMessageId e = x) (contributorsOf d cone scope u))) targets)"

lemma link_fold:
  assumes "x \<notin> A" and "x \<in> R"
  shows "lookup_or [] (fst (foldl (link_edge A R u) op es)) x =
           lookup_or [] (fst op) x @ map (\<lambda>e. (u, e_Score e)) (filter (\<lambda>e. e_FromMessageId e = x) es)"
    and "lookup_or 0 (snd (foldl (link_edge A R u) op es)) x =
           lookup_or 0 (snd op) x +
           (if u \<notin> A \<and> u \<in> R then int (length (filter (\<lambda>e. e_FromMessageId e = x) es)) else 0)"
  using assms by (induction es arbitrary: op) (auto simp: link_edge_def Let_def)

lemma build_links_spec:
  assumes "x \<notin> A" and "x \<in> R"
  shows "lookup_or [] (fst (build_links d cone scope A R ts)) x = out_terms d cone scope ts x"
    and "lookup_or 0 (snd (build_links d cone scope A R ts)) x =
         sum_list (map (\<lambda>u. if u \<notin> A \<and> u \<in> R then int (edges_between d cone scope x u) else 0) ts)"
proof -
  let ?f = "\<lambda>op u. foldl (link_edge A R u) op (contributorsOf d cone scope u)"
  have "lookup_or [] (fst (foldl ?f op ts)) x = lookup_or [] (fst op) x @ out_terms d cone scope ts x"
    for op by (induction ts arbitrary: op) (auto simp: link_fold [OF assms] out_terms_def)
  then show "lookup_or [] (fst (build_links d cone scope A R ts)) x = out_terms d cone scope ts x"
    by (simp add: build_links_def)
  have "lookup_or 0 (snd (foldl ?f op ts)) x = lookup_or 0 (snd op) x +
      sum_list (map (\<lambda>u. if u \<notin> A \<and> u \<in> R then int (edges_between d cone scope x u) else 0) ts)"
    for op by (induction ts arbitrary: op) (auto simp: link_fold [OF assms] edges_between_def)
  then show "lookup_or 0 (snd (build_links d cone scope A R ts)) x =
      sum_list (map (\<lambda>u. if u \<notin> A \<and> u \<in> R then int (edges_between d cone scope x u) else 0) ts)"
    by (simp add: build_links_def)
qed

lemma sum_list_sort: "sum_list (map f (sort xs)) = (sum_list (map f xs) :: int)"
  by (metis mset_map mset_sort sum_mset_sum_list)

lemma pending_start:
  assumes "distinct ms" and "set as \<inter> set ms = {}" and "x \<in> set ms"
  shows "lookup_or 0 (snd (build_links d cone scope (set as) (set ms) (sort (as @ ms)))) x =
         (\<Sum>u \<in> set ms. int (edges_between d cone scope x u))"
proof -
  let ?g = "\<lambda>u. if u \<notin> set as \<and> u \<in> set ms then int (edges_between d cone scope x u) else 0"
  have x: "x \<notin> set as" using assms by auto
  have "map ?g as = map (\<lambda>_. 0) as" by auto
  then have "sum_list (map ?g as) = 0" by (simp only: sum_list_0)
  moreover have "sum_list (map ?g ms) = (\<Sum>u \<in> set ms. ?g u)"
    using assms(1) by (rule sum_list_distinct_conv_sum_set)
  moreover have "(\<Sum>u \<in> set ms. ?g u) = (\<Sum>u \<in> set ms. int (edges_between d cone scope x u))"
    using assms(2) by (intro sum.cong) auto
  ultimately show ?thesis
    by (simp only: build_links_spec(2) [OF x assms(3)] sum_list_sort map_append sum_list_append)
qed

lemma out_terms_between: "(u, w) \<in> set (out_terms d cone scope ts x) \<Longrightarrow> 0 < edges_between d cone scope x u"
  by (auto simp: out_terms_def edges_between_def filter_empty_conv)

lemma release_fold:
  assumes "x \<in> R - fin"
  shows "lookup_or 0 (fst (foldl (release R fin) pf es)) x =
           lookup_or 0 (fst pf) x - int (length (filter (\<lambda>e. e_FromMessageId e = x) es))"
    and "0 < length (filter (\<lambda>e. e_FromMessageId e = x) es) \<Longrightarrow>
         lookup_or 0 (fst (foldl (release R fin) pf es)) x = 0 \<Longrightarrow>
         x \<in> set (snd (foldl (release R fin) pf es))"
    and "x \<in> set (snd (foldl (release R fin) pf es)) \<Longrightarrow> x \<notin> set (snd pf) \<Longrightarrow>
         lookup_or 0 (fst (foldl (release R fin) pf es)) x \<le> 0"
proof -
  show eq: "lookup_or 0 (fst (foldl (release R fin) pf es)) x =
      lookup_or 0 (fst pf) x - int (length (filter (\<lambda>e. e_FromMessageId e = x) es))" for es
    using assms by (induction es rule: rev_induct) (auto simp: release_def Let_def)
  show "0 < length (filter (\<lambda>e. e_FromMessageId e = x) es) \<Longrightarrow>
      lookup_or 0 (fst (foldl (release R fin) pf es)) x = 0 \<Longrightarrow>
      x \<in> set (snd (foldl (release R fin) pf es))"
    using assms by (induction es rule: rev_induct) (auto simp: release_def Let_def split: if_splits)
  show "x \<in> set (snd (foldl (release R fin) pf es)) \<Longrightarrow> x \<notin> set (snd pf) \<Longrightarrow>
      lookup_or 0 (fst (foldl (release R fin) pf es)) x \<le> 0"
    using assms by (induction es rule: rev_induct) (auto simp: release_def Let_def split: if_splits)
qed

section \<open>The masses\<close>

lemma mass_sum_cong:
  assumes "\<And>u w. (u, w) \<in> set outs \<Longrightarrow> u \<in> R \<Longrightarrow> lookup_or 0 m u = lookup_or 0 m' u"
  shows "mass_sum A R m outs = mass_sum A R m' outs"
  unfolding mass_sum_def using assms by (intro foldl_cong) (auto split: prod.splits)

definition mass_inv ::
  "dag \<Rightarrow> string \<Rightarrow> SelectionScope \<Rightarrow> string set \<Rightarrow> string set \<Rightarrow> string list \<Rightarrow> string list \<Rightarrow>
   mass_state \<Rightarrow> bool" where
  "mass_inv d cone scope A R ts queue st \<longleftrightarrow>
     (let fin = ms_finalized st; between = edges_between d cone scope in
      fin \<subseteq> R \<and> fset (fmdom (ms_mass st)) = fin \<and> set queue \<subseteq> R \<and>
      (\<forall>x \<in> R - fin. lookup_or 0 (ms_pending st) x = (\<Sum>u \<in> R - fin. int (between x u))) \<and>
      (\<forall>x \<in> R - fin. lookup_or 0 (ms_pending st) x = 0 \<longleftrightarrow> x \<in> set queue) \<and>
      (\<forall>v \<in> fin. lookup_or 0 (ms_mass st) v = mass_sum A R (ms_mass st) (out_terms d cone scope ts v) \<and>
         (\<forall>u \<in> R. 0 < between v u \<longrightarrow> u \<in> fin)))"

lemma mass_inv_skip:
  "mass_inv d cone scope A R ts (v # queue) st \<Longrightarrow> v \<in> ms_finalized st \<Longrightarrow>
   mass_inv d cone scope A R ts queue st"
  by (auto simp: mass_inv_def Let_def)

lemma mass_inv_finalize:
  assumes R: "finite R" and inv: "mass_inv d cone scope A R ts (v # queue) st"
    and new: "v \<notin> ms_finalized st"
    and out: "lookup_or [] outgoing v = out_terms d cone scope ts v"
    and fin: "finalize d cone scope A R outgoing v st = (st', freed)"
  shows "mass_inv d cone scope A R ts (queue @ freed) st'"
proof -
  let ?F = "ms_finalized st" and ?F' = "ms_finalized st'" and ?b = "edges_between d cone scope"
  let ?p = "lookup_or 0 (ms_pending st)" and ?p' = "lookup_or 0 (ms_pending st')"
  let ?m = "ms_mass st" and ?m' = "ms_mass st'"
  note I = inv [unfolded mass_inv_def Let_def]
  have v: "v \<in> R - ?F" "?p v = 0" using I new by auto
  have F': "?F' = insert v ?F" by (rule finalize_frame(1) [OF fin])
  have m': "?m' = fmupd v (mass_sum A R ?m (out_terms d cone scope ts v)) ?m"
    and pf: "ms_pending st' = fst (foldl (release R ?F') (ms_pending st, []) (contributorsOf d cone scope v))"
    and fr: "set freed = set (snd (foldl (release R ?F') (ms_pending st, []) (contributorsOf d cone scope v)))"
    using fin out F' by (auto simp: finalize_def Let_def)
  have dep: "u \<in> ?F" if "u \<in> R" "0 < ?b v u" for u
  proof (rule ccontr)
    assume "u \<notin> ?F"
    then have "int (?b v u) \<le> (\<Sum>u \<in> R - ?F. int (?b v u))"
      using that R by (intro member_le_sum) auto
    with I v that show False by auto
  qed
  have split: "(\<Sum>u \<in> R - ?F. int (?b x u)) = int (?b x v) + (\<Sum>u \<in> R - ?F'. int (?b x u))" for x
    using v R F' sum.remove [of "R - ?F" v "\<lambda>u. int (?b x u)"] by (simp add: Diff_insert [symmetric])
  have pend: "?p' x = ?p x - int (?b x v)" if "x \<in> R - ?F'" for x
    using release_fold(1) [OF that] pf by (simp add: edges_between_def)
  have P: "?p' x = (\<Sum>u \<in> R - ?F'. int (?b x u))" if "x \<in> R - ?F'" for x
    using pend [OF that] split [of x] I that F' by auto
  have Q: "?p' x = 0 \<longleftrightarrow> x \<in> set (queue @ freed)" if x: "x \<in> R - ?F'" for x
  proof
    assume z: "?p' x = 0"
    show "x \<in> set (queue @ freed)"
    proof (cases "0 < ?b x v")
      case True
      then show ?thesis using release_fold(2) [OF x] z pf fr by (simp add: edges_between_def)
    next
      case False
      then have "?p x = 0" using pend [OF x] z by simp
      then show ?thesis using I x F' by auto
    qed
  next
    have nonneg: "0 \<le> ?p' x" using P [OF x] by (simp add: sum_nonneg)
    assume "x \<in> set (queue @ freed)"
    then consider "x \<in> set queue" | "x \<in> set freed" by auto
    then show "?p' x = 0"
    proof cases
      case 1
      then have "?p x = 0" using I x F' by auto
      then show ?thesis using pend [OF x] nonneg by simp
    next
      case 2
      then have "?p' x \<le> 0"
        using release_fold(3) [OF x, of "(ms_pending st, [])" "contributorsOf d cone scope v"] pf fr
        by simp
      with nonneg show ?thesis by simp
    qed
  qed
  have same: "mass_sum A R ?m' (out_terms d cone scope ts w) = mass_sum A R ?m (out_terms d cone scope ts w)"
    if w: "w \<in> ?F'" for w
  proof (rule mass_sum_cong)
    fix u x
    assume "(u, x) \<in> set (out_terms d cone scope ts w)" "u \<in> R"
    then have b: "0 < ?b w u" "u \<in> R" using out_terms_between by blast+
    have old: "u \<in> ?F" if "w \<in> ?F" using I that b by auto
    have "u \<in> ?F" using dep [OF b(2)] b(1) w F' old by auto
    then show "lookup_or 0 ?m' u = lookup_or 0 ?m u" using new m' by auto
  qed
  have mass: "lookup_or 0 ?m' w = mass_sum A R ?m' (out_terms d cone scope ts w) \<and>
      (\<forall>u \<in> R. 0 < ?b w u \<longrightarrow> u \<in> ?F')" if w: "w \<in> ?F'" for w
    using same [OF w] I dep w F' m' by auto
  have "set (queue @ freed) \<subseteq> R" using I finalize_frame(2) [OF fin] by auto
  moreover have "fset (fmdom ?m') = ?F'" "?F' \<subseteq> R" using I F' m' v by auto
  ultimately show ?thesis using P Q mass by (simp add: mass_inv_def Let_def)
qed

lemma mass_loop_inv:
  assumes "mass_inv d cone scope A (set ms) ts queue st"
    and "\<forall>v \<in> set ms. lookup_or [] outgoing v = out_terms d cone scope ts v"
  shows "mass_inv d cone scope A (set ms) ts [] (mass_loop d cone scope A ms outgoing queue st)"
  using assms
proof (induction d cone scope A ms outgoing queue st rule: mass_loop.induct)
  case (2 d cone scope A ms outgoing v queue st)
  show ?case
  proof (cases "v \<in> ms_finalized st")
    case True
    then show ?thesis using "2.IH"(1) "2.prems" mass_inv_skip by auto
  next
    case False
    obtain st' freed where f: "finalize d cone scope A (set ms) outgoing v st = (st', freed)"
      by (cases "finalize d cone scope A (set ms) outgoing v st")
    have "v \<in> set ms" using "2.prems"(1) by (simp add: mass_inv_def Let_def)
    then have "mass_inv d cone scope A (set ms) ts (queue @ freed) st'"
      using mass_inv_finalize [OF _ "2.prems"(1) False _ f] "2.prems"(2) by simp
    then show ?thesis using "2.IH"(2) [OF False f [symmetric]] "2.prems"(2) False f by simp
  qed
qed simp

lemma mass_inv_acyclic:
  assumes inv: "mass_inv d cone scope A R ts [] st" and "finite R"
    and rank: "\<And>u e. e \<in> set (contributorsOf d cone scope u) \<Longrightarrow> (rank (e_FromMessageId e) :: nat) < rank u"
  shows "ms_finalized st = R"
proof (rule ccontr)
  let ?U = "R - ms_finalized st"
  assume "ms_finalized st \<noteq> R"
  then have "?U \<noteq> {}" "finite ?U" using inv assms(2) by (auto simp: mass_inv_def Let_def)
  then obtain x where "x \<in> ?U" "rank x = Max (rank ` ?U)"
    using Max_in [of "rank ` ?U"] by (metis (no_types, lifting) finite_imageI imageE image_is_empty)
  with \<open>finite ?U\<close> have x: "x \<in> ?U" "\<And>y. y \<in> ?U \<Longrightarrow> rank y \<le> rank x" by auto
  have "edges_between d cone scope x u = 0" if "u \<in> ?U" for u
    using x(2) [OF that] rank by (fastforce simp: edges_between_def filter_empty_conv)
  then have "(\<Sum>u \<in> ?U. int (edges_between d cone scope x u)) = 0" by simp
  moreover have "\<forall>x \<in> ?U. lookup_or 0 (ms_pending st) x =
      (\<Sum>u \<in> ?U. int (edges_between d cone scope x u)) \<and> lookup_or 0 (ms_pending st) x \<noteq> 0"
    using inv unfolding mass_inv_def Let_def by (metis empty_iff empty_set)
  ultimately show False using x(1) by metis
qed

lemma leftovers_done:
  "set xs \<subseteq> ms_finalized st \<Longrightarrow>
   foldl (\<lambda>s v. if v \<in> ms_finalized s then s else fst (finalize d cone scope A R outgoing v s)) st xs = st"
  by (induction xs) auto

lemma leftovers_dom:
  "fset (fmdom (ms_mass st)) = ms_finalized st \<Longrightarrow>
   fset (fmdom (ms_mass (foldl (\<lambda>s v. if v \<in> ms_finalized s then s
      else fst (finalize d cone scope A R outgoing v s)) st xs))) = ms_finalized st \<union> set xs"
proof (induction xs arbitrary: st)
  case (Cons x xs)
  have "fset (fmdom (ms_mass (fst (finalize d cone scope A R outgoing x st)))) = insert x (ms_finalized st)"
    "ms_finalized (fst (finalize d cone scope A R outgoing x st)) = insert x (ms_finalized st)"
    using Cons.prems by (simp_all add: finalize_def Let_def)
  with Cons show ?case by auto
qed simp

text \<open>The walk's result in terms of its two phases.\<close>

lemma provenanceMassWalk_phases:
  assumes "provenanceMassWalk d as cone scope = (mass, threads, truncated)"
  obtains rs st where
    "reach_loop d cone scope (reach_seed d as cone scope) = (rs, truncated)"
    "fset (fmdom mass) = set (rs_inReach rs)"
    "mass_inv d cone scope (set as) (set (rs_inReach rs)) (sort (as @ sort (rs_inReach rs))) [] st"
    "ms_finalized st = set (rs_inReach rs) \<Longrightarrow> mass = ms_mass st"
proof -
  obtain rs tr where r: "reach_loop d cone scope (reach_seed d as cone scope) = (rs, tr)"
    by (cases "reach_loop d cone scope (reach_seed d as cone scope)")
  let ?ms = "sort (rs_inReach rs)"
  let ?ts = "sort (as @ ?ms)"
  let ?links = "build_links d cone scope (set as) (set ?ms) ?ts"
  let ?init = "\<lparr>ms_mass = fmempty, ms_finalized = {}, ms_pending = snd ?links, ms_threads = rs_threads rs\<rparr>"
  let ?ready = "filter (\<lambda>v. lookup_or 0 (snd ?links) v = 0) ?ms"
  let ?st = "mass_loop d cone scope (set as) ?ms (fst ?links) ?ready ?init"
  have w: "tr = truncated" "mass = ms_mass (mass_leftovers d cone scope (set as) ?ms (fst ?links) ?st)"
    using assms unfolding provenanceMassWalk_def r Let_def prod.case by blast+
  have ms: "distinct ?ms" "set as \<inter> set ?ms = {}"
    using reach_result(1,3) [OF r] by auto
  have "mass_inv d cone scope (set as) (set ?ms) ?ts ?ready ?init"
    using pending_start [OF ms, of _ d cone scope]
    by (simp add: mass_inv_def Let_def del: set_sort sum_nonneg_eq_0_iff)
  then have inv: "mass_inv d cone scope (set as) (set ?ms) ?ts [] ?st"
  proof (rule mass_loop_inv)
    show "\<forall>v \<in> set ?ms. lookup_or [] (fst ?links) v = out_terms d cone scope ?ts v"
      using build_links_spec(1) [of _ "set as" "set ?ms" d cone scope ?ts] ms(2) by blast
  qed
  then have dom: "fset (fmdom (ms_mass ?st)) = ms_finalized ?st" "ms_finalized ?st \<subseteq> set ?ms"
    by (auto simp: mass_inv_def Let_def)
  show thesis
  proof (rule that)
    show "reach_loop d cone scope (reach_seed d as cone scope) = (rs, truncated)" using r w by simp
    show "fset (fmdom mass) = set (rs_inReach rs)"
      using leftovers_dom [OF dom(1)] dom(2) w(2) by (auto simp: mass_leftovers_def)
    show "mass_inv d cone scope (set as) (set (rs_inReach rs)) ?ts [] ?st" using inv by simp
    show "mass = ms_mass ?st" if "ms_finalized ?st = set (rs_inReach rs)"
    proof -
      have "set ?ms \<subseteq> ms_finalized ?st" using that by simp
      then show ?thesis using w(2) by (simp only: mass_leftovers_def leftovers_done)
    qed
  qed
qed

lemma walk_undelivered:
  assumes "provenanceMassWalk d as cone scope = (mass, threads, truncated)"
  shows "fset (fmdom mass) \<inter> set as = {}"
proof -
  from provenanceMassWalk_phases [OF assms] obtain rs where
    r: "reach_loop d cone scope (reach_seed d as cone scope) = (rs, truncated)"
    and dom: "fset (fmdom mass) = set (rs_inReach rs)" by metis
  show ?thesis using reach_result(2-5) [OF r] dom by auto
qed

text \<open>C12: what the provenance walk surfaces. At most \<open>provenanceReachCap\<close> messages get a
  mass; each is reached from the delivered window through provenance edges in scope, and none
  belongs to the window itself; the walk reports truncation only with the cap filled, and
  without truncation every message of the window's undelivered ancestry has a mass.\<close>

theorem provenanceMassWalk_reach:
  assumes "provenanceMassWalk d as cone scope = (mass, threads, truncated)"
  shows "fset (fmdom mass) \<subseteq> ancestry d cone scope (set as) - set as \<and>
         card (fset (fmdom mass)) \<le> provenanceReachCap \<and>
         (truncated \<longrightarrow> card (fset (fmdom mass)) = provenanceReachCap) \<and>
         (\<not> truncated \<longrightarrow> fset (fmdom mass) = ancestry d cone scope (set as) - set as)"
proof -
  from provenanceMassWalk_phases [OF assms] obtain rs where
    r: "reach_loop d cone scope (reach_seed d as cone scope) = (rs, truncated)"
    and dom: "fset (fmdom mass) = set (rs_inReach rs)" by metis
  note res = reach_result [OF r]
  show ?thesis using res(2-5) dom distinct_card [OF res(1)] by auto
qed

text \<open>C11: the mass is the path sum. When provenance is generation-ordered (some ranking of the
  messages rises along every provenance edge), the mass of a reached message is the sum, over
  its provenance edges into the window or into another reached message, of the edge's weight,
  times the mass of the dependent when that is a reached message.\<close>

theorem provenanceMassWalk_path_sum:
  assumes "provenanceMassWalk d as cone scope = (mass, threads, truncated)"
    and "\<And>u e. e \<in> set (contributorsOf d cone scope u) \<Longrightarrow> (rank (e_FromMessageId e) :: nat) < rank u"
    and "v |\<in>| fmdom mass"
  shows "fmlookup mass v = Some (mass_sum (set as) (fset (fmdom mass)) mass
           (out_terms d cone scope (sort (as @ sorted_list_of_set (fset (fmdom mass)))) v))"
proof -
  from provenanceMassWalk_phases [OF assms(1)] obtain rs st where
    r: "reach_loop d cone scope (reach_seed d as cone scope) = (rs, truncated)"
    and dom: "fset (fmdom mass) = set (rs_inReach rs)"
    and inv: "mass_inv d cone scope (set as) (set (rs_inReach rs)) (sort (as @ sort (rs_inReach rs))) [] st"
    and eq: "ms_finalized st = set (rs_inReach rs) \<Longrightarrow> mass = ms_mass st" by metis
  have fin: "ms_finalized st = set (rs_inReach rs)"
    by (rule mass_inv_acyclic [OF inv, of rank]) (simp_all add: assms(2))
  have srt: "sort (rs_inReach rs) = sorted_list_of_set (fset (fmdom mass))"
    using reach_result(1) [OF r] dom by (metis sorted_list_of_set_sort_remdups distinct_remdups_id)
  have "lookup_or 0 mass v = mass_sum (set as) (fset (fmdom mass)) mass
      (out_terms d cone scope (sort (as @ sorted_list_of_set (fset (fmdom mass)))) v)"
    using inv fin eq [OF fin] dom assms(3) unfolding srt [symmetric] by (auto simp: mass_inv_def Let_def)
  then show ?thesis using assms(3) by (auto simp: lookup_or_def fmlookup_dom_iff)
qed

section \<open>A worked walk\<close>

text \<open>The window is \<open>w\<close>; \<open>a\<close> and \<open>b\<close> fed it, and \<open>b\<close> also fed
  \<open>a\<close>, every weight a half: \<open>b\<close> banks 1/2 + 1/2 * 1/2.\<close>

definition example_prov :: "string \<Rightarrow> string \<Rightarrow> Edge" where
  "example_prov a b = (example_edge a b)\<lparr>e_Source := EDGE_SOURCE_PROVENANCE, e_Score := Fin (1 / 2)\<rparr>"

definition example_prov_dag :: dag where
  "example_prov_dag =
     AddEdges_dag newDAG [example_prov ''b'' ''a'', example_prov ''a'' ''w'', example_prov ''b'' ''w'']"

abbreviation example_walk :: "(string, float64) fmap \<times> (string, string) fmap \<times> bool" where
  "example_walk \<equiv> provenanceMassWalk example_prov_dag [''w''] ''t'' SELECTION_SCOPE_THREAD"

lemma example_walk_mass: "fmlookup (fst example_walk) ''b'' = Some (Fin (3 / 4))"
  by code_simp

lemma example_walk_full: "\<not> snd (snd example_walk)"
  by code_simp

lemma example_walk_split: "example_walk = (fst example_walk, fst (snd example_walk), snd (snd example_walk))"
  by simp

lemma example_contributors:
  "contributorsOf example_prov_dag ''t'' SELECTION_SCOPE_THREAD u =
     (if u = ''a'' then [example_prov ''b'' ''a'']
      else if u = ''w'' then [example_prov ''a'' ''w'', example_prov ''b'' ''w''] else [])"
  by (simp add: contributorsOf_def example_prov_dag_def live.into_add example_prov_def example_edge_def
      scopeAllows_def)

theorem provenanceMassWalk_reach_witness:
  "fset (fmdom (fst example_walk)) =
     ancestry example_prov_dag ''t'' SELECTION_SCOPE_THREAD (set [''w'']) - set [''w''] \<and>
   card (fset (fmdom (fst example_walk))) \<le> provenanceReachCap"
  using provenanceMassWalk_reach [OF example_walk_split] example_walk_full by blast

theorem provenanceMassWalk_path_sum_witness:
  "Some (Fin (3 / 4)) = Some (mass_sum (set [''w'']) (fset (fmdom (fst example_walk))) (fst example_walk)
     (out_terms example_prov_dag ''t'' SELECTION_SCOPE_THREAD
       (sort ([''w''] @ sorted_list_of_set (fset (fmdom (fst example_walk))))) ''b''))"
proof -
  have "e_FromMessageId (example_prov x y) = x" for x y by (simp add: example_prov_def example_edge_def)
  then have rank: "(if e_FromMessageId e = ''b'' then 0 else if e_FromMessageId e = ''a'' then 1 else 2) <
      (if u = ''b'' then 0 else if u = ''a'' then 1 else (2 :: nat))"
    if "e \<in> set (contributorsOf example_prov_dag ''t'' SELECTION_SCOPE_THREAD u)" for u e
    using that by (auto simp: example_contributors split: if_splits)
  have "''b'' |\<in>| fmdom (fst example_walk)" using example_walk_mass by (auto simp: fmlookup_dom_iff)
  from provenanceMassWalk_path_sum [OF example_walk_split, of "\<lambda>x. if x = ''b'' then 0 else if x = ''a'' then 1 else 2", OF rank this]
  show ?thesis using example_walk_mass by simp
qed

end
