(* ===== verification/Prerequisite_Selection.thy ===== *)
theory Prerequisite_Selection
  imports Engine Local_Context
begin

text \<open>
  \<^verbatim>\<open>rrc/prerequisite_selection.go\<close>: one selection event. Candidates come from the chunk
  oracle and from the provenance walk, are scored against every chunk of the serialized Local
  Context with a per-message maximum, and become edges into the anchor when they stand out
  from the event's own noise reference. \<open>rng n S\<close> is the order in which the runtime
  ranges over the map with keys \<open>S\<close> at the n-th such loop. An error leaves the scores
  cached so far in the engine. Durations and log lines are left out of the telemetry.
\<close>

type_synonym range_order = "nat \<Rightarrow> string fset \<Rightarrow> string list"

definition range_ok :: "range_order \<Rightarrow> bool" where
  "range_ok rng \<longleftrightarrow> (\<forall>n S. distinct (rng n S) \<and> set (rng n S) = fset S)"

section \<open>Scoring one chunk of the query\<close>

record event_state =
  ev_scores :: scoreCache
  ev_best :: "(string, float64) fmap"
  ev_tokens :: "(string, int) fmap"
  ev_threads :: "(string, string) fmap"
  ev_reranked :: int

definition score_key :: "string \<Rightarrow> SerializedLocalContextChunk \<Rightarrow> string \<Rightarrow> int \<Rightarrow> scoreKey" where
  "score_key fp lc mid ci =
     \<lparr>sk_Fingerprint = fp, sk_ChunkIndex = lc_Index lc, sk_CandidateMsgID = mid, sk_CandidateChunkIdx = ci\<rparr>"

definition ref_key :: "string \<Rightarrow> SerializedLocalContextChunk \<Rightarrow> ChunkRef \<Rightarrow> scoreKey" where
  "ref_key fp lc r = score_key fp lc (cr_MessageID r) (cr_ChunkIndex r)"

definition merge_best ::
  "(string \<Rightarrow> int) \<Rightarrow> string \<Rightarrow> float64 \<Rightarrow> string \<Rightarrow> event_state \<Rightarrow> event_state" where
  "merge_best est mid score txt st =
     (if (case fmlookup (ev_best st) mid of None \<Rightarrow> True | Some cur \<Rightarrow> cur < score)
      then st\<lparr>ev_best := fmupd mid score (ev_best st), ev_tokens := fmupd mid (est txt) (ev_tokens st)\<rparr>
      else st)"

text \<open>The cached scores of a batch, and the scores of the others filled in order; a score the
  scorer did not return is 0. The flag marks what was not cached.\<close>

fun fill_scores ::
  "(ChunkRef \<times> float64 option) list \<Rightarrow> float64 list \<Rightarrow> (ChunkRef \<times> float64 \<times> bool) list" where
  "fill_scores [] scores = []"
| "fill_scores ((r, Some s) # rs) scores = (r, s, False) # fill_scores rs scores"
| "fill_scores ((r, None) # rs) scores =
     (case scores of [] \<Rightarrow> (r, 0, True) # fill_scores rs []
      | s # ss \<Rightarrow> (r, s, True) # fill_scores rs ss)"

definition put_scores ::
  "string \<Rightarrow> SerializedLocalContextChunk \<Rightarrow> (ChunkRef \<times> float64 \<times> bool) list \<Rightarrow> scoreCache \<Rightarrow> scoreCache" where
  "put_scores fp lc filled sc =
     foldl (\<lambda>c (r, s, new). if new then setLocalContext (ref_key fp lc r) s c else c) sc filled"

definition lookup_batch ::
  "string \<Rightarrow> SerializedLocalContextChunk \<Rightarrow> scoreCache \<Rightarrow> ChunkRef list \<Rightarrow> (ChunkRef \<times> float64 option) list" where
  "lookup_batch fp lc sc refs = map (\<lambda>r. (r, getLocalContext sc (ref_key fp lc r))) refs"

definition uncached :: "(ChunkRef \<times> float64 option) list \<Rightarrow> ChunkRef list" where
  "uncached looked = map fst (filter (\<lambda>x. snd x = None) looked)"

definition score_chunk ::
  "Scorer option \<Rightarrow> (string \<Rightarrow> int) \<Rightarrow> string \<Rightarrow> SerializedLocalContextChunk \<Rightarrow> ChunkRef list \<Rightarrow>
   event_state \<Rightarrow> (scoreCache \<times> rrc_error) + event_state" where
  "score_chunk scorer est fp lc refs st =
     (let looked = lookup_batch fp lc (ev_scores st) refs;
          todo = uncached looked;
          res = (if todo = [] then Inr ([], 0)
                 else case scorer of
                   None \<Rightarrow> Inr (map cr_RetrievalScore todo, 0)
                 | Some f \<Rightarrow>
                     (case f (lc_Text lc) (map cr_Text todo) of
                        Inl err \<Rightarrow> Inl (ErrScorerFailed '''')
                      | Inr scores \<Rightarrow> Inr (scores, int (length todo))))
      in case res of
           Inl err \<Rightarrow> Inl (ev_scores st, err)
         | Inr (scores, n) \<Rightarrow>
             let filled = fill_scores looked scores;
                 st1 = st\<lparr>ev_scores := put_scores fp lc filled (ev_scores st),
                          ev_reranked := ev_reranked st + n\<rparr>
             in Inr (foldl (\<lambda>s (r, x, _). merge_best est (cr_MessageID r) x (cr_Text r) s) st1 filled))"

definition rerank_k :: "EngineConfig \<Rightarrow> int" where
  "rerank_k cfg = (if cfg_RerankTopK cfg \<le> 0 then 64 else cfg_RerankTopK cfg)"

fun retrieve_loop ::
  "ChunkOracle \<Rightarrow> Scorer option \<Rightarrow> (string \<Rightarrow> int) \<Rightarrow> string \<Rightarrow> int \<Rightarrow> Predicate \<Rightarrow>
   SerializedLocalContextChunk list \<Rightarrow> event_state \<Rightarrow> (scoreCache \<times> rrc_error) + event_state" where
  "retrieve_loop orc scorer est fp k p [] st = Inr st"
| "retrieve_loop orc scorer est fp k p (lc # lcs) st =
     (case NearestChunks orc (lc_Text lc) k p of
        Inl err \<Rightarrow> Inl (ev_scores st, err)
      | Inr refs \<Rightarrow>
          let st1 = st\<lparr>ev_threads := foldl (\<lambda>t r. fmupd (cr_MessageID r) (cr_ThreadID r) t) (ev_threads st) refs\<rparr>
          in (case score_chunk scorer est fp lc refs st1 of
                Inl e \<Rightarrow> Inl e
              | Inr st2 \<Rightarrow> retrieve_loop orc scorer est fp k p lcs st2))"

section \<open>Messages reached by provenance\<close>

definition reached_chunk ::
  "Scorer option \<Rightarrow> (string \<Rightarrow> int) \<Rightarrow> string \<Rightarrow> SerializedLocalContextChunk \<Rightarrow> string \<Rightarrow>
   ChunkRef \<Rightarrow> event_state \<times> int \<Rightarrow> (scoreCache \<times> rrc_error) + event_state \<times> int" where
  "reached_chunk scorer est fp lc mid cand sn =
     (let st = fst sn; n = snd sn; key = score_key fp lc mid (cr_ChunkIndex cand) in
      case getLocalContext (ev_scores st) key of
        Some s \<Rightarrow> Inr (merge_best est mid s (cr_Text cand) st, n)
      | None \<Rightarrow>
          (case (case scorer of
                   None \<Rightarrow> Inr (cr_RetrievalScore cand, n)
                 | Some f \<Rightarrow>
                     (case f (lc_Text lc) [cr_Text cand] of
                        Inl err \<Rightarrow> Inl (ErrScorerFailed '''')
                      | Inr scores \<Rightarrow> Inr (case scores of [] \<Rightarrow> 0 | s # _ \<Rightarrow> s, n + 1))) of
             Inl err \<Rightarrow> Inl (ev_scores st, err)
           | Inr (score, n') \<Rightarrow>
               Inr (merge_best est mid score (cr_Text cand)
                     (st\<lparr>ev_scores := setLocalContext key score (ev_scores st)\<rparr>), n')))"

fun reached_chunks ::
  "Scorer option \<Rightarrow> (string \<Rightarrow> int) \<Rightarrow> string \<Rightarrow> SerializedLocalContextChunk \<Rightarrow>
   (string \<times> ChunkRef) list \<Rightarrow> event_state \<times> int \<Rightarrow> (scoreCache \<times> rrc_error) + event_state \<times> int" where
  "reached_chunks scorer est fp lc [] sn = Inr sn"
| "reached_chunks scorer est fp lc ((mid, cand) # xs) sn =
     (case reached_chunk scorer est fp lc mid cand sn of
        Inl e \<Rightarrow> Inl e | Inr sn' \<Rightarrow> reached_chunks scorer est fp lc xs sn')"

fun reached_loop ::
  "range_order \<Rightarrow> Scorer option \<Rightarrow> (string \<Rightarrow> int) \<Rightarrow> string \<Rightarrow> (string, ChunkRef list) fmap \<Rightarrow> nat \<Rightarrow>
   SerializedLocalContextChunk list \<Rightarrow> event_state \<times> int \<Rightarrow> (scoreCache \<times> rrc_error) + event_state \<times> int" where
  "reached_loop rng scorer est fp byMsg i [] sn = Inr sn"
| "reached_loop rng scorer est fp byMsg i (lc # lcs) sn =
     (case reached_chunks scorer est fp lc
             (concat (map (\<lambda>mid. map (Pair mid) (lookup_or [] byMsg mid)) (rng (3 + i) (fmdom byMsg)))) sn of
        Inl e \<Rightarrow> Inl e
      | Inr sn' \<Rightarrow> reached_loop rng scorer est fp byMsg (Suc i) lcs sn')"

definition scoreReachedMessages ::
  "range_order \<Rightarrow> ChunkOracle \<Rightarrow> Scorer option \<Rightarrow> (string \<Rightarrow> int) \<Rightarrow> SerializedLocalContext \<Rightarrow>
   string list \<Rightarrow> event_state \<Rightarrow> (scoreCache \<times> rrc_error) + event_state \<times> int" where
  "scoreReachedMessages rng orc scorer est local ids st =
     (case ChunksForMessages orc ids of
        Inl err \<Rightarrow> Inl (ev_scores st, err)
      | Inr byMsg \<Rightarrow> reached_loop rng scorer est (lx_Fingerprint local) byMsg 0 (lx_Chunks local) (st, 0))"

section \<open>The noise reference\<close>

fun floor_loop ::
  "Scorer \<Rightarrow> string \<Rightarrow> ChunkRef list \<Rightarrow> SerializedLocalContextChunk list \<Rightarrow> scoreCache \<Rightarrow>
   float64 list \<Rightarrow> (scoreCache \<times> rrc_error) + scoreCache \<times> float64 list" where
  "floor_loop f fp refs [] sc best = Inr (sc, best)"
| "floor_loop f fp refs (lc # lcs) sc best =
     (let looked = lookup_batch fp lc sc refs; todo = uncached looked in
      case (if todo = [] then Inr [] else f (lc_Text lc) (map cr_Text todo)) of
        Inl err \<Rightarrow> Inl (sc, ErrScorerFailed '''')
      | Inr scores \<Rightarrow>
          let filled = fill_scores looked scores in
          floor_loop f fp refs lcs (put_scores fp lc filled sc)
            (map2 (\<lambda>b (r, s, _). if b < s then s else b) best filled))"

definition referenceFloor ::
  "ChunkOracle \<Rightarrow> Scorer option \<Rightarrow> SerializedLocalContext \<Rightarrow> Predicate \<Rightarrow> scoreCache \<Rightarrow>
   (scoreCache \<times> rrc_error) + scoreCache \<times> float64 list" where
  "referenceFloor orc scorer local p sc =
     (case scorer of
        None \<Rightarrow> Inr (sc, [])
      | Some f \<Rightarrow>
          (case RandomChunks orc ReferenceSampleSize (referenceSeed (lx_Fingerprint local)) p of
             Inl err \<Rightarrow> Inl (sc, err)
           | Inr refs \<Rightarrow>
               floor_loop f (lx_Fingerprint local) refs (lx_Chunks local) sc
                 (replicate (length refs) NInf)))"

section \<open>The verdict on a candidate\<close>

definition batch_stddev :: "float64 list \<Rightarrow> float64" where
  "batch_stddev scores =
     (if scores = [] then 0
      else let n = float_of_int (int (length scores)); mean = foldl (+) 0 scores / n in
        math_Sqrt (foldl (\<lambda>s x. s + (x - mean) * (x - mean)) 0 scores / n))"

definition mass_less :: "(string, float64) fmap \<Rightarrow> string \<Rightarrow> string \<Rightarrow> bool" where
  "mass_less mass a b =
     (let ma = lookup_or 0 mass a; mb = lookup_or 0 mass b in
      if \<not> (ma \<le> mb \<and> mb \<le> ma) then mb < ma else a < b)"

text \<open>The mass channel: bits of the rank among the reached messages.\<close>

definition mass_bits :: "(string, float64) fmap \<Rightarrow> string list \<Rightarrow> (string, float64) fmap" where
  "mass_bits mass ids =
     (let ranked = sort_stable (mass_less mass) ids; n = int (length ids) in
      fmap_of_list (map (\<lambda>(i, x). (x, surprisalBits (float_of_int (int i + 1) / float_of_int (n + 1))))
        (List.enumerate 0 ranked)))"

definition gated_confidence ::
  "float64 list \<Rightarrow> float64 \<Rightarrow> float64 \<Rightarrow> float64 \<Rightarrow> float64 option" where
  "gated_confidence refScores priceBits mBits sim =
     (let p = nullP sim refScores;
          semBits = (if p \<le> 1 / float_of_int (int (length refScores) + 1) then surprisalBits p else 0);
          semDetected = (0 < semBits \<and> priceBits \<le> semBits);
          massDetected = (0 < mBits \<and> priceBits \<le> mBits)
      in if \<not> semDetected \<and> \<not> massDetected then None
         else Some (confidenceFromBits
           ((if semDetected then 0 + semBits else 0) + (if massDetected then mBits else 0))))"

definition ungated_confidence :: "float64 \<Rightarrow> float64" where
  "ungated_confidence sim = (if sim < 0 then 0 else if 1 < sim then 1 else sim)"

definition candidate_edge ::
  "int \<Rightarrow> EngineConfig \<Rightarrow> Message \<Rightarrow> (string, string) fmap \<Rightarrow> string \<Rightarrow> float64 \<Rightarrow> float64 \<Rightarrow> Edge" where
  "candidate_edge now cfg anchor threads mid conf sim =
     \<lparr>e_FromMessageId = mid, e_ToMessageId = m_Id anchor, e_Score = float32 conf,
      e_Source = EDGE_SOURCE_CROSS_ENCODER, e_CrossEncoderScore = float32 sim, e_DetectedAt = now,
      e_FromThreadId = lookup_or '''' threads mid, e_ToThreadId = m_ThreadId anchor,
      e_ScorerModel = cfg_ScorerModelID cfg\<rparr>"

text \<open>The verdict of the acceptance loop on one candidate, given the event's measurements.\<close>

definition candidate_verdict ::
  "EngineConfig \<Rightarrow> float64 \<Rightarrow> float64 list \<Rightarrow> (string, float64) fmap \<Rightarrow> (string, int) fmap \<Rightarrow>
   string \<Rightarrow> float64 \<Rightarrow> float64 option" where
  "candidate_verdict cfg price refScores massBits tokens mid sim =
     (let priceBits = stanceBits (cfg_LossRatio cfg) + price * float_of_int (lookup_or 0 tokens mid) in
      if minReferenceSample \<le> length refScores
      then gated_confidence refScores priceBits (lookup_or 0 massBits mid) sim
      else Some (ungated_confidence sim))"

fun candidate_edges ::
  "(nat \<Rightarrow> int) \<Rightarrow> (string \<Rightarrow> float64 \<Rightarrow> float64 option) \<Rightarrow> EngineConfig \<Rightarrow> Message \<Rightarrow>
   (string, string) fmap \<Rightarrow> nat \<Rightarrow> (string \<times> float64) list \<Rightarrow> Edge list" where
  "candidate_edges now verdict cfg anchor threads i [] = []"
| "candidate_edges now verdict cfg anchor threads i ((mid, sim) # cs) =
     (case verdict mid sim of
        None \<Rightarrow> candidate_edges now verdict cfg anchor threads i cs
      | Some conf \<Rightarrow> candidate_edge (now i) cfg anchor threads mid conf sim #
                     candidate_edges now verdict cfg anchor threads (Suc i) cs)"

section \<open>The event\<close>

record PrerequisiteSelectionTelemetry =
  pt_PriorsConsidered :: int
  pt_CandidatesScored :: int
  pt_Reranked :: int
  pt_EdgesFormed :: int
  pt_ProvenanceReached :: int
  pt_ProvenanceTruncated :: bool

definition no_telemetry :: PrerequisiteSelectionTelemetry where
  "no_telemetry = \<lparr>pt_PriorsConsidered = 0, pt_CandidatesScored = 0, pt_Reranked = 0,
     pt_EdgesFormed = 0, pt_ProvenanceReached = 0, pt_ProvenanceTruncated = False\<rparr>"

type_synonym event_result = "rrc_error + Edge list \<times> PrerequisiteSelectionTelemetry \<times> float64 list"

definition event_predicate :: "SelectionScope \<Rightarrow> string \<Rightarrow> string list \<Rightarrow> Predicate" where
  "event_predicate scope threadID ids =
     PredAnd [PredScope threadID (if scope = SELECTION_SCOPE_THREAD then ScopeThread else ScopeAll),
              PredExcludeMessageIDs ids]"

text \<open>Scoring: retrieval, then what the provenance walk reached and retrieval did not.\<close>

definition gather_candidates ::
  "range_order \<Rightarrow> ChunkOracle \<Rightarrow> (string \<Rightarrow> int) \<Rightarrow> SerializedLocalContext \<Rightarrow> Predicate \<Rightarrow>
   (string, float64) fmap \<Rightarrow> (string, string) fmap \<Rightarrow> Engine \<Rightarrow>
   (scoreCache \<times> rrc_error) + event_state \<times> int" where
  "gather_candidates rng orc est local p reachMass reachThreads e =
     (case retrieve_loop orc (en_scorer e) est (lx_Fingerprint local) (rerank_k (en_cfg e)) p (lx_Chunks local)
             \<lparr>ev_scores = en_scores e, ev_best = fmempty, ev_tokens = fmempty, ev_threads = fmempty,
              ev_reranked = 0\<rparr> of
        Inl x \<Rightarrow> Inl x
      | Inr st \<Rightarrow>
          if fmdom reachMass = {||} then Inr (st, 0)
          else let missing = filter (\<lambda>i. i |\<notin>| fmdom (ev_best st)) (rng 0 (fmdom reachMass)) in
            (case (if missing = [] then Inr (st, 0)
                   else scoreReachedMessages rng orc (en_scorer e) est local missing st) of
               Inl x \<Rightarrow> Inl x
             | Inr (st', n) \<Rightarrow>
                 Inr (st'\<lparr>ev_threads := fmadd reachThreads (ev_threads st'),
                          ev_reranked := ev_reranked st' + n\<rparr>, n)))"

text \<open>Acceptance: the flat-batch guard, the reference floor, the verdicts, the edges.\<close>

definition candidates_of :: "range_order \<Rightarrow> event_state \<Rightarrow> (string \<times> float64) list" where
  "candidates_of rng st = map (\<lambda>i. (i, lookup_or 0 (ev_best st) i)) (rng 1 (fmdom (ev_best st)))"

definition flat_batch :: "Engine \<Rightarrow> (string \<times> float64) list \<Rightarrow> bool" where
  "flat_batch e candidates \<longleftrightarrow>
     en_scorer e \<noteq> None \<and> 0 < cfg_MinBatchStdDev (en_cfg e) \<and> candidates \<noteq> [] \<and>
     batch_stddev (map snd candidates) < cfg_MinBatchStdDev (en_cfg e)"

definition event_floor ::
  "ChunkOracle \<Rightarrow> SerializedLocalContext \<Rightarrow> Predicate \<Rightarrow> (string \<times> float64) list \<Rightarrow> scoreCache \<Rightarrow>
   Engine \<Rightarrow> (scoreCache \<times> rrc_error) + scoreCache \<times> float64 list" where
  "event_floor orc local p candidates sc e =
     (if candidates = [] then Inr (sc, [])
      else referenceFloor orc (en_scorer e) local
             (PredAnd [p, PredExcludeMessageIDs (map fst candidates)]) sc)"

definition form_edges ::
  "range_order \<Rightarrow> (nat \<Rightarrow> int) \<Rightarrow> Message \<Rightarrow> string \<Rightarrow> (string, float64) fmap \<Rightarrow> event_state \<Rightarrow>
   float64 list \<Rightarrow> (string \<times> float64) list \<Rightarrow> Engine \<Rightarrow> Engine \<times> Edge list" where
  "form_edges rng now anchor threadID reachMass st refScores candidates e =
     (let massBits = (if fmdom reachMass = {||} then fmempty
                      else mass_bits reachMass (rng 2 (fmdom reachMass)));
          verdict = candidate_verdict (en_cfg e) (lastPrice e threadID) refScores massBits (ev_tokens st)
      in foldl admit_step (e, [])
           (candidate_edges now verdict (en_cfg e) anchor (ev_threads st) 0 candidates))"

definition accept_candidates ::
  "range_order \<Rightarrow> (nat \<Rightarrow> int) \<Rightarrow> ChunkOracle \<Rightarrow> SerializedLocalContext \<Rightarrow> Message \<Rightarrow> string \<Rightarrow>
   Predicate \<Rightarrow> (string, float64) fmap \<Rightarrow> bool \<Rightarrow> event_state \<Rightarrow> int \<Rightarrow> Engine \<Rightarrow>
   Engine \<times> event_result" where
  "accept_candidates rng now orc local anchor threadID p reachMass truncated st nreached e =
     (let candidates = candidates_of rng st;
          n = int (length candidates);
          tel = no_telemetry\<lparr>pt_PriorsConsidered := n, pt_CandidatesScored := n,
                             pt_Reranked := ev_reranked st\<rparr>
      in if flat_batch e candidates then (e\<lparr>en_scores := ev_scores st\<rparr>, Inr ([], tel, []))
         else case event_floor orc local p candidates (ev_scores st) e of
           Inl (sc, err) \<Rightarrow> (e\<lparr>en_scores := sc\<rparr>, Inl err)
         | Inr (sc, refScores) \<Rightarrow>
             let gated = (minReferenceSample \<le> length refScores) in
             if gated \<and> flatReference refScores
             then (e\<lparr>en_scores := sc\<rparr>, Inl (ErrScorerFailed ''flat reference''))
             else case form_edges rng now anchor threadID reachMass st refScores candidates
                         (e\<lparr>en_scores := sc\<rparr>) of
               (e', edges) \<Rightarrow>
                 (e', Inr (edges,
                   tel\<lparr>pt_EdgesFormed := int (length edges), pt_ProvenanceReached := nreached,
                       pt_ProvenanceTruncated := truncated\<rparr>,
                   if gated then refScores else [])))"

text \<open>Engines are built by \<open>NewEngine\<close> and \<open>Fork\<close>, so a token estimator is present; without
  one the first estimate panics.\<close>

definition selectPrerequisitesLocked ::
  "range_order \<Rightarrow> (nat \<Rightarrow> int) \<Rightarrow> SerializedLocalContext option \<Rightarrow> Message option \<Rightarrow>
   SelectionScope \<Rightarrow> string \<Rightarrow> Engine \<Rightarrow> Engine \<times> event_result" where
  "selectPrerequisitesLocked rng now local anchor scope threadID e =
     (case local of
        None \<Rightarrow> (e, Inr ([], no_telemetry, []))
      | Some lx \<Rightarrow>
          if lx_Chunks lx = [] then (e, Inr ([], no_telemetry, []))
          else case anchor of
            None \<Rightarrow> (e, Inl (ErrOther ''SelectPrerequisites: nil anchor''))
          | Some a \<Rightarrow>
            (case en_oracle e of
               None \<Rightarrow> (e, Inl ErrScorerUnavailable)
             | Some orc \<Rightarrow>
               (case c_Estimator (cfg_Chunk (en_cfg e)) of
                  None \<Rightarrow> (e, Inl (Panic ''chunk: no TokenEstimator on Config''))
                | Some est \<Rightarrow>
                    let p = event_predicate scope threadID (lx_MessageIDs lx) in
                    (case provenanceMassWalk (en_dag e) (lx_MessageIDs lx) threadID scope of
                       (reachMass, reachThreads, truncated) \<Rightarrow>
                         (case gather_candidates rng orc est lx p reachMass reachThreads e of
                            Inl (sc, err) \<Rightarrow> (e\<lparr>en_scores := sc\<rparr>, Inl err)
                          | Inr (st, nreached) \<Rightarrow>
                              accept_candidates rng now orc lx a threadID p reachMass truncated st nreached e)))))"

definition SelectPrerequisites ::
  "range_order \<Rightarrow> (nat \<Rightarrow> int) \<Rightarrow> SerializedLocalContext option \<Rightarrow> Message option \<Rightarrow>
   SelectionScope \<Rightarrow> string \<Rightarrow> Engine \<Rightarrow>
   Engine \<times> (rrc_error + Edge list \<times> PrerequisiteSelectionTelemetry)" where
  "SelectPrerequisites rng now local anchor scope threadID e =
     (case selectPrerequisitesLocked rng now local anchor scope threadID e of
        (e', Inl err) \<Rightarrow> (e', Inl err) | (e', Inr (edges, tel, _)) \<Rightarrow> (e', Inr (edges, tel)))"

end
