(* ===== verification/Assembly.thy ===== *)
theory Assembly
  imports Prerequisite_Selection Protocol_Closure
begin

text \<open>
  \<^verbatim>\<open>rrc/assembly.go\<close>: one outbound model call. The Local Context is closed under the
  tool protocol and shed to the budget, prerequisites are selected, closed and shed by
  density, and the wire, the realized price and the telemetry come out. The corpus store is an
  interface outside the engine, a record of functions here. The shed loop over selected groups
  ends only if the store answers an id with that message, so it is a
  \<open>partial_function\<close>: not returning is \<open>None\<close>. Token counts are mathematical
  integers; durations and log lines are left out.
\<close>

section \<open>Requests and results\<close>

record CorpusStore =
  cs_Messages :: "string list \<Rightarrow> rrc_error + (string, Message) fmap"
  cs_TurnPeers :: "Message list \<Rightarrow> rrc_error + Message list"

record AssembleRequest =
  ar_SerializedLocalContext :: "SerializedLocalContext option"
  ar_Anchor :: "Message option"
  ar_Store :: "CorpusStore option"
  ar_LocalContext :: "Message list"
  ar_Scope :: SelectionScope
  ar_ThreadID :: string
  ar_System :: "LLMMessage option"
  ar_Budget :: int
  ar_HeadroomPct :: float64
  ar_PerMsgDelim :: int
  ar_FixedTokens :: int
  ar_ExcludeIDs :: "string list"
  ar_CurrentTurnID :: string
  ar_CountText :: "(LLMMessage \<Rightarrow> string) option"
  ar_PriorSelection :: "SelectionResult option"

record AssembleTelemetry =
  at_SelectedCount :: int
  at_LocalContextCount :: int
  at_ClosureCount :: int
  at_SheddedCount :: int
  at_TotalTokens :: int
  at_EffectiveBudget :: int
  at_RealizedPrice :: float64
  at_PrerequisiteSelection :: PrerequisiteSelectionTelemetry

record AssembleResult =
  as_Wire :: "LLMMessage list"
  as_Selection :: SelectionResult
  as_SerializedLocalContext :: "SerializedLocalContext option"
  as_Edges :: "Edge list"
  as_Shed :: "string list"
  as_Telemetry :: AssembleTelemetry
  as_Delivered :: "DeliveryGroup list"
  as_LocalGroups :: "DeliveryGroup list"

datatype assemble_error =
    NilAnchor
  | EmptyLocalContext
  | AnchorNotLast
  | PinnedOverBudget int int
  | FixedOverBudget int int
  | SelectedMissing string
  | ProtocolError protocol_error
  | EngineError rrc_error

section \<open>Helpers\<close>

definition messageToLLM :: "Message \<Rightarrow> LLMMessage" where
  "messageToLLM msg = \<lparr>l_Role = m_Role msg, l_Content = m_Content msg\<rparr>"

definition messageIDs :: "Message list \<Rightarrow> string list" where
  "messageIDs messages = map m_Id messages"

fun sameIDs :: "string list \<Rightarrow> string list \<Rightarrow> bool" where
  "sameIDs [] [] = True"
| "sameIDs (x # xs) (y # ys) = (x = y \<and> sameIDs xs ys)"
| "sameIDs _ _ = False"

definition lastSemantic :: "Message list \<Rightarrow> string \<Rightarrow> Message option" where
  "lastSemantic local currentTurnID =
     find (\<lambda>m. \<not> (currentTurnID \<noteq> [] \<and> m_TurnId m \<noteq> currentTurnID) \<and> hasSemanticBlock (m_Content m))
       (rev local)"

text \<open>The backward scan stops once a user and an assistant message are pinned.\<close>

fun pin_loop :: "Message list \<Rightarrow> bool \<Rightarrow> bool \<Rightarrow> string set \<Rightarrow> string set" where
  "pin_loop [] haveUser haveAssistant pinned = pinned"
| "pin_loop (m # ms) haveUser haveAssistant pinned =
     (if haveUser \<and> haveAssistant then pinned
      else if \<not> hasSemanticBlock (m_Content m) then pin_loop ms haveUser haveAssistant pinned
      else if m_Role m = ROLE_USER \<and> \<not> haveUser
      then pin_loop ms True haveAssistant (insert (m_Id m) pinned)
      else if m_Role m = ROLE_ASSISTANT \<and> \<not> haveAssistant
      then pin_loop ms haveUser True (insert (m_Id m) pinned)
      else pin_loop ms haveUser haveAssistant pinned)"

definition pinnedLocalIDs :: "Message list \<Rightarrow> string \<Rightarrow> string set" where
  "pinnedLocalIDs local anchorID =
     (if local = [] then {} else pin_loop (rev local) False False {anchorID})"

definition oldestUnpinned :: "Message list \<Rightarrow> string set \<Rightarrow> string" where
  "oldestUnpinned local pinned =
     (case find (\<lambda>m. m_Id m \<notin> pinned) local of None \<Rightarrow> '''' | Some m \<Rightarrow> m_Id m)"

definition removeMessage :: "Message list \<Rightarrow> string \<Rightarrow> Message list" where
  "removeMessage messages i = filter (\<lambda>m. m_Id m \<noteq> i) messages"

definition closureKey :: "Message list \<Rightarrow> string" where
  "closureKey messages = concat (map (\<lambda>m. m_ThreadId m @ nul @ m_Id m @ nul) messages)"

definition groupOverlaps :: "DeliveryGroup \<Rightarrow> string set \<Rightarrow> bool" where
  "groupOverlaps g ids = list_ex (\<lambda>m. m_Id m \<in> ids) (dg_Messages g)"

definition closureCount :: "DeliveryGroup list \<Rightarrow> int" where
  "closureCount groups =
     foldl (\<lambda>n g. if 1 < length (dg_Messages g) then n + (int (length (dg_Messages g)) - 1) else n) 0 groups"

text \<open>Groups with the same closure become one; \<open>byClosure\<close> holds the index of the first.\<close>

definition merge_step ::
  "(string, nat) fmap \<times> DeliveryGroup list \<Rightarrow> DeliveryGroup \<Rightarrow> (string, nat) fmap \<times> DeliveryGroup list" where
  "merge_step bo g =
     (let byClosure = fst bo; out = snd bo; key = closureKey (dg_Messages g) in
      case fmlookup byClosure key of
        Some i \<Rightarrow>
          let prior = out ! i;
              joined = prior\<lparr>dg_RootIDs := dg_RootIDs prior @ dg_RootIDs g\<rparr>
          in (byClosure, out[i := (if dg_Score prior < dg_Score g
                                   then joined\<lparr>dg_RootID := dg_RootID g, dg_Score := dg_Score g\<rparr>
                                   else joined)])
      | None \<Rightarrow> (fmupd key (length out) byClosure, out @ [g]))"

definition mergeDeliveryGroups :: "DeliveryGroup list \<Rightarrow> DeliveryGroup list" where
  "mergeDeliveryGroups groups =
     map (\<lambda>g. g\<lparr>dg_RootIDs := sort (dg_RootIDs g)\<rparr>) (snd (foldl merge_step (fmempty, []) groups))"

fun close_each ::
  "ProtocolIndex \<Rightarrow> (string, float64) fmap option \<Rightarrow> Message list \<Rightarrow> protocol_error + DeliveryGroup list" where
  "close_each p scores [] = Inr []"
| "close_each p scores (r # rs) =
     (case CloseGroup p (Some r) (case scores of None \<Rightarrow> PInf | Some s \<Rightarrow> lookup_or 0 s (m_Id r)) of
        Inl err \<Rightarrow> Inl err
      | Inr g \<Rightarrow> (case close_each p scores rs of Inl err \<Rightarrow> Inl err | Inr gs \<Rightarrow> Inr (g # gs)))"

definition closeRoots ::
  "ProtocolIndex \<Rightarrow> Message list \<Rightarrow> (string, float64) fmap option \<Rightarrow> protocol_error + DeliveryGroup list" where
  "closeRoots p roots scores =
     (case close_each p scores roots of Inl err \<Rightarrow> Inl err | Inr gs \<Rightarrow> Inr (mergeDeliveryGroups gs))"

fun first_seen :: "string set \<Rightarrow> Message list \<Rightarrow> Message list" where
  "first_seen seen [] = []"
| "first_seen seen (m # ms) =
     (if m_Id m \<in> seen then first_seen seen ms else m # first_seen (insert (m_Id m) seen) ms)"

definition delivery_less :: "Message \<Rightarrow> Message \<Rightarrow> bool" where
  "delivery_less a b =
     (if m_ThreadId a \<noteq> m_ThreadId b then m_ThreadId a < m_ThreadId b
      else if m_Position a \<noteq> m_Position b then m_Position a < m_Position b
      else m_Id a < m_Id b)"

definition wire_messages :: "DeliveryGroup list \<Rightarrow> string set \<Rightarrow> Message list" where
  "wire_messages groups already =
     sort_stable delivery_less (first_seen already (concat (map dg_Messages groups)))"

definition groupsToWire :: "DeliveryGroup list \<Rightarrow> string set \<Rightarrow> LLMMessage list" where
  "groupsToWire groups already = map messageToLLM (wire_messages groups already)"

definition wireTokens ::
  "(string \<Rightarrow> int) \<Rightarrow> (LLMMessage \<Rightarrow> string) option \<Rightarrow> LLMMessage option \<Rightarrow> LLMMessage list \<Rightarrow>
   LLMMessage list \<Rightarrow> int \<Rightarrow> int \<Rightarrow> int" where
  "wireTokens est countText system head tail fixed delim =
     (let count = (case countText of None \<Rightarrow> (\<lambda>m. TextFromBlocks (l_Content m)) | Some f \<Rightarrow> f);
          head' = (case system of None \<Rightarrow> head | Some s \<Rightarrow> s # head)
      in foldl (\<lambda>total m. total + (est (count m) + delim)) fixed (head' @ tail))"

definition effective_budget :: "AssembleRequest \<Rightarrow> int" where
  "effective_budget req =
     (if 0 < ar_HeadroomPct req \<and> ar_HeadroomPct req \<le> 1
      then int_of_float (float_of_int (ar_Budget req) * ar_HeadroomPct req) else ar_Budget req)"

definition protocolScope :: "Message list \<Rightarrow> CorpusStore option \<Rightarrow> rrc_error + ProtocolIndex" where
  "protocolScope msgs store =
     (case store of
        None \<Rightarrow> Inr (NewProtocolIndex msgs)
      | Some s \<Rightarrow>
          (case cs_TurnPeers s msgs of
             Inl err \<Rightarrow> Inl err | Inr peers \<Rightarrow> Inr (NewProtocolIndex (msgs @ peers))))"

section \<open>The Local Context\<close>

lemma oldestUnpinned_removes:
  "oldestUnpinned local pinned \<noteq> [] \<Longrightarrow>
   length (removeMessage local (oldestUnpinned local pinned)) < length local"
proof -
  assume "oldestUnpinned local pinned \<noteq> []"
  then obtain m where "find (\<lambda>m. m_Id m \<notin> pinned) local = Some m"
    and eq: "oldestUnpinned local pinned = m_Id m"
    by (auto simp: oldestUnpinned_def split: option.splits)
  then have "m \<in> set local" by (auto simp: find_Some_iff)
  then show ?thesis unfolding eq removeMessage_def by (auto intro: length_filter_less)
qed

function local_loop ::
  "(string \<Rightarrow> int) \<Rightarrow> AssembleRequest \<Rightarrow> ProtocolIndex \<Rightarrow> string set \<Rightarrow> Message list \<Rightarrow>
   assemble_error + Message list \<times> DeliveryGroup list" where
  "local_loop est req p pinned local =
     (case closeRoots p local None of
        Inl err \<Rightarrow> Inl (ProtocolError err)
      | Inr groups \<Rightarrow>
          let total = wireTokens est (ar_CountText req) (ar_System req) [] (groupsToWire groups {})
                (ar_FixedTokens req) (ar_PerMsgDelim req)
          in if ar_Budget req \<le> 0 \<or> total \<le> effective_budget req then Inr (local, groups)
             else let d = oldestUnpinned local pinned in
               if d = [] then Inl (PinnedOverBudget total (effective_budget req))
               else local_loop est req p pinned (removeMessage local d))"
  by pat_completeness auto
termination
  by (relation "measure (\<lambda>(est, req, p, pinned, local). length local)")
     (auto simp: oldestUnpinned_removes)

declare local_loop.simps [simp del]

section \<open>Shedding selected groups\<close>

type_synonym cost_memo = "(string, int) fmap"

definition costOf :: "(DeliveryGroup \<Rightarrow> int) \<Rightarrow> DeliveryGroup \<Rightarrow> cost_memo \<Rightarrow> int \<times> cost_memo" where
  "costOf price g memo =
     (case fmlookup memo (dg_RootID g) of
        Some c \<Rightarrow> (c, memo)
      | None \<Rightarrow> let c = (if price g < 1 then 1 else price g) in (c, fmupd (dg_RootID g) c memo))"

definition densityOf ::
  "(DeliveryGroup \<Rightarrow> int) \<Rightarrow> float64 \<Rightarrow> DeliveryGroup \<Rightarrow> cost_memo \<Rightarrow> float64 \<times> cost_memo" where
  "densityOf price stance g memo =
     (case costOf price g memo of
        (c, memo') \<Rightarrow> ((bitsFromConfidence (dg_Score g) - stance) / float_of_int c, memo'))"

fun lowest_scan ::
  "(DeliveryGroup \<Rightarrow> cost_memo \<Rightarrow> float64 \<times> cost_memo) \<Rightarrow> DeliveryGroup list \<Rightarrow> cost_memo \<Rightarrow> float64 \<Rightarrow>
   DeliveryGroup option \<Rightarrow> DeliveryGroup option \<times> cost_memo" where
  "lowest_scan density [] memo lowest best = (best, memo)"
| "lowest_scan density (g # gs) memo lowest best =
     (case density g memo of
        (d, memo') \<Rightarrow>
          if d < lowest then lowest_scan density gs memo' d (Some g)
          else lowest_scan density gs memo' lowest best)"

definition lowestDensityGroup ::
  "(DeliveryGroup \<Rightarrow> cost_memo \<Rightarrow> float64 \<times> cost_memo) \<Rightarrow> DeliveryGroup list \<Rightarrow> cost_memo \<Rightarrow>
   DeliveryGroup option \<times> cost_memo" where
  "lowestDensityGroup density groups memo = lowest_scan density groups memo PInf None"

text \<open>The groups of one round, before merging.\<close>

fun select_groups ::
  "ProtocolIndex \<Rightarrow> (string, Message) fmap \<Rightarrow> string set \<Rightarrow> string set \<Rightarrow> SelectedMessage list \<Rightarrow>
   assemble_error + DeliveryGroup list" where
  "select_groups p corpus localIDs dropped [] = Inr []"
| "select_groups p corpus localIDs dropped (s # ss) =
     (if sm_MessageId s \<in> dropped \<or> sm_MessageId s \<in> localIDs
      then select_groups p corpus localIDs dropped ss
      else case fmlookup corpus (sm_MessageId s) of
        None \<Rightarrow> Inl (SelectedMissing (sm_MessageId s))
      | Some r \<Rightarrow>
          (case CloseGroup p (Some r) (sm_EffectiveScore s) of
             Inl err \<Rightarrow> Inl (ProtocolError err)
           | Inr g \<Rightarrow>
               (case select_groups p corpus localIDs dropped ss of
                  Inl err \<Rightarrow> Inl err
                | Inr gs \<Rightarrow> Inr (if groupOverlaps g localIDs then gs else g # gs))))"

text \<open>Ordering by the roots' positions reads the corpus once there are two groups; a root
  that is not in it is a nil dereference.\<close>

definition position_of :: "(string, Message) fmap \<Rightarrow> string \<Rightarrow> int" where
  "position_of corpus i = (case fmlookup corpus i of None \<Rightarrow> 0 | Some m \<Rightarrow> m_Position m)"

definition round_groups ::
  "ProtocolIndex \<Rightarrow> (string, Message) fmap \<Rightarrow> string set \<Rightarrow> string set \<Rightarrow> SelectedMessage list \<Rightarrow>
   assemble_error + DeliveryGroup list" where
  "round_groups p corpus localIDs dropped selected =
     (case select_groups p corpus localIDs dropped selected of
        Inl err \<Rightarrow> Inl err
      | Inr gs \<Rightarrow>
          let groups = mergeDeliveryGroups gs in
          if 2 \<le> length groups \<and> list_ex (\<lambda>g. fmlookup corpus (dg_RootID g) = None) groups
          then Inl (EngineError (Panic ''nil pointer dereference''))
          else Inr (sort_stable (\<lambda>a b. position_of corpus (dg_RootID a) < position_of corpus (dg_RootID b))
                     groups))"

record shed_state =
  sh_dropped :: "string set"
  sh_memo :: cost_memo
  sh_price :: float64

record shed_env =
  se_est :: "string \<Rightarrow> int"
  se_req :: AssembleRequest
  se_index :: ProtocolIndex
  se_corpus :: "(string, Message) fmap"
  se_localIDs :: "string set"
  se_localWire :: "LLMMessage list"
  se_stance :: float64
  se_selected :: "SelectedMessage list"

definition group_price :: "shed_env \<Rightarrow> DeliveryGroup \<Rightarrow> int" where
  "group_price v g =
     wireTokens (se_est v) (ar_CountText (se_req v)) None (groupsToWire [g] (se_localIDs v)) [] 0
       (ar_PerMsgDelim (se_req v))"

definition final_wire :: "shed_env \<Rightarrow> DeliveryGroup list \<Rightarrow> LLMMessage list" where
  "final_wire v groups =
     (case ar_System (se_req v) of None \<Rightarrow> [] | Some s \<Rightarrow> [s]) @
     groupsToWire groups (se_localIDs v) @ se_localWire v"

definition final_tokens :: "shed_env \<Rightarrow> DeliveryGroup list \<Rightarrow> int" where
  "final_tokens v groups =
     wireTokens (se_est v) (ar_CountText (se_req v)) None (final_wire v groups) []
       (ar_FixedTokens (se_req v)) (ar_PerMsgDelim (se_req v))"

text \<open>What the loop does after a group is chosen.\<close>

definition shed_group :: "shed_env \<Rightarrow> DeliveryGroup \<Rightarrow> cost_memo \<Rightarrow> shed_state \<Rightarrow> shed_state" where
  "shed_group v g memo s =
     (case densityOf (group_price v) (se_stance v) g memo of
        (d, memo') \<Rightarrow>
          \<lparr>sh_dropped = sh_dropped s \<union> set (dg_RootIDs g), sh_memo = memo',
           sh_price = (if sh_price s < d then d else sh_price s)\<rparr>)"

partial_function (option) shed_loop ::
  "shed_env \<Rightarrow> shed_state \<Rightarrow> (assemble_error + DeliveryGroup list \<times> shed_state) option" where
  "shed_loop v s =
     (case round_groups (se_index v) (se_corpus v) (se_localIDs v) (sh_dropped s) (se_selected v) of
        Inl err \<Rightarrow> Some (Inl err)
      | Inr groups \<Rightarrow>
          if ar_Budget (se_req v) \<le> 0 \<or> final_tokens v groups \<le> effective_budget (se_req v)
          then Some (Inr (groups, s))
          else (case lowestDensityGroup (densityOf (group_price v) (se_stance v)) groups (sh_memo s) of
                  (None, memo) \<Rightarrow>
                    Some (Inl (FixedOverBudget (final_tokens v groups) (effective_budget (se_req v))))
                | (Some g, memo) \<Rightarrow> shed_loop v (shed_group v g memo s)))"

section \<open>The selection of an assembly\<close>

text \<open>\<open>below\<close> gives the order in which the map of refused messages is ranged.\<close>

definition rerank_selected :: "string list \<Rightarrow> SelectionResult \<Rightarrow> Engine \<Rightarrow> rrc_error + SelectionResult" where
  "rerank_selected queryIDs res e =
     (if 1 < length (sr_Selected res) then
        (case ApplyMMR (sr_Selected res) queryIDs e of
           Inl (Panic msg) \<Rightarrow> Inl (Panic msg)
         | Inl _ \<Rightarrow> Inr res
         | Inr ranked \<Rightarrow> Inr (res\<lparr>sr_Selected := ranked\<rparr>))
      else Inr res)"

definition run_selection ::
  "range_order \<Rightarrow> (string fset \<Rightarrow> string list) \<Rightarrow> (nat \<Rightarrow> int) \<Rightarrow> AssembleRequest \<Rightarrow> Message \<Rightarrow>
   SerializedLocalContext \<Rightarrow> Engine \<Rightarrow>
   Engine \<times> (rrc_error + SelectionResult \<times> Edge list \<times> PrerequisiteSelectionTelemetry)" where
  "run_selection rng below now req anchor lx e =
     (case selectPrerequisitesLocked rng now (Some lx) (Some anchor) (ar_Scope req) (ar_ThreadID req) e of
        (e', Inl err) \<Rightarrow> (e', Inl err)
      | (e', Inr (edges, tel, eventFloor)) \<Rightarrow>
          let ks = below (fmdom (snd (extractSubgraph (en_dag e') (m_Id anchor) (ar_ThreadID req)
                     (ar_Scope req) (en_cfg e') eventFloor))) in
          (case selectLocked ks (m_Id anchor) (ar_Scope req) (ar_ThreadID req) eventFloor e' of
             Inl err \<Rightarrow> (e', Inl err)
           | Inr res \<Rightarrow>
               (case rerank_selected (lx_MessageIDs lx)
                       (res\<lparr>sr_EventId := lx_EventID lx, sr_LocalContextFingerprint := lx_Fingerprint lx,
                            sr_LocalContextMessageIds := lx_MessageIDs lx,
                            sr_AnchorMessageId := m_Id anchor\<rparr>) e' of
                  Inl err \<Rightarrow> (e', Inl err)
                | Inr res' \<Rightarrow> (e', Inr (res', edges, tel)))))"

definition empty_selection :: "AssembleRequest \<Rightarrow> Message \<Rightarrow> SelectionResult" where
  "empty_selection req anchor =
     \<lparr>sr_EventId = ''sel-'' @ m_Id anchor, sr_Scope = ar_Scope req, sr_ThreadId = ar_ThreadID req,
      sr_Selected = [], sr_Excluded = [], sr_LocalContextFingerprint = '''',
      sr_LocalContextMessageIds = [], sr_AnchorMessageId = m_Id anchor\<rparr>"

definition choose_selection ::
  "range_order \<Rightarrow> (string fset \<Rightarrow> string list) \<Rightarrow> (nat \<Rightarrow> int) \<Rightarrow> AssembleRequest \<Rightarrow> Message \<Rightarrow>
   SerializedLocalContext option \<Rightarrow> Engine \<Rightarrow>
   Engine \<times> (rrc_error + SelectionResult \<times> Edge list \<times> PrerequisiteSelectionTelemetry)" where
  "choose_selection rng below now req anchor serialized e =
     (case ar_PriorSelection req of
        Some prior \<Rightarrow> (e, Inr (prior, [], no_telemetry))
      | None \<Rightarrow>
          (case serialized of
             Some lx \<Rightarrow> run_selection rng below now req anchor lx e
           | None \<Rightarrow> (e, Inr (empty_selection req anchor, [], no_telemetry))))"

definition serialized_local ::
  "AssembleRequest \<Rightarrow> Message list \<Rightarrow> Config \<Rightarrow> SerializedLocalContext option option" where
  "serialized_local req local cfg =
     (case ar_SerializedLocalContext req of
        None \<Rightarrow> SerializeLocalContext local (ar_CurrentTurnID req) cfg
      | Some lx \<Rightarrow> if sameIDs (lx_MessageIDs lx) (messageIDs local) then Some (Some lx)
                  else SerializeLocalContext local (ar_CurrentTurnID req) cfg)"

section \<open>Assemble\<close>

text \<open>The content of the selected messages and the protocol index over them; \<open>fetched\<close>
  gives the order in which the fetched map is ranged.\<close>

definition fetch_selected ::
  "(string fset \<Rightarrow> string list) \<Rightarrow> CorpusStore option \<Rightarrow> string list \<Rightarrow>
   rrc_error + (string, Message) fmap \<times> ProtocolIndex" where
  "fetch_selected fetched store ids =
     (case store of
        None \<Rightarrow> Inl (Panic ''nil pointer dereference'')
      | Some s \<Rightarrow>
          (case cs_Messages s ids of
             Inl err \<Rightarrow> Inl err
           | Inr corpus \<Rightarrow>
               (case protocolScope (List.map_filter (fmlookup corpus) (fetched (fmdom corpus))) store of
                  Inl err \<Rightarrow> Inl err | Inr p \<Rightarrow> Inr (corpus, p))))"

definition group_ids :: "DeliveryGroup list \<Rightarrow> string set" where
  "group_ids groups = m_Id ` set (concat (map dg_Messages groups))"

definition assemble_result ::
  "shed_env \<Rightarrow> Message list \<Rightarrow> DeliveryGroup list \<Rightarrow> SelectionResult \<Rightarrow> SerializedLocalContext option \<Rightarrow>
   Edge list \<Rightarrow> PrerequisiteSelectionTelemetry \<Rightarrow> DeliveryGroup list \<Rightarrow> shed_state \<Rightarrow> AssembleResult" where
  "assemble_result v local localGroups selection serialized edges tel groups s =
     (let shed = sorted_list_of_set (sh_dropped s) in
      \<lparr>as_Wire = final_wire v groups, as_Selection = selection, as_SerializedLocalContext = serialized,
       as_Edges = edges, as_Shed = shed,
       as_Telemetry =
         \<lparr>at_SelectedCount = int (length groups), at_LocalContextCount = int (length local),
          at_ClosureCount = closureCount groups + closureCount localGroups,
          at_SheddedCount = int (length shed), at_TotalTokens = final_tokens v groups,
          at_EffectiveBudget = effective_budget (se_req v), at_RealizedPrice = sh_price s,
          at_PrerequisiteSelection = tel\<rparr>,
       as_Delivered = groups, as_LocalGroups = localGroups\<rparr>)"

definition delivery_env ::
  "(string \<Rightarrow> int) \<Rightarrow> AssembleRequest \<Rightarrow> DeliveryGroup list \<Rightarrow> SelectionResult \<Rightarrow> EngineConfig \<Rightarrow>
   (string, Message) fmap \<Rightarrow> ProtocolIndex \<Rightarrow> shed_env" where
  "delivery_env est req localGroups selection cfg corpus p =
     \<lparr>se_est = est, se_req = req, se_index = p, se_corpus = corpus,
      se_localIDs = group_ids localGroups, se_localWire = groupsToWire localGroups {},
      se_stance = stanceBits (cfg_LossRatio cfg), se_selected = sr_Selected selection\<rparr>"

definition shed_start :: "AssembleRequest \<Rightarrow> shed_state" where
  "shed_start req = \<lparr>sh_dropped = set (ar_ExcludeIDs req), sh_memo = fmempty, sh_price = 0\<rparr>"

text \<open>Delivery: the selection is fixed, what remains is fetching, shedding and the price.\<close>

definition deliver ::
  "(string fset \<Rightarrow> string list) \<Rightarrow> (string \<Rightarrow> int) \<Rightarrow> AssembleRequest \<Rightarrow> Message list \<Rightarrow>
   DeliveryGroup list \<Rightarrow> SerializedLocalContext option \<Rightarrow> SelectionResult \<Rightarrow> Edge list \<Rightarrow>
   PrerequisiteSelectionTelemetry \<Rightarrow> Engine \<Rightarrow> (Engine \<times> (assemble_error + AssembleResult)) option" where
  "deliver fetched est req local localGroups serialized selection edges tel e =
     (case fetch_selected fetched (ar_Store req) (map sm_MessageId (sr_Selected selection)) of
        Inl err \<Rightarrow> Some (e, Inl (EngineError err))
      | Inr (corpus, p) \<Rightarrow>
          let v = delivery_env est req localGroups selection (en_cfg e) corpus p in
          (case shed_loop v (shed_start req) of
             None \<Rightarrow> None
           | Some (Inl err) \<Rightarrow> Some (e, Inl err)
           | Some (Inr (groups, s)) \<Rightarrow>
               (case setPrice (ar_ThreadID req) (sh_price s) e of
                  Inl err \<Rightarrow> Some (e, Inl (EngineError err))
                | Inr e' \<Rightarrow>
                    Some (e', Inr (assemble_result v local localGroups selection serialized edges tel groups s)))))"

text \<open>The guards and the Local Context: all that precedes the selection and touches no state.
  The engines are built by \<open>NewEngine\<close> and \<open>Fork\<close>, so a token estimator is present;
  without one the first count panics.\<close>

definition prepare_local ::
  "AssembleRequest \<Rightarrow> EngineConfig \<Rightarrow>
   assemble_error + Message \<times> (string \<Rightarrow> int) \<times> Message list \<times> DeliveryGroup list \<times>
     SerializedLocalContext option" where
  "prepare_local req cfg =
     (case ar_Anchor req of
        None \<Rightarrow> Inl NilAnchor
      | Some anchor \<Rightarrow>
          if ar_LocalContext req = [] then Inl EmptyLocalContext
          else if map_option m_Id (lastSemantic (ar_LocalContext req) (ar_CurrentTurnID req)) \<noteq> Some (m_Id anchor)
          then Inl AnchorNotLast
          else case protocolScope (ar_LocalContext req) (ar_Store req) of
            Inl err \<Rightarrow> Inl (EngineError err)
          | Inr p \<Rightarrow>
              (case c_Estimator (cfg_Chunk cfg) of
                 None \<Rightarrow> Inl (EngineError (Panic ''chunk: no TokenEstimator on Config''))
               | Some est \<Rightarrow>
                   (case local_loop est req p (pinnedLocalIDs (ar_LocalContext req) (m_Id anchor))
                           (ar_LocalContext req) of
                      Inl err \<Rightarrow> Inl err
                    | Inr (local, localGroups) \<Rightarrow>
                        (case serialized_local req local (cfg_Chunk cfg) of
                           None \<Rightarrow> Inl (EngineError (Panic ''chunk: no TokenEstimator on Config''))
                         | Some serialized \<Rightarrow> Inr (anchor, est, local, localGroups, serialized)))))"

definition Assemble ::
  "range_order \<Rightarrow> (string fset \<Rightarrow> string list) \<Rightarrow> (string fset \<Rightarrow> string list) \<Rightarrow> (nat \<Rightarrow> int) \<Rightarrow>
   AssembleRequest \<Rightarrow> Engine \<Rightarrow> (Engine \<times> (assemble_error + AssembleResult)) option" where
  "Assemble rng below fetched now req e =
     (case prepare_local req (en_cfg e) of
        Inl err \<Rightarrow> Some (e, Inl err)
      | Inr (anchor, est, local, localGroups, serialized) \<Rightarrow>
          (case choose_selection rng below now req anchor serialized e of
             (e', Inl err) \<Rightarrow> Some (e', Inl (EngineError err))
           | (e', Inr (selection, edges, tel)) \<Rightarrow>
               deliver fetched est req local localGroups serialized selection edges tel e'))"

end
