(* ===== verification/Prerequisite_Correct.thy ===== *)
theory Prerequisite_Correct
  imports Prerequisite_Selection Engine_Correct Provenance_Correct
begin

text \<open>
  Properties of a selection event: what it may change in the engine whatever its outcome,
  which edges it forms, and that an edge it formed under a measured floor is one the same
  event's traversal selects.
\<close>

section \<open>The score cache only grows\<close>

definition cache_le :: "scoreCache \<Rightarrow> scoreCache \<Rightarrow> bool" where
  "cache_le sc sc' \<longleftrightarrow> (\<forall>k s. getLocalContext sc k = Some s \<longrightarrow> getLocalContext sc' k = Some s)"

lemma cache_le_refl [simp, intro]: "cache_le sc sc"
  by (simp add: cache_le_def)

lemma cache_le_trans: "cache_le a b \<Longrightarrow> cache_le b c \<Longrightarrow> cache_le a c"
  by (simp add: cache_le_def)

lemma get_set_LocalContext:
  "getLocalContext (setLocalContext k s sc) k' = (if k' = k then Some s else getLocalContext sc k')"
  by (simp add: getLocalContext_def setLocalContext_def)

lemma cache_le_set: "getLocalContext sc k = None \<Longrightarrow> cache_le sc (setLocalContext k s sc)"
  by (auto simp: cache_le_def get_set_LocalContext)

lemma fill_scores_refs: "map fst (fill_scores looked scores) = map fst looked"
  by (induction looked scores rule: fill_scores.induct) (auto split: list.splits)

lemma fill_scores_new:
  "(r, s, True) \<in> set (fill_scores looked scores) \<Longrightarrow> (r, None) \<in> set looked"
  by (induction looked scores rule: fill_scores.induct) (auto split: list.splits)

lemma put_scores_other:
  "(\<And>r s. (r, s, True) \<in> set filled \<Longrightarrow> ref_key fp lc r \<noteq> k) \<Longrightarrow>
   getLocalContext (put_scores fp lc filled sc) k = getLocalContext sc k"
  unfolding put_scores_def
proof (induction filled arbitrary: sc)
  case (Cons x filled)
  obtain r s new where x: "x = (r, s, new)" by (cases x)
  have ih: "getLocalContext (foldl (\<lambda>c (r, s, new). if new then setLocalContext (ref_key fp lc r) s c else c)
      sc' filled) k = getLocalContext sc' k" for sc'
    using Cons.prems by (intro Cons.IH) auto
  have "new \<Longrightarrow> ref_key fp lc r \<noteq> k" using Cons.prems x by auto
  then show ?case using x by (auto simp: ih get_set_LocalContext)
qed simp

lemma cache_le_batch:
  "cache_le sc (put_scores fp lc (fill_scores (lookup_batch fp lc sc refs) scores) sc)"
  unfolding cache_le_def
proof (intro allI impI)
  fix k s
  assume hit: "getLocalContext sc k = Some s"
  have "getLocalContext (put_scores fp lc (fill_scores (lookup_batch fp lc sc refs) scores) sc) k =
      getLocalContext sc k"
    using hit by (intro put_scores_other) (auto dest!: fill_scores_new simp: lookup_batch_def)
  then show "getLocalContext (put_scores fp lc (fill_scores (lookup_batch fp lc sc refs) scores) sc) k = Some s"
    using hit by simp
qed

text \<open>The cache an outcome leaves: an error carries it along.\<close>

definition left_cache :: "('a \<Rightarrow> scoreCache) \<Rightarrow> (scoreCache \<times> rrc_error) + 'a \<Rightarrow> scoreCache" where
  "left_cache f r = (case r of Inl (sc, _) \<Rightarrow> sc | Inr x \<Rightarrow> f x)"

lemma left_cache_simps [simp]: "left_cache f (Inl (sc, err)) = sc" "left_cache f (Inr x) = f x"
  by (simp_all add: left_cache_def)

lemma merge_best_scores [simp]: "ev_scores (merge_best est mid s t st) = ev_scores st"
  by (simp add: merge_best_def)

lemma merge_fold_scores:
  "ev_scores (foldl (\<lambda>s (r, x, _). merge_best est (cr_MessageID r) x (cr_Text r) s) st xs) = ev_scores st"
  by (induction xs arbitrary: st) (auto split: prod.splits)

lemma score_chunk_cache:
  "cache_le (ev_scores st) (left_cache ev_scores (score_chunk scorer est fp lc refs st))"
  by (simp add: score_chunk_def Let_def merge_fold_scores cache_le_batch split: option.split sum.split)

lemma retrieve_loop_cache:
  "cache_le (ev_scores st) (left_cache ev_scores (retrieve_loop orc scorer est fp k p lcs st))"
proof (induction lcs arbitrary: st)
  case (Cons lc lcs)
  show ?case
  proof (cases "NearestChunks orc (lc_Text lc) k p")
    case (Inr refs)
    define st1 where "st1 = st\<lparr>ev_threads :=
      foldl (\<lambda>t r. fmupd (cr_MessageID r) (cr_ThreadID r) t) (ev_threads st) refs\<rparr>"
    have le: "cache_le (ev_scores st) (left_cache ev_scores (score_chunk scorer est fp lc refs st1))"
      using score_chunk_cache [of st1] by (simp add: st1_def)
    show ?thesis
    proof (cases "score_chunk scorer est fp lc refs st1")
      case (Inl x)
      with le Inr show ?thesis by (cases x) (simp add: st1_def Let_def)
    next
      case (Inr st2)
      with le Cons.IH [of st2] \<open>NearestChunks orc (lc_Text lc) k p = Inr refs\<close> show ?thesis
        by (simp add: st1_def Let_def) (metis cache_le_trans)
    qed
  qed simp
qed simp

lemma reached_chunk_cache:
  "cache_le (ev_scores (fst sn)) (left_cache (ev_scores \<circ> fst) (reached_chunk scorer est fp lc mid cand sn))"
  by (auto simp: reached_chunk_def Let_def intro: cache_le_set split: option.split sum.split)

lemma reached_chunks_cache:
  "cache_le (ev_scores (fst sn)) (left_cache (ev_scores \<circ> fst) (reached_chunks scorer est fp lc xs sn))"
proof (induction scorer est fp lc xs sn rule: reached_chunks.induct)
  case (2 scorer est fp lc mid cand xs sn)
  have le: "cache_le (ev_scores (fst sn))
      (left_cache (ev_scores \<circ> fst) (reached_chunk scorer est fp lc mid cand sn))"
    by (rule reached_chunk_cache)
  show ?case
  proof (cases "reached_chunk scorer est fp lc mid cand sn")
    case (Inl x)
    with le show ?thesis by (cases x) simp
  next
    case (Inr sn')
    with le 2 show ?thesis by (auto intro: cache_le_trans)
  qed
qed simp

lemma reached_loop_cache:
  "cache_le (ev_scores (fst sn)) (left_cache (ev_scores \<circ> fst) (reached_loop rng scorer est fp byMsg i lcs sn))"
proof (induction lcs arbitrary: i sn)
  case (Cons lc lcs)
  let ?xs = "concat (map (\<lambda>mid. map (Pair mid) (lookup_or [] byMsg mid)) (rng (3 + i) (fmdom byMsg)))"
  have le: "cache_le (ev_scores (fst sn))
      (left_cache (ev_scores \<circ> fst) (reached_chunks scorer est fp lc ?xs sn))"
    by (rule reached_chunks_cache)
  show ?case
  proof (cases "reached_chunks scorer est fp lc ?xs sn")
    case (Inl x)
    with le show ?thesis by (cases x) simp
  next
    case (Inr sn')
    with le Cons.IH [of sn' "Suc i"] show ?thesis by (auto intro: cache_le_trans)
  qed
qed simp

lemma scoreReachedMessages_cache:
  "cache_le (ev_scores st)
     (left_cache (ev_scores \<circ> fst) (scoreReachedMessages rng orc scorer est local ids st))"
  using reached_loop_cache [where sn = "(st, 0)"]
  by (simp add: scoreReachedMessages_def split: sum.split)

lemma floor_loop_cache: "cache_le sc (left_cache fst (floor_loop f fp refs lcs sc best))"
proof (induction lcs arbitrary: sc best)
  case (Cons lc lcs)
  then show ?case
    by (auto simp: Let_def split: sum.split intro: cache_le_trans [OF cache_le_batch])
qed simp

lemma referenceFloor_cache: "cache_le sc (left_cache fst (referenceFloor orc scorer local p sc))"
  by (auto simp: referenceFloor_def floor_loop_cache split: option.split sum.split)

lemma gather_candidates_cache:
  "cache_le (en_scores e)
     (left_cache (ev_scores \<circ> fst) (gather_candidates rng orc est local p reachMass reachThreads e))"
proof -
  define start where "start = \<lparr>ev_scores = en_scores e, ev_best = fmempty, ev_tokens = fmempty,
    ev_threads = fmempty, ev_reranked = 0\<rparr>"
  let ?r = "retrieve_loop orc (en_scorer e) est (lx_Fingerprint local) (rerank_k (en_cfg e)) p
    (lx_Chunks local) start"
  have le: "cache_le (en_scores e) (left_cache ev_scores ?r)"
    using retrieve_loop_cache [of start] by (simp add: start_def)
  show ?thesis
  proof (cases ?r)
    case (Inl x)
    with le show ?thesis by (cases x) (simp add: gather_candidates_def flip: start_def)
  next
    case (Inr st)
    let ?missing = "filter (\<lambda>i. i |\<notin>| fmdom (ev_best st)) (rng 0 (fmdom reachMass))"
    let ?s = "scoreReachedMessages rng orc (en_scorer e) est local ?missing st"
    have "cache_le (en_scores e) (left_cache (ev_scores \<circ> fst) ?s)"
      using le Inr scoreReachedMessages_cache cache_le_trans by fastforce
    then show ?thesis
      using le Inr by (cases ?s) (auto simp: gather_candidates_def Let_def simp flip: start_def)
  qed
qed

section \<open>The frame of an event\<close>

lemma accept_candidates_frame:
  assumes "cache_le (en_scores e) (ev_scores st)"
    and "accept_candidates rng now orc local anchor threadID p reachMass truncated st n e = (e', r)"
  shows "\<exists>sc es. e' = e\<lparr>en_scores := sc, en_dag := AddEdges_dag (en_dag e) es\<rparr> \<and>
           cache_le (en_scores e) sc \<and>
           (case r of Inl err \<Rightarrow> es = []
            | Inr (edges, tel, flr) \<Rightarrow>
                es = edges \<and> pt_EdgesFormed tel = int (length edges) \<and>
                (flr = [] \<or> minReferenceSample \<le> length flr))"
proof -
  let ?c = "candidates_of rng st"
  define fl where "fl = event_floor orc local p ?c (ev_scores st) e"
  have fl_le: "cache_le (en_scores e) (left_cache fst fl)"
    unfolding fl_def event_floor_def
    using assms(1) cache_le_trans [OF assms(1) referenceFloor_cache] by simp
  show ?thesis
  proof (cases "flat_batch e ?c")
    case True
    with assms show ?thesis
      by (intro exI [of _ "ev_scores st"] exI [of _ "[]"])
         (auto simp: accept_candidates_def Let_def no_telemetry_def)
  next
    case False
    show ?thesis
    proof (cases fl)
      case (Inl x)
      then obtain sc err where "x = (sc, err)" by (cases x)
      with False Inl fl_le assms(2) show ?thesis
        by (intro exI [of _ sc] exI [of _ "[]"]) (auto simp: accept_candidates_def Let_def simp flip: fl_def)
    next
      case (Inr x)
      then obtain sc flr where x: "x = (sc, flr)" by (cases x)
      obtain e2 es where f: "form_edges rng now anchor threadID reachMass st flr ?c (e\<lparr>en_scores := sc\<rparr>) = (e2, es)"
        by force
      then have "e2 = e\<lparr>en_scores := sc, en_dag := AddEdges_dag (en_dag e) es\<rparr>"
        by (auto simp: form_edges_def Let_def admit_fold)
      with False Inr x f fl_le assms(2) show ?thesis
        by (intro exI [of _ sc] exI [of _ "if minReferenceSample \<le> length flr \<and> flatReference flr then [] else es"])
           (auto simp: accept_candidates_def Let_def simp flip: fl_def split: if_splits)
    qed
  qed
qed

text \<open>How an event can end.\<close>

lemma event_cases [consumes 1, case_names early failed scored]:
  assumes "selectPrerequisitesLocked rng now local anchor scope threadID e = (e', r)"
  obtains "e' = e" "(\<exists>err. r = Inl err) \<or> r = Inr ([], no_telemetry, [])"
  | orc est lx p mass threads sc err where
      "gather_candidates rng orc est lx p mass threads e = Inl (sc, err)"
      "e' = e\<lparr>en_scores := sc\<rparr>" "r = Inl err"
  | lx a orc est mass threads truncated st n where
      "local = Some lx" "anchor = Some a" "en_oracle e = Some orc"
      "c_Estimator (cfg_Chunk (en_cfg e)) = Some est"
      "provenanceMassWalk (en_dag e) (lx_MessageIDs lx) threadID scope = (mass, threads, truncated)"
      "gather_candidates rng orc est lx (event_predicate scope threadID (lx_MessageIDs lx)) mass threads e
         = Inr (st, n)"
      "accept_candidates rng now orc lx a threadID (event_predicate scope threadID (lx_MessageIDs lx))
         mass truncated st n e = (e', r)"
proof -
  consider (none) "e' = e" "(\<exists>err. r = Inl err) \<or> r = Inr ([], no_telemetry, [])"
    | (run) lx a orc est where "local = Some lx" "anchor = Some a" "en_oracle e = Some orc"
        "c_Estimator (cfg_Chunk (en_cfg e)) = Some est" "lx_Chunks lx \<noteq> []"
    using assms by (auto simp: selectPrerequisitesLocked_def split: option.splits if_splits)
  then show thesis
  proof cases
    case none
    then show thesis by (rule that(1))
  next
    case run
    obtain mass threads truncated where
      w: "provenanceMassWalk (en_dag e) (lx_MessageIDs lx) threadID scope = (mass, threads, truncated)"
      by (metis prod_cases3)
    let ?p = "event_predicate scope threadID (lx_MessageIDs lx)"
    show thesis
    proof (cases "gather_candidates rng orc est lx ?p mass threads e")
      case (Inl x)
      with run w assms that(2) show thesis
        by (cases x) (auto simp: selectPrerequisitesLocked_def Let_def)
    next
      case (Inr x)
      with run w assms that(3) show thesis
        by (cases x) (auto simp: selectPrerequisitesLocked_def Let_def)
    qed
  qed
qed

lemma event_frame:
  assumes "selectPrerequisitesLocked rng now local anchor scope threadID e = (e', r)"
  shows "\<exists>sc es. e' = e\<lparr>en_scores := sc, en_dag := AddEdges_dag (en_dag e) es\<rparr> \<and>
           cache_le (en_scores e) sc \<and>
           (case r of Inl err \<Rightarrow> es = []
            | Inr (edges, tel, flr) \<Rightarrow>
                es = edges \<and> pt_EdgesFormed tel = int (length edges) \<and>
                (flr = [] \<or> minReferenceSample \<le> length flr))"
  using assms
proof (cases rule: event_cases)
  case early
  from early(2) show ?thesis unfolding early(1)
    by (elim disjE exE)
       (auto intro!: exI [of _ "en_scores e"] exI [of _ "[]"] simp: no_telemetry_def)
next
  case (failed orc est lx p mass threads sc err)
  with gather_candidates_cache [of e rng orc est lx p mass threads] show ?thesis
    by (auto intro!: exI [of _ sc] exI [of _ "[]"])
next
  case (scored lx a orc est mass threads truncated st n)
  have "cache_le (en_scores e) (ev_scores st)"
    using gather_candidates_cache [of e rng orc est lx "event_predicate scope threadID (lx_MessageIDs lx)"
        mass threads] scored(6) by simp
  from accept_candidates_frame [OF this scored(7)] show ?thesis .
qed

text \<open>C10: the frame of a selection event. Whatever the outcome, the event changes nothing of
  the engine but its score cache and its graph; a score cached before the event is never
  overwritten; an event that fails adds no edge, and one that succeeds appends exactly the
  edges it returns and counts. The noise floor it reports is empty or has at least
  \<open>minReferenceSample\<close> scores.\<close>

theorem selectPrerequisites_frame:
  "case selectPrerequisitesLocked rng now local anchor scope threadID e of
     (e', r) \<Rightarrow>
       \<exists>sc es. e' = e\<lparr>en_scores := sc, en_dag := AddEdges_dag (en_dag e) es\<rparr> \<and>
         cache_le (en_scores e) sc \<and>
         (case r of Inl err \<Rightarrow> es = []
          | Inr (edges, tel, flr) \<Rightarrow>
              es = edges \<and> pt_EdgesFormed tel = int (length edges) \<and>
              (flr = [] \<or> minReferenceSample \<le> length flr))"
  using event_frame [of rng now local anchor scope threadID e]
  by (simp split: prod.split)

section \<open>Invariants of the scoring phase\<close>

text \<open>A property of the event's tables that survives the bookkeeping updates and every
  max-merge of a permitted message holds when scoring ends.\<close>

locale event_invariant =
  fixes P :: "event_state \<Rightarrow> bool" and permitted :: "string set" and est :: "string \<Rightarrow> int"
  assumes inv_scores: "P st \<Longrightarrow> P (st\<lparr>ev_scores := sc\<rparr>)"
    and inv_threads: "P st \<Longrightarrow> P (st\<lparr>ev_threads := th\<rparr>)"
    and inv_reranked: "P st \<Longrightarrow> P (st\<lparr>ev_reranked := i\<rparr>)"
    and inv_merge: "P st \<Longrightarrow> mid \<in> permitted \<Longrightarrow> P (merge_best est mid s str st)"
begin

lemma merge_fold_inv:
  "P st \<Longrightarrow> cr_MessageID ` fst ` set xs \<subseteq> permitted \<Longrightarrow>
   P (foldl (\<lambda>s (r, x, _). merge_best est (cr_MessageID r) x (cr_Text r) s) st xs)"
  by (induction xs arbitrary: st) (auto simp: inv_merge split: prod.splits)

lemma score_chunk_inv:
  assumes "P st" and "cr_MessageID ` set refs \<subseteq> permitted"
    and "score_chunk scorer est fp lc refs st = Inr st'"
  shows "P st'"
proof -
  have "fst ` set (fill_scores (lookup_batch fp lc sc refs) scores) = set refs" for sc scores
  proof -
    have "map fst (fill_scores (lookup_batch fp lc sc refs) scores) = refs"
      by (simp add: fill_scores_refs lookup_batch_def comp_def)
    then show ?thesis by (metis list.set_map)
  qed
  then have "P (foldl (\<lambda>s (r, x, _). merge_best est (cr_MessageID r) x (cr_Text r) s)
      (st\<lparr>ev_scores := sc', ev_reranked := n\<rparr>) (fill_scores (lookup_batch fp lc sc refs) scores))"
    for sc sc' n scores
    using assms(1,2) by (intro merge_fold_inv) (simp_all add: inv_reranked inv_scores)
  then show ?thesis
    using assms(3) by (auto simp: score_chunk_def Let_def split: option.splits sum.splits if_splits)
qed

lemma retrieve_loop_inv:
  assumes "\<And>lc refs. lc \<in> set lcs \<Longrightarrow> NearestChunks orc (lc_Text lc) k p = Inr refs \<Longrightarrow>
      cr_MessageID ` set refs \<subseteq> permitted"
    and "P st" and "retrieve_loop orc scorer est fp k p lcs st = Inr st'"
  shows "P st'"
  using assms
proof (induction lcs arbitrary: st)
  case (Cons lc lcs)
  obtain refs where refs: "NearestChunks orc (lc_Text lc) k p = Inr refs"
    using Cons.prems(3) by (auto split: sum.splits)
  define st1 where "st1 = st\<lparr>ev_threads :=
      foldl (\<lambda>t r. fmupd (cr_MessageID r) (cr_ThreadID r) t) (ev_threads st) refs\<rparr>"
  obtain st2 where st2: "score_chunk scorer est fp lc refs st1 = Inr st2"
    "retrieve_loop orc scorer est fp k p lcs st2 = Inr st'"
    using Cons.prems(3) refs by (auto simp: Let_def st1_def split: sum.splits)
  have "P st2"
    using score_chunk_inv [OF _ _ st2(1)] Cons.prems(1,2) refs inv_threads by (auto simp: st1_def)
  from Cons.IH [OF _ this st2(2)] Cons.prems(1) show ?case by simp blast
qed simp

lemma reached_chunk_inv:
  "P (fst sn) \<Longrightarrow> mid \<in> permitted \<Longrightarrow> reached_chunk scorer est fp lc mid cand sn = Inr sn' \<Longrightarrow> P (fst sn')"
  by (auto simp: reached_chunk_def Let_def inv_merge inv_scores split: option.splits sum.splits prod.splits)

lemma reached_chunks_inv:
  "P (fst sn) \<Longrightarrow> fst ` set xs \<subseteq> permitted \<Longrightarrow> reached_chunks scorer est fp lc xs sn = Inr sn' \<Longrightarrow> P (fst sn')"
proof (induction xs arbitrary: sn)
  case (Cons x xs)
  obtain mid cand where x: "x = (mid, cand)" by (cases x)
  obtain sn1 where sn1: "reached_chunk scorer est fp lc mid cand sn = Inr sn1"
    "reached_chunks scorer est fp lc xs sn1 = Inr sn'"
    using Cons.prems(3) x by (auto split: sum.splits)
  have "P (fst sn1)" using reached_chunk_inv [OF Cons.prems(1) _ sn1(1)] Cons.prems(2) x by simp
  from Cons.IH [OF this _ sn1(2)] Cons.prems(2) show ?case by simp
qed simp

lemma reached_loop_inv:
  assumes "range_ok rng" and "fset (fmdom byMsg) \<subseteq> permitted"
  shows "P (fst sn) \<Longrightarrow> reached_loop rng scorer est fp byMsg i lcs sn = Inr sn' \<Longrightarrow> P (fst sn')"
proof (induction lcs arbitrary: i sn)
  case (Cons lc lcs)
  let ?xs = "concat (map (\<lambda>mid. map (Pair mid) (lookup_or [] byMsg mid)) (rng (3 + i) (fmdom byMsg)))"
  obtain sn1 where s: "reached_chunks scorer est fp lc ?xs sn = Inr sn1"
    "reached_loop rng scorer est fp byMsg (Suc i) lcs sn1 = Inr sn'"
    using Cons.prems(2) by (auto split: sum.splits)
  have "fst ` set ?xs \<subseteq> permitted" using assms by (force simp: range_ok_def)
  with reached_chunks_inv [OF Cons.prems(1) _ s(1)] Cons.IH s(2) show ?case by blast
qed simp

lemma gather_candidates_inv:
  assumes run: "gather_candidates rng orc est local p mass threads e = Inr (st, n)"
    and rng: "range_ok rng"
    and near: "\<And>lc refs. lc \<in> set (lx_Chunks local) \<Longrightarrow>
      NearestChunks orc (lc_Text lc) (rerank_k (en_cfg e)) p = Inr refs \<Longrightarrow>
      cr_MessageID ` set refs \<subseteq> permitted"
    and chunks: "\<And>ids m. set ids \<subseteq> fset (fmdom mass) \<Longrightarrow> ChunksForMessages orc ids = Inr m \<Longrightarrow>
      fset (fmdom m) \<subseteq> permitted"
    and start: "\<And>sc. P \<lparr>ev_scores = sc, ev_best = fmempty, ev_tokens = fmempty,
      ev_threads = fmempty, ev_reranked = 0\<rparr>"
  shows "P st"
proof -
  obtain st1 where st1: "retrieve_loop orc (en_scorer e) est (lx_Fingerprint local) (rerank_k (en_cfg e)) p
      (lx_Chunks local) \<lparr>ev_scores = en_scores e, ev_best = fmempty, ev_tokens = fmempty,
      ev_threads = fmempty, ev_reranked = 0\<rparr> = Inr st1"
    using run by (auto simp: gather_candidates_def split: sum.splits)
  have P1: "P st1" using retrieve_loop_inv [OF near start st1] .
  let ?missing = "filter (\<lambda>i. i |\<notin>| fmdom (ev_best st1)) (rng 0 (fmdom mass))"
  have "P st2" if s: "scoreReachedMessages rng orc (en_scorer e) est local ?missing st1 = Inr (st2, k)" for st2 k
  proof -
    obtain m where m: "ChunksForMessages orc ?missing = Inr m"
      "reached_loop rng (en_scorer e) est (lx_Fingerprint local) m 0 (lx_Chunks local) (st1, 0) = Inr (st2, k)"
      using s by (auto simp: scoreReachedMessages_def split: sum.splits)
    have "set ?missing \<subseteq> fset (fmdom mass)" using rng by (auto simp: range_ok_def)
    from reached_loop_inv [OF rng chunks [OF this m(1)] _ m(2)] P1 show ?thesis by simp
  qed
  then show ?thesis
    using run st1 P1
    by (auto simp: gather_candidates_def Let_def inv_threads inv_reranked split: if_splits sum.splits)
qed

end

lemma merge_best_dom: "fset (fmdom (ev_best (merge_best est mid s t st))) \<subseteq> insert mid (fset (fmdom (ev_best st)))"
  by (auto simp: merge_best_def)


interpretation scored_ids: event_invariant "\<lambda>st. fset (fmdom (ev_best st)) \<subseteq> S" S est for S est
  by unfold_locales (use merge_best_dom in \<open>fastforce+\<close>)


section \<open>The edges an event forms\<close>

lemma candidate_edges_ids:
  "map e_FromMessageId (candidate_edges now verdict cfg a threads i cs) =
   map fst (filter (\<lambda>(mid, sim). verdict mid sim \<noteq> None) cs)"
  by (induction now verdict cfg a threads i cs rule: candidate_edges.induct)
     (auto simp: candidate_edge_def)

lemma candidate_edges_mem:
  "x \<in> set (candidate_edges now verdict cfg a threads i cs) \<Longrightarrow>
   \<exists>j mid sim conf. (mid, sim) \<in> set cs \<and> verdict mid sim = Some conf \<and>
     x = candidate_edge (now j) cfg a threads mid conf sim"
  by (induction now verdict cfg a threads i cs rule: candidate_edges.induct)
     (auto split: option.splits)

lemma admit_all: "en_edgeFilter e = None \<Longrightarrow> List.map_filter (admitted e) xs = xs"
  by (induction xs) (simp_all add: map_filter_simps admitted_def)

definition mass_channel :: "range_order \<Rightarrow> (string, float64) fmap \<Rightarrow> (string, float64) fmap" where
  "mass_channel rng reachMass =
     (if fmdom reachMass = {||} then fmempty else mass_bits reachMass (rng 2 (fmdom reachMass)))"

text \<open>The edges of a successful event without a filter, and the sample they were judged
  against.\<close>

lemma accept_edges:
  assumes "accept_candidates rng now orc local a threadID p mass truncated st n e = (e', Inr (edges, tel, flr))"
    and "en_edgeFilter e = None"
  obtains "edges = []" "flr = []"
  | refScores where
      "edges = candidate_edges now (candidate_verdict (en_cfg e) (lastPrice e threadID) refScores
         (mass_channel rng mass) (ev_tokens st)) (en_cfg e) a (ev_threads st) 0 (candidates_of rng st)"
      "flr = (if minReferenceSample \<le> length refScores then refScores else [])"
proof (cases "flat_batch e (candidates_of rng st)")
  case True
  with assms that(1) show thesis by (simp add: accept_candidates_def Let_def)
next
  case False
  then obtain sc refScores where
    "form_edges rng now a threadID mass st refScores (candidates_of rng st) (e\<lparr>en_scores := sc\<rparr>) = (e', edges)"
    "flr = (if minReferenceSample \<le> length refScores then refScores else [])"
    using assms(1)
    by (auto simp: accept_candidates_def Let_def split: sum.splits prod.splits if_splits)
  with assms(2) show thesis
    by (intro that(2) [of refScores])
       (auto simp: form_edges_def Let_def admit_fold admit_all mass_channel_def lastPrice_def)
qed

text \<open>The contract of the chunk oracle: retrieval applies the predicate it is given, and the
  chunk fetch answers only for the messages asked for.\<close>

definition ref_matches :: "Predicate \<Rightarrow> ChunkRef \<Rightarrow> bool" where
  "ref_matches p r \<longleftrightarrow>
     (\<exists>md. EvalPredicate p \<lparr>ca_MessageID = cr_MessageID r, ca_ThreadID = cr_ThreadID r, ca_Metadata = md\<rparr>)"

definition oracle_contract :: "ChunkOracle \<Rightarrow> bool" where
  "oracle_contract orc \<longleftrightarrow>
     (\<forall>txt k p refs. NearestChunks orc txt k p = Inr refs \<longrightarrow> list_all (ref_matches p) refs) \<and>
     (\<forall>ids m. ChunksForMessages orc ids = Inr m \<longrightarrow> fset (fmdom m) \<subseteq> set ids)"

lemma gathered_ids:
  assumes "gather_candidates rng orc est lx (event_predicate scope threadID (lx_MessageIDs lx)) mass threads e
      = Inr (st, n)"
    and "provenanceMassWalk d (lx_MessageIDs lx) threadID scope = (mass, threads, truncated)"
    and "range_ok rng" and "oracle_contract orc"
  shows "fset (fmdom (ev_best st)) \<inter> set (lx_MessageIDs lx) = {}"
proof -
  have "fset (fmdom (ev_best st)) \<subseteq> - set (lx_MessageIDs lx)"
  proof (rule scored_ids.gather_candidates_inv [OF assms(1,3)])
    show "cr_MessageID ` set refs \<subseteq> - set (lx_MessageIDs lx)"
      if "NearestChunks orc (lc_Text lc) (rerank_k (en_cfg e))
            (event_predicate scope threadID (lx_MessageIDs lx)) = Inr refs" for lc refs
    proof -
      have "list_all (ref_matches (event_predicate scope threadID (lx_MessageIDs lx))) refs"
        using assms(4) that unfolding oracle_contract_def by blast
      then show ?thesis
        by (auto simp: list_all_iff ref_matches_def event_predicate_def)
    qed
    show "fset (fmdom m) \<subseteq> - set (lx_MessageIDs lx)"
      if "set ids \<subseteq> fset (fmdom mass)" "ChunksForMessages orc ids = Inr m" for ids m
      using that walk_undelivered [OF assms(2)] assms(4) unfolding oracle_contract_def by blast
  qed simp
  then show ?thesis by blast
qed

text \<open>C9: what a selection event delivers is new. Under the oracle's contract, and without an
  edge filter, the edges formed come from pairwise different messages, none of which is in
  the delivered window; each points at the anchor, carries the anchor's thread and is a
  cross-encoder edge.\<close>

theorem selectPrerequisites_edges:
  assumes "selectPrerequisitesLocked rng now (Some lx) (Some a) scope threadID e = (e', Inr (edges, tel, flr))"
    and "en_oracle e = Some orc" and "oracle_contract orc" and "range_ok rng"
    and "en_edgeFilter e = None"
  shows "distinct (map e_FromMessageId edges) \<and>
         list_all (\<lambda>x. e_FromMessageId x \<notin> set (lx_MessageIDs lx) \<and> e_ToMessageId x = m_Id a \<and>
           e_ToThreadId x = m_ThreadId a \<and> e_Source x = EDGE_SOURCE_CROSS_ENCODER) edges"
  using assms(1)
proof (cases rule: event_cases)
  case early
  then show ?thesis by auto
next
  case failed
  then show ?thesis by simp
next
  case (scored lx' a' orc' est mass threads truncated st n)
  then have eq: "lx' = lx" "a' = a" "orc' = orc" using assms(2) by simp_all
  note s = scored [unfolded eq]
  have ids: "fset (fmdom (ev_best st)) \<inter> set (lx_MessageIDs lx) = {}"
    using gathered_ids [OF s(6) s(5) assms(4,3)] .
  have cands: "map fst (candidates_of rng st) = rng 1 (fmdom (ev_best st))"
    by (simp add: candidates_of_def comp_def)
  have set_c: "set (map fst (candidates_of rng st)) = fset (fmdom (ev_best st))"
    and dist_c: "distinct (map fst (candidates_of rng st))"
    unfolding cands using assms(4) by (simp_all add: range_ok_def)
  from s(7) assms(5) show ?thesis
  proof (cases rule: accept_edges)
    case 1
    then show ?thesis by simp
  next
    case (2 refScores)
    have "distinct (map e_FromMessageId edges)"
      unfolding 2(1) candidate_edges_ids using distinct_map_filter [OF dist_c] .
    moreover have "e_FromMessageId x \<notin> set (lx_MessageIDs lx) \<and> e_ToMessageId x = m_Id a \<and>
        e_ToThreadId x = m_ThreadId a \<and> e_Source x = EDGE_SOURCE_CROSS_ENCODER"
      if "x \<in> set edges" for x
    proof -
      from candidate_edges_mem [OF that [unfolded 2(1)]] obtain j mid sim conf where
        m: "(mid, sim) \<in> set (candidates_of rng st)"
        "x = candidate_edge (now j) (en_cfg e) a (ev_threads st) mid conf sim" by blast
      have "mid \<in> fset (fmdom (ev_best st))" using m(1) set_c by force
      then show ?thesis using ids m(2) by (auto simp: candidate_edge_def)
    qed
    ultimately show ?thesis by (simp add: list_all_iff)
  qed
qed

section \<open>The stance and the price of a gated event\<close>








text \<open>With a loss ratio of 0.95 and nineteen references, a candidate that beats them all is
  detected with confidence 0.95, exactly at the stance; stored as \<^verbatim>\<open>float32\<close> it is
  \<open>0.949999988\<close>, and the seed gate of the same event refuses the edge.\<close>

lemma float32_19_20: "float32 (Fin (19 / 20)) = Fin (15938355 / 16777216)"
proof -
  have "f32_exponent (19 / 20) = - 1" by (rule f32_exponent_eq) (simp_all add: power_int_minus)
  then have u: "f32_ulp (19 / 20) = 1 / 16777216" by (simp add: f32_ulp_def power_int_minus)
  have "round_even (19 / 20 / (1 / 16777216)) = 15938355"
  proof -
    have "\<lfloor>19 / 20 / (1 / 16777216 :: real)\<rfloor> = 15938355" by (simp add: floor_eq_iff)
    then show ?thesis by (simp add: round_even_def Let_def)
  qed
  then have "f32_nearest (19 / 20) = 15938355 / 16777216" unfolding f32_nearest_def u by simp
  then show ?thesis by (simp add: float32_pos f32_threshold_def)
qed

lemma narrowed_edge_refused:
  assumes "cfg_LossRatio cfg = Fin (19 / 20)" and "length refs = 19" and "list_all (\<lambda>r. \<not> sim \<le> r) refs"
  shows "candidate_verdict cfg 0 refs fmempty tokens mid sim = Some (Fin (19 / 20)) \<and>
    \<not> seed_admits threadID scope cfg (candidate_edge now cfg a threads mid (Fin (19 / 20)) sim)"
proof
  have none: "filter (\<lambda>x. sim \<le> x) refs = []" using assms(3) by (simp add: filter_empty_conv list_all_iff)
  have stance: "stanceBits (Fin (19 / 20)) = Fin (log 2 20)" by (simp add: stanceBits_Fin log_divide)
  have bits: "surprisalBits (nullP sim refs) = Fin (log 2 20)" using none assms(2) by (simp add: surprisal_nullP)
  have beat: "nullP sim refs \<le> 1 / float_of_int (int (length refs) + 1)" using assms(3) nullP_beats_all by blast
  have conf: "confidenceFromBits (Fin (log 2 20)) = Fin (19 / 20)" by (simp add: confidence_finite powr_minus)
  have pos: "0 < log 2 (20 :: real)" by simp
  have "gated_confidence refs (Fin (log 2 20)) 0 sim = Some (Fin (19 / 20))"
    using beat bits conf pos by (simp add: gated_confidence_def Let_def)
  then show "candidate_verdict cfg 0 refs fmempty tokens mid sim = Some (Fin (19 / 20))"
    using assms(1,2) stance by (simp add: candidate_verdict_def Let_def minReferenceSample_def)
  show "\<not> seed_admits threadID scope cfg (candidate_edge now cfg a threads mid (Fin (19 / 20)) sim)"
    using assms(1) by (simp add: seed_admits_def accept_def seedEdgeScore_def candidate_edge_def float32_19_20)
qed

section \<open>A worked event\<close>

definition example_chunk :: "string \<Rightarrow> string \<Rightarrow> ChunkRef" where
  "example_chunk i t =
     \<lparr>cr_MessageID = i, cr_ChunkIndex = 0, cr_ThreadID = ''t'', cr_Text = t, cr_Vector = [],
      cr_RetrievalScore = 0\<rparr>"

definition event_oracle :: ChunkOracle where
  "event_oracle = example_oracle\<lparr>
     NearestChunks := (\<lambda>_ _ p. Inr (filter (\<lambda>r. EvalPredicate p
       \<lparr>ca_MessageID = cr_MessageID r, ca_ThreadID = cr_ThreadID r, ca_Metadata = fmempty\<rparr>)
         [example_chunk ''x'' ''hit''])),
     RandomChunks := (\<lambda>_ _ _. Inr (map2 example_chunk [''r1'', ''r2'', ''r3'', ''r4'']
       [''a'', ''aa'', ''aaa'', ''aaaa'']))\<rparr>"

definition event_scorer :: Scorer where
  "event_scorer q texts =
     Inr (map (\<lambda>t. if t = ''hit'' then Fin (3 / 4) else Fin (real (length t) / 10)) texts)"

definition event_engine :: Engine where
  "event_engine =
     \<lparr>en_scorer = Some event_scorer, en_dag = newDAG, en_scores = newScoreCache,
      en_cfg = DefaultConfig\<lparr>cfg_MinBatchStdDev := 0, cfg_Chunk := example_config\<rparr>,
      en_oracle = Some event_oracle, en_edgeFilter = None, en_price = Some fmempty\<rparr>"

definition event_context :: SerializedLocalContext where
  "event_context =
     \<lparr>lx_EventID = ''sel-c'', lx_Fingerprint = ''f'', lx_MessageIDs = [''c''],
      lx_Chunks = [\<lparr>lc_Index = 0, lc_Text = ''?''\<rparr>]\<rparr>"

definition event_order :: range_order where
  "event_order n S = sorted_list_of_fset S"

definition event_edge :: Edge where
  "event_edge =
     \<lparr>e_FromMessageId = ''x'', e_ToMessageId = ''c'', e_Score = float32 (Fin (4 / 5)),
      e_Source = EDGE_SOURCE_CROSS_ENCODER, e_CrossEncoderScore = Fin (3 / 4), e_DetectedAt = 0,
      e_FromThreadId = ''t'', e_ToThreadId = ''t'', e_ScorerModel = ''''\<rparr>"

lemma event_order_ok: "range_ok event_order"
  by (simp add: range_ok_def event_order_def sorted_list_of_fset.rep_eq)

lemma event_walk:
  "provenanceMassWalk newDAG [''c''] ''t'' SELECTION_SCOPE_THREAD = (fmempty, fmempty, False)"
  by code_simp

lemma event_gathered:
  "gather_candidates event_order event_oracle (\<lambda>s. int (length s)) event_context
     (event_predicate SELECTION_SCOPE_THREAD ''t'' [''c'']) fmempty fmempty event_engine =
   Inr (\<lparr>ev_scores = setLocalContext \<lparr>sk_Fingerprint = ''f'', sk_ChunkIndex = 0,
             sk_CandidateMsgID = ''x'', sk_CandidateChunkIdx = 0\<rparr> (Fin (3 / 4)) newScoreCache,
         ev_best = fmupd ''x'' (Fin (3 / 4)) fmempty, ev_tokens = fmupd ''x'' 3 fmempty,
         ev_threads = fmupd ''x'' ''t'' fmempty, ev_reranked = 1\<rparr>, 0)"
  by (simp add: gather_candidates_def event_context_def event_engine_def event_oracle_def
      event_predicate_def example_chunk_def score_chunk_def lookup_batch_def uncached_def Let_def
      getLocalContext_def newScoreCache_def ref_key_def score_key_def event_scorer_def
      put_scores_def merge_best_def)

definition event_refs :: "float64 list" where
  "event_refs = [Fin (1 / 10), Fin (2 / 10), Fin (3 / 10), Fin (4 / 10)]"

definition event_tables :: event_state where
  "event_tables =
     \<lparr>ev_scores = setLocalContext \<lparr>sk_Fingerprint = ''f'', sk_ChunkIndex = 0,
             sk_CandidateMsgID = ''x'', sk_CandidateChunkIdx = 0\<rparr> (Fin (3 / 4)) newScoreCache,
      ev_best = fmupd ''x'' (Fin (3 / 4)) fmempty, ev_tokens = fmupd ''x'' 3 fmempty,
      ev_threads = fmupd ''x'' ''t'' fmempty, ev_reranked = 1\<rparr>"

lemma event_candidates: "candidates_of event_order event_tables = [(''x'', Fin (3 / 4))]"
  by (simp add: candidates_of_def event_order_def event_tables_def sorted_list_of_fset.rep_eq)

lemma event_floor_refs:
  "\<exists>sc. event_floor event_oracle event_context p [(''x'', Fin (3 / 4))] (ev_scores event_tables) event_engine
     = Inr (sc, event_refs)"
  by (simp add: event_floor_def referenceFloor_def event_engine_def event_oracle_def event_context_def
      event_tables_def example_chunk_def lookup_batch_def uncached_def Let_def
      getLocalContext_def setLocalContext_def newScoreCache_def ref_key_def score_key_def event_scorer_def
      put_scores_def event_refs_def)

lemma event_verdict:
  "candidate_verdict (en_cfg event_engine) 0 event_refs fmempty tokens mid (Fin (3 / 4)) = Some (Fin (4 / 5))"
proof -
  have "surprisalBits (nullP (Fin (3 / 4)) event_refs) = Fin (log 2 5)"
    by (simp add: surprisal_nullP event_refs_def)
  moreover have "nullP (Fin (3 / 4)) event_refs \<le> 1 / float_of_int (int (length event_refs) + 1)"
    by (simp add: nullP_Fin event_refs_def)
  moreover have "1 \<le> log 2 (5 :: real)" by (simp add: le_log_iff)
  ultimately show ?thesis
    by (simp add: candidate_verdict_def gated_confidence_def event_engine_def DefaultConfig_def
        stance_examples minReferenceSample_def Let_def confidence_finite powr_minus)
       (simp add: event_refs_def)
qed

lemma event_result:
  "\<exists>e' tel. selectPrerequisitesLocked event_order (\<lambda>_. 0) (Some event_context) (Some example_anchor)
     SELECTION_SCOPE_THREAD ''t'' event_engine = (e', Inr ([event_edge], tel, event_refs))"
proof -
  let ?p = "event_predicate SELECTION_SCOPE_THREAD ''t'' [''c'']"
  obtain sc where fl: "event_floor event_oracle event_context ?p [(''x'', Fin (3 / 4))]
      (ev_scores event_tables) event_engine = Inr (sc, event_refs)" using event_floor_refs by blast
  have flat: "\<not> flat_batch event_engine [(''x'', Fin (3 / 4))]" "\<not> flatReference event_refs"
    by (simp_all add: flat_batch_def event_engine_def flatReference_def event_refs_def minReferenceSample_def)
  have fe: "snd (form_edges event_order (\<lambda>_. 0) example_anchor ''t'' fmempty event_tables event_refs
      [(''x'', Fin (3 / 4))] (event_engine\<lparr>en_scores := sc\<rparr>)) = [event_edge]"
  proof -
    have "lastPrice (event_engine\<lparr>en_scores := sc\<rparr>) ''t'' = 0" "en_edgeFilter (event_engine\<lparr>en_scores := sc\<rparr>) = None"
      by (simp_all add: lastPrice_def event_engine_def)
    moreover have "candidate_edge 0 (en_cfg event_engine) example_anchor (ev_threads event_tables) ''x''
        (Fin (4 / 5)) (Fin (3 / 4)) = event_edge"
      by (simp add: candidate_edge_def event_edge_def example_anchor_def event_tables_def event_engine_def
          DefaultConfig_def)
    ultimately show ?thesis
      by (simp add: form_edges_def Let_def admit_fold admit_all event_verdict del: float64_consts)
  qed
  have "gather_candidates event_order event_oracle (\<lambda>s. int (length s)) event_context ?p fmempty fmempty
      event_engine = Inr (event_tables, 0)"
    using event_gathered by (simp add: event_tables_def)
  then have "selectPrerequisitesLocked event_order (\<lambda>_. 0) (Some event_context) (Some example_anchor)
      SELECTION_SCOPE_THREAD ''t'' event_engine =
    accept_candidates event_order (\<lambda>_. 0) event_oracle event_context example_anchor ''t'' ?p fmempty False
      event_tables 0 event_engine"
    using event_walk
    by (simp add: selectPrerequisitesLocked_def Let_def)
       (simp add: event_context_def event_engine_def example_config_def)
  then show ?thesis
    using fe fl flat
    by (auto simp: accept_candidates_def Let_def event_candidates minReferenceSample_def event_refs_def
        split: prod.split)
qed

theorem selectPrerequisites_edges_witness:
  "distinct (map e_FromMessageId [event_edge]) \<and>
   list_all (\<lambda>x. e_FromMessageId x \<notin> set (lx_MessageIDs event_context) \<and> e_ToMessageId x = ''c'') [event_edge]"
proof -
  have "en_oracle event_engine = Some event_oracle" "en_edgeFilter event_engine = None"
    by (simp_all add: event_engine_def)
  moreover have "oracle_contract event_oracle"
    by (auto simp: oracle_contract_def event_oracle_def example_oracle_def ref_matches_def list_all_iff)
  moreover obtain e' tel where "selectPrerequisitesLocked event_order (\<lambda>_. 0) (Some event_context)
      (Some example_anchor) SELECTION_SCOPE_THREAD ''t'' event_engine = (e', Inr ([event_edge], tel, event_refs))"
    using event_result by blast
  ultimately have "distinct (map e_FromMessageId [event_edge]) \<and>
      list_all (\<lambda>x. e_FromMessageId x \<notin> set (lx_MessageIDs event_context) \<and>
        e_ToMessageId x = m_Id example_anchor \<and> e_ToThreadId x = m_ThreadId example_anchor \<and>
        e_Source x = EDGE_SOURCE_CROSS_ENCODER) [event_edge]"
    by (intro selectPrerequisites_edges [OF _ _ _ event_order_ok])
  then show ?thesis by (simp add: example_anchor_def)
qed


end
