(* ===== verification/Assembly_Correct.thy ===== *)
theory Assembly_Correct
  imports Assembly Prerequisite_Correct
begin

text \<open>
  Properties of an assembly: the wire fits the budget, the anchor and the pinned messages are
  always on it, whole groups are shed and nothing is lost silently, the loops end, and what
  the assembly leaves in the engine.
\<close>

section \<open>Merging groups\<close>

abbreviation group_key :: "DeliveryGroup \<Rightarrow> string" where
  "group_key g \<equiv> closureKey (dg_Messages g)"

text \<open>The state of the merge after the groups \<open>gs\<close>.\<close>

definition merge_inv :: "DeliveryGroup list \<Rightarrow> (string, nat) fmap \<Rightarrow> DeliveryGroup list \<Rightarrow> bool" where
  "merge_inv gs byClosure out \<longleftrightarrow>
     (\<forall>key i. fmlookup byClosure key = Some i \<longleftrightarrow> i < length out \<and> group_key (out ! i) = key) \<and>
     (\<forall>g \<in> set out. (\<exists>g0 \<in> set gs. dg_Messages g = dg_Messages g0) \<and>
        (\<exists>g0 \<in> set gs. group_key g0 = group_key g \<and> dg_RootID g = dg_RootID g0 \<and> dg_Score g = dg_Score g0) \<and>
        set (dg_RootIDs g) = (\<Union>g0 \<in> {g0 \<in> set gs. group_key g0 = group_key g}. set (dg_RootIDs g0))) \<and>
     group_key ` set gs = group_key ` set out"

lemma merge_inv_new:
  assumes inv: "merge_inv gs byClosure out" and new: "fmlookup byClosure (group_key g) = None"
  shows "merge_inv (gs @ [g]) (fmupd (group_key g) (length out) byClosure) (out @ [g])"
proof -
  have fresh: "group_key x \<noteq> group_key g" if "x \<in> set out" for x
    using inv new that by (auto simp: merge_inv_def in_set_conv_nth) (metis option.distinct(1))
  have "fmlookup (fmupd (group_key g) (length out) byClosure) key = Some i \<longleftrightarrow>
      i < length (out @ [g]) \<and> group_key ((out @ [g]) ! i) = key" for key i
    using inv fresh by (auto simp: merge_inv_def nth_append less_Suc_eq)
  moreover have "set (dg_RootIDs x) = (\<Union>g0 \<in> {g0 \<in> set (gs @ [g]). group_key g0 = group_key x}. set (dg_RootIDs g0))"
    if "x \<in> set (out @ [g])" for x
  proof (cases "x = g")
    case True
    have "group_key g \<notin> group_key ` set out" using fresh by (metis imageE)
    then have "group_key g \<notin> group_key ` set gs" using inv by (simp add: merge_inv_def)
    then have "{g0 \<in> set gs. group_key g0 = group_key g} = {}" by (auto simp: image_iff)
    then have "{g0 \<in> set (gs @ [g]). group_key g0 = group_key g} = {g}" by auto
    then show ?thesis using True by simp
  next
    case False
    then have x: "x \<in> set out" using that by simp
    then have "{g0 \<in> set (gs @ [g]). group_key g0 = group_key x} = {g0 \<in> set gs. group_key g0 = group_key x}"
      using fresh [OF x] by auto
    then show ?thesis using inv x by (simp add: merge_inv_def)
  qed
  moreover have "(\<exists>g0 \<in> set (gs @ [g]). dg_Messages x = dg_Messages g0) \<and>
      (\<exists>g0 \<in> set (gs @ [g]). group_key g0 = group_key x \<and> dg_RootID x = dg_RootID g0 \<and> dg_Score x = dg_Score g0)"
    if "x \<in> set (out @ [g])" for x
    using inv that by (auto simp: merge_inv_def)
  moreover have "group_key ` set (gs @ [g]) = group_key ` set (out @ [g])"
    using inv by (simp add: merge_inv_def)
  ultimately show ?thesis unfolding merge_inv_def by blast
qed

lemma merge_inv_join:
  assumes inv: "merge_inv gs byClosure out" and hit: "fmlookup byClosure (group_key g) = Some i"
    and y: "dg_Messages y = dg_Messages (out ! i)" "dg_RootIDs y = dg_RootIDs (out ! i) @ dg_RootIDs g"
      "(dg_RootID y = dg_RootID (out ! i) \<and> dg_Score y = dg_Score (out ! i)) \<or>
       (dg_RootID y = dg_RootID g \<and> dg_Score y = dg_Score g)"
  shows "merge_inv (gs @ [g]) byClosure (out[i := y])"
proof -
  have i: "i < length out" "group_key (out ! i) = group_key g" using inv hit by (auto simp: merge_inv_def)
  have keys: "group_key (out[i := y] ! j) = group_key (out ! j)" for j
    using i y(1) by (cases "j = i") auto
  have other: "group_key (out ! j) \<noteq> group_key g" if "j < length out" "j \<noteq> i" for j
    using inv hit that unfolding merge_inv_def by (metis option.inject)
  have mem: "x = y \<or> (\<exists>j < length out. j \<noteq> i \<and> x = out ! j)" if "x \<in> set (out[i := y])" for x
    using that by (metis in_set_conv_nth length_list_update nth_list_update_eq nth_list_update_neq)
  have oi: "out ! i \<in> set out" using i by simp
  have "(\<exists>g0 \<in> set (gs @ [g]). dg_Messages x = dg_Messages g0) \<and>
      (\<exists>g0 \<in> set (gs @ [g]). group_key g0 = group_key x \<and> dg_RootID x = dg_RootID g0 \<and> dg_Score x = dg_Score g0) \<and>
      set (dg_RootIDs x) = (\<Union>g0 \<in> {g0 \<in> set (gs @ [g]). group_key g0 = group_key x}. set (dg_RootIDs g0))"
    if "x \<in> set (out[i := y])" for x
    using mem [OF that]
  proof
    assume x: "x = y"
    have "{g0 \<in> set (gs @ [g]). group_key g0 = group_key y} =
        insert g {g0 \<in> set gs. group_key g0 = group_key (out ! i)}" using i y(1) by auto
    then have "set (dg_RootIDs y) = (\<Union>g0 \<in> {g0 \<in> set (gs @ [g]). group_key g0 = group_key y}. set (dg_RootIDs g0))"
      using inv oi y(2) by (auto simp: merge_inv_def)
    moreover have "\<exists>g0 \<in> set gs. dg_Messages (out ! i) = dg_Messages g0"
      "\<exists>g0 \<in> set gs. group_key g0 = group_key (out ! i) \<and> dg_RootID (out ! i) = dg_RootID g0 \<and>
         dg_Score (out ! i) = dg_Score g0"
      using inv oi by (auto simp: merge_inv_def)
    ultimately show ?thesis using x y(1,3) i by (auto simp: )
  next
    assume "\<exists>j < length out. j \<noteq> i \<and> x = out ! j"
    then obtain j where j: "j < length out" "j \<noteq> i" "x = out ! j" by blast
    then have "{g0 \<in> set (gs @ [g]). group_key g0 = group_key x} = {g0 \<in> set gs. group_key g0 = group_key x}"
      using other [of j] by auto
    then show ?thesis using inv j by (auto simp: merge_inv_def)
  qed
  moreover have "group_key ` set (gs @ [g]) = group_key ` set (out[i := y])"
  proof -
    have "map group_key (out[i := y]) = map group_key out"
      by (rule nth_equalityI) (simp_all add: keys del: map_update)
    then have "group_key ` set (out[i := y]) = group_key ` set out" by (metis list.set_map)
    moreover have "group_key g \<in> group_key ` set out" using i oi by (metis imageI)
    ultimately show ?thesis using inv by (auto simp: merge_inv_def)
  qed
  ultimately show ?thesis using inv keys unfolding merge_inv_def by simp
qed

lemma merge_inv_all: "case foldl merge_step (fmempty, []) gs of (byClosure, out) \<Rightarrow> merge_inv gs byClosure out"
proof (induction gs rule: rev_induct)
  case Nil
  then show ?case by (simp add: merge_inv_def)
next
  case (snoc g gs)
  obtain byClosure out where bo: "foldl merge_step (fmempty, []) gs = (byClosure, out)" by force
  with snoc have inv: "merge_inv gs byClosure out" by simp
  have step: "foldl merge_step (fmempty, []) (gs @ [g]) = merge_step (byClosure, out) g"
    using bo by simp
  have "case merge_step (byClosure, out) g of (b, os) \<Rightarrow> merge_inv (gs @ [g]) b os"
  proof (cases "fmlookup byClosure (group_key g)")
    case None
    with merge_inv_new [OF inv None] show ?thesis by (simp add: merge_step_def)
  next
    case (Some i)
    let ?y = "if dg_Score (out ! i) < dg_Score g
      then (out ! i)\<lparr>dg_RootIDs := dg_RootIDs (out ! i) @ dg_RootIDs g, dg_RootID := dg_RootID g, dg_Score := dg_Score g\<rparr>
      else (out ! i)\<lparr>dg_RootIDs := dg_RootIDs (out ! i) @ dg_RootIDs g\<rparr>"
    have "merge_inv (gs @ [g]) byClosure (out[i := ?y])"
      by (rule merge_inv_join [OF inv Some]) auto
    with Some show ?thesis by (simp add: merge_step_def Let_def)
  qed
  then show ?case unfolding step .
qed

lemma mergeDeliveryGroups_spec:
  assumes "g \<in> set (mergeDeliveryGroups gs)"
  shows "\<exists>g0 \<in> set gs. dg_Messages g = dg_Messages g0"
    and "\<exists>g0 \<in> set gs. group_key g0 = group_key g \<and> dg_RootID g = dg_RootID g0 \<and> dg_Score g = dg_Score g0"
    and "set (dg_RootIDs g) = (\<Union>g0 \<in> {g0 \<in> set gs. group_key g0 = group_key g}. set (dg_RootIDs g0))"
proof -
  obtain byClosure out where bo: "foldl merge_step (fmempty, []) gs = (byClosure, out)" by force
  with merge_inv_all [of gs] have inv: "merge_inv gs byClosure out" by simp
  from assms bo obtain h where h: "h \<in> set out" "g = h\<lparr>dg_RootIDs := sort (dg_RootIDs h)\<rparr>"
    by (auto simp: mergeDeliveryGroups_def)
  with inv show "\<exists>g0 \<in> set gs. dg_Messages g = dg_Messages g0"
    "\<exists>g0 \<in> set gs. group_key g0 = group_key g \<and> dg_RootID g = dg_RootID g0 \<and> dg_Score g = dg_Score g0"
    "set (dg_RootIDs g) = (\<Union>g0 \<in> {g0 \<in> set gs. group_key g0 = group_key g}. set (dg_RootIDs g0))"
    by (auto simp: merge_inv_def)
qed

lemma mergeDeliveryGroups_keys: "group_key ` set (mergeDeliveryGroups gs) = group_key ` set gs"
  using merge_inv_all [of gs]
  by (auto simp: merge_inv_def mergeDeliveryGroups_def image_image split: prod.splits)

lemma mergeDeliveryGroups_roots:
  "(\<Union>g \<in> set (mergeDeliveryGroups gs). set (dg_RootIDs g)) = (\<Union>g \<in> set gs. set (dg_RootIDs g))"
proof -
  have "x \<in> (\<Union>g \<in> set (mergeDeliveryGroups gs). set (dg_RootIDs g))"
    if g: "g \<in> set gs" "x \<in> set (dg_RootIDs g)" for x g
  proof -
    have "group_key g \<in> group_key ` set (mergeDeliveryGroups gs)"
      unfolding mergeDeliveryGroups_keys using g(1) by simp
    then obtain h where "h \<in> set (mergeDeliveryGroups gs)" "group_key g = group_key h" by auto
    with g mergeDeliveryGroups_spec(3) [of h gs] show ?thesis by auto
  qed
  then show ?thesis using mergeDeliveryGroups_spec(3) by fastforce
qed

section \<open>Closing a group\<close>

definition index_messages :: "ProtocolIndex \<Rightarrow> Message set" where
  "index_messages p = fset (fmran (pi_callByKey p)) \<union> fset (fmran (pi_resultByKey p))"

lemma fmran_upd: "fset (fmran (fmupd k v m)) \<subseteq> insert v (fset (fmran m))"
  by (auto simp: fmlookup_ran_iff split: if_splits)

lemma index_block_messages: "index_messages (index_block m p b) \<subseteq> insert m (index_messages p)"
  by (cases b) (auto simp: index_messages_def Let_def dest!: subsetD [OF fmran_upd])

lemma index_blocks_messages: "index_messages (foldl (index_block m) p bs) \<subseteq> insert m (index_messages p)"
proof (induction bs arbitrary: p)
  case (Cons b bs)
  then show ?case using Cons.IH [of "index_block m p b"] index_block_messages [of m p b] by auto
qed auto

lemma NewProtocolIndex_messages: "index_messages (NewProtocolIndex corpus) \<subseteq> set corpus"
proof -
  have "index_messages (foldl (\<lambda>p m. foldl (index_block m) p (m_Content m)) p ms) \<subseteq>
      set ms \<union> index_messages p" for p ms
  proof (induction ms arbitrary: p)
    case (Cons m ms)
    then show ?case
      using Cons.IH [of "foldl (index_block m) p (m_Content m)"] index_blocks_messages [of m p "m_Content m"]
      by auto
  qed simp
  from this [of "\<lparr>pi_callByKey = fmempty, pi_resultByKey = fmempty, pi_ambiguous = fmempty\<rparr>" corpus]
  show ?thesis by (simp add: NewProtocolIndex_def index_messages_def)
qed

lemma counterpart_message: "counterpart p c b = Inr (Some m) \<Longrightarrow> m \<in> index_messages p"
  by (cases b) (auto simp: Let_def index_messages_def fmranI split: if_splits option.splits)

lemma close_blocks_messages:
  "close_blocks p c bs seen new = Inr (seen', new') \<Longrightarrow> set new' \<subseteq> set new \<union> index_messages p"
proof (induction bs arbitrary: seen new)
  case (Cons b bs)
  then show ?case
    by (auto split: sum.splits option.splits if_splits dest: counterpart_message) (fastforce dest: counterpart_message)+
qed simp

lemma close_loop_messages:
  "close_loop p seen queue ms = Inr ms' \<Longrightarrow> set ms \<subseteq> set ms' \<and> set ms' \<subseteq> set ms \<union> index_messages p"
proof (induction p seen queue ms rule: close_loop.induct)
  case (2 p seen c queue ms)
  then obtain seen' new where b: "close_blocks p c (m_Content c) seen [] = Inr (seen', new)"
    by (auto split: sum.splits)
  with 2 have "set (ms @ new) \<subseteq> set ms' \<and> set ms' \<subseteq> set (ms @ new) \<union> index_messages p" by auto
  with close_blocks_messages [OF b] show ?case by auto
qed simp

lemma CloseGroup_group:
  assumes "CloseGroup p (Some r) score = Inr g"
  shows "r \<in> set (dg_Messages g)" and "set (dg_Messages g) \<subseteq> insert r (index_messages p)"
    and "dg_RootID g = m_Id r" and "dg_RootIDs g = [m_Id r]" and "dg_Score g = score"
  using assms close_loop_messages [of p "{m_Id r}" "[r]" "[r]"]
  by (auto simp: CloseGroup_def split: sum.splits)

text \<open>The key of a closure determines its messages' ids when no id holds the separator.\<close>

definition nul_free :: "Message \<Rightarrow> bool" where
  "nul_free m \<longleftrightarrow> CHR 0x00 \<notin> set (m_ThreadId m) \<and> CHR 0x00 \<notin> set (m_Id m)"

lemma split_at_nul:
  assumes "xs @ nul @ us = ys @ nul @ vs" and "CHR 0x00 \<notin> set xs" and "CHR 0x00 \<notin> set ys"
  shows "xs = ys \<and> us = vs"
  using assms by (induction xs arbitrary: ys) (auto simp: nul_def Cons_eq_append_conv)

lemma closureKey_ids:
  "closureKey ms = closureKey ms' \<Longrightarrow> list_all nul_free ms \<Longrightarrow> list_all nul_free ms' \<Longrightarrow>
   map m_Id ms = map m_Id ms'"
proof (induction ms arbitrary: ms')
  case Nil
  then show ?case by (cases ms') (auto simp: closureKey_def nul_def)
next
  case (Cons m ms)
  then obtain m' ms1 where ms': "ms' = m' # ms1" by (cases ms') (auto simp: closureKey_def nul_def)
  have "m_ThreadId m @ nul @ (m_Id m @ nul @ closureKey ms) =
      m_ThreadId m' @ nul @ (m_Id m' @ nul @ closureKey ms1)"
    using Cons.prems(1) ms' by (simp add: closureKey_def)
  moreover have free: "CHR 0x00 \<notin> set (m_ThreadId m)" "CHR 0x00 \<notin> set (m_ThreadId m')"
    "CHR 0x00 \<notin> set (m_Id m)" "CHR 0x00 \<notin> set (m_Id m')"
    using Cons.prems(2,3) ms' by (simp_all add: nul_free_def)
  ultimately have "m_Id m @ nul @ closureKey ms = m_Id m' @ nul @ closureKey ms1"
    by (blast dest: split_at_nul)
  then have "m_Id m = m_Id m' \<and> closureKey ms = closureKey ms1"
    by (rule split_at_nul) (rule free)+
  with Cons.IH [of ms1] Cons.prems(2,3) ms' show ?case by simp
qed

section \<open>The window\<close>

lemma local_loop_keeps:
  assumes "local_loop est req p pinned local = Inr (kept, groups)"
  shows "closeRoots p kept None = Inr groups \<and> set kept \<subseteq> set local \<and>
         (\<forall>m \<in> set local. m_Id m \<in> pinned \<longrightarrow> m \<in> set kept)"
  using assms
proof (induction est req p pinned local rule: local_loop.induct)
  case (1 est req p pinned local)
  note run = "1.prems" [unfolded local_loop.simps [of est req p pinned local]]
  then obtain gs where gs: "closeRoots p local None = Inr gs" by (auto split: sum.splits)
  define total where "total = wireTokens est (ar_CountText req) (ar_System req) [] (groupsToWire gs {})
    (ar_FixedTokens req) (ar_PerMsgDelim req)"
  define d where "d = oldestUnpinned local pinned"
  show ?case
  proof (cases "ar_Budget req \<le> 0 \<or> total \<le> effective_budget req")
    case True
    with run gs show ?thesis by (simp add: total_def Let_def)
  next
    case False
    then have d: "d \<noteq> []" and rec: "local_loop est req p pinned (removeMessage local d) = Inr (kept, groups)"
      using run gs by (auto simp: total_def d_def Let_def split: if_splits)
    obtain m where "find (\<lambda>m. m_Id m \<notin> pinned) local = Some m" "d = m_Id m"
      using d by (auto simp: d_def oldestUnpinned_def split: option.splits)
    then have "d \<notin> pinned" by (auto simp: find_Some_iff)
    moreover have "closeRoots p kept None = Inr groups \<and> set kept \<subseteq> set (removeMessage local d) \<and>
        (\<forall>m \<in> set (removeMessage local d). m_Id m \<in> pinned \<longrightarrow> m \<in> set kept)"
      using "1.IH" [OF gs total_def _ d_def] False d rec by simp
    ultimately show ?thesis by (auto simp: removeMessage_def)
  qed
qed

lemma close_each_group:
  "close_each p scores roots = Inr gs \<Longrightarrow>
   list_all2 (\<lambda>r g. \<exists>score. CloseGroup p (Some r) score = Inr g) roots gs"
  by (induction roots arbitrary: gs) (auto split: sum.splits)

lemma list_all2_set_left: "list_all2 P xs ys \<Longrightarrow> x \<in> set xs \<Longrightarrow> \<exists>y \<in> set ys. P x y"
  by (induction rule: list_all2_induct) auto

lemma list_all2_set_right: "list_all2 P xs ys \<Longrightarrow> y \<in> set ys \<Longrightarrow> \<exists>x \<in> set xs. P x y"
  by (induction rule: list_all2_induct) auto

lemma closeRoots_covers:
  assumes run: "closeRoots p roots scores = Inr groups"
    and free: "\<forall>m \<in> set roots \<union> index_messages p. nul_free m" and r: "r \<in> set roots"
  shows "m_Id r \<in> group_ids groups"
proof -
  obtain gs where gs: "close_each p scores roots = Inr gs" "groups = mergeDeliveryGroups gs"
    using run by (auto simp: closeRoots_def split: sum.splits)
  have closed: "list_all2 (\<lambda>r g. \<exists>score. CloseGroup p (Some r) score = Inr g) roots gs"
    using close_each_group [OF gs(1)] .
  from list_all2_set_left [OF this r] obtain g score where g: "g \<in> set gs" "CloseGroup p (Some r) score = Inr g"
    by blast
  have nf: "list_all nul_free (dg_Messages x)" if x: "x \<in> set gs" for x
  proof -
    obtain r' sc where r': "r' \<in> set roots" "CloseGroup p (Some r') sc = Inr x"
      using list_all2_set_right [OF closed x] by blast
    show ?thesis using CloseGroup_group(2) [OF r'(2)] r'(1) free by (auto simp: list_all_iff)
  qed
  have "group_key g \<in> group_key ` set groups"
    unfolding gs(2) mergeDeliveryGroups_keys using g(1) by simp
  then obtain h where h: "h \<in> set groups" "group_key g = group_key h" by auto
  then obtain h0 where "h0 \<in> set gs" "dg_Messages h = dg_Messages h0"
    using mergeDeliveryGroups_spec(1) gs(2) by blast
  then have "map m_Id (dg_Messages g) = map m_Id (dg_Messages h)"
    using closureKey_ids [OF h(2)] nf g(1) by simp
  moreover have "m_Id r \<in> set (map m_Id (dg_Messages g))"
    using CloseGroup_group(1) [OF g(2)] by simp
  ultimately have "m_Id r \<in> set (map m_Id (dg_Messages h))" by simp
  with h(1) show ?thesis by (auto simp: group_ids_def)
qed

lemma first_seen_spec:
  "distinct (map m_Id (first_seen seen ms)) \<and> m_Id ` set (first_seen seen ms) = m_Id ` set ms - seen"
  by (induction ms arbitrary: seen) auto

lemma wire_messages_ids:
  "distinct (map m_Id (wire_messages groups already))"
  "m_Id ` set (wire_messages groups already) = group_ids groups - already"
  using first_seen_spec by (simp_all add: wire_messages_def group_ids_def)

lemma wire_messages_sorted: "sorted_wrt (\<lambda>a b. \<not> delivery_less b a) (wire_messages groups already)"
proof -
  have "weak_order delivery_less (\<lambda>_. True)"
    by unfold_locales (auto simp: delivery_less_def split: if_splits)
  from weak_order.sorted_sort_stable [OF this] show ?thesis by (simp add: wire_messages_def)
qed

section \<open>Shedding\<close>

text \<open>The contract of the corpus store: an id is answered with the message of that id.\<close>

definition corpus_ok :: "(string, Message) fmap \<Rightarrow> bool" where
  "corpus_ok corpus \<longleftrightarrow> (\<forall>i m. fmlookup corpus i = Some m \<longrightarrow> m_Id m = i)"

text \<open>When a selected message is up for delivery, and when its closure runs into the window.\<close>

definition deliverable ::
  "ProtocolIndex \<Rightarrow> (string, Message) fmap \<Rightarrow> string set \<Rightarrow> SelectedMessage \<Rightarrow> bool" where
  "deliverable p corpus localIDs s \<longleftrightarrow>
     (\<exists>r g. fmlookup corpus (sm_MessageId s) = Some r \<and>
        CloseGroup p (Some r) (sm_EffectiveScore s) = Inr g \<and> \<not> groupOverlaps g localIDs)"

lemma select_groups_sound:
  "select_groups p corpus L D sel = Inr gs \<Longrightarrow> g \<in> set gs \<Longrightarrow>
   \<exists>s \<in> set sel. sm_MessageId s \<notin> D \<union> L \<and> (\<exists>r. fmlookup corpus (sm_MessageId s) = Some r \<and>
     CloseGroup p (Some r) (sm_EffectiveScore s) = Inr g) \<and> \<not> groupOverlaps g L"
proof (induction sel arbitrary: gs)
  case (Cons s sel)
  show ?case
  proof (cases "sm_MessageId s \<in> D \<or> sm_MessageId s \<in> L")
    case True
    with Cons show ?thesis by auto
  next
    case False
    then obtain r h gs' where rh: "fmlookup corpus (sm_MessageId s) = Some r"
      "CloseGroup p (Some r) (sm_EffectiveScore s) = Inr h"
      "select_groups p corpus L D sel = Inr gs'" "gs = (if groupOverlaps h L then gs' else h # gs')"
      using Cons.prems(1) by (auto split: option.splits sum.splits)
    show ?thesis
    proof (cases "g \<in> set gs'")
      case True
      with Cons.IH [OF rh(3)] show ?thesis by auto
    next
      case False
      with Cons.prems(2) rh(4) have "g = h" "\<not> groupOverlaps h L" by (auto split: if_splits)
      with rh(1,2) \<open>\<not> (sm_MessageId s \<in> D \<or> sm_MessageId s \<in> L)\<close> show ?thesis by auto
    qed
  qed
qed simp

lemma select_groups_complete:
  "select_groups p corpus L D sel = Inr gs \<Longrightarrow> s \<in> set sel \<Longrightarrow> sm_MessageId s \<notin> D \<union> L \<Longrightarrow>
   \<exists>r g. fmlookup corpus (sm_MessageId s) = Some r \<and>
     CloseGroup p (Some r) (sm_EffectiveScore s) = Inr g \<and> (groupOverlaps g L \<or> g \<in> set gs)"
proof (induction sel arbitrary: gs)
  case (Cons x sel)
  show ?case
  proof (cases "sm_MessageId x \<in> D \<or> sm_MessageId x \<in> L")
    case True
    with Cons show ?thesis by auto
  next
    case False
    then obtain r h gs' where rh: "fmlookup corpus (sm_MessageId x) = Some r"
      "CloseGroup p (Some r) (sm_EffectiveScore x) = Inr h"
      "select_groups p corpus L D sel = Inr gs'" "gs = (if groupOverlaps h L then gs' else h # gs')"
      using Cons.prems(1) by (auto split: option.splits sum.splits)
    show ?thesis
    proof (cases "s = x")
      case True
      with rh show ?thesis by auto
    next
      case False
      with Cons.IH [OF rh(3)] Cons.prems(2,3) rh(4) show ?thesis by auto
    qed
  qed
qed simp

text \<open>The roots of a round's groups are the selected messages still up for delivery.\<close>

lemma round_groups_roots:
  assumes run: "round_groups p corpus L D sel = Inr groups" and ok: "corpus_ok corpus"
  shows "(\<Union>g \<in> set groups. set (dg_RootIDs g)) =
         {sm_MessageId s | s. s \<in> set sel \<and> sm_MessageId s \<notin> D \<union> L \<and> deliverable p corpus L s}"
    and "g \<in> set groups \<Longrightarrow> dg_RootIDs g \<noteq> []"
    and "g \<in> set groups \<Longrightarrow> \<not> groupOverlaps g L"
proof -
  obtain gs where gs: "select_groups p corpus L D sel = Inr gs"
    and set_groups: "set groups = set (mergeDeliveryGroups gs)"
    using run by (auto simp: round_groups_def Let_def split: sum.splits if_splits)
  have root: "dg_RootIDs h = [sm_MessageId s]"
    if "fmlookup corpus (sm_MessageId s) = Some r" "CloseGroup p (Some r) (sm_EffectiveScore s) = Inr h" for s r h
    using that ok CloseGroup_group(4) [OF that(2)] by (simp add: corpus_ok_def)
  have "(\<Union>g \<in> set gs. set (dg_RootIDs g)) =
      {sm_MessageId s | s. s \<in> set sel \<and> sm_MessageId s \<notin> D \<union> L \<and> deliverable p corpus L s}" (is "?A = ?B")
  proof
    show "?A \<subseteq> ?B"
    proof
      fix x assume "x \<in> ?A"
      then obtain h where h: "h \<in> set gs" "x \<in> set (dg_RootIDs h)" by blast
      from select_groups_sound [OF gs h(1)] obtain s r where s: "s \<in> set sel" "sm_MessageId s \<notin> D \<union> L"
        "fmlookup corpus (sm_MessageId s) = Some r" "CloseGroup p (Some r) (sm_EffectiveScore s) = Inr h"
        "\<not> groupOverlaps h L" by blast
      moreover from s h(2) have "x = sm_MessageId s" using root [OF s(3,4)] by simp
      ultimately show "x \<in> ?B" by (auto simp: deliverable_def)
    qed
    show "?B \<subseteq> ?A"
    proof
      fix x assume "x \<in> ?B"
      then obtain s where s: "x = sm_MessageId s" "s \<in> set sel" "sm_MessageId s \<notin> D \<union> L"
        "deliverable p corpus L s" by blast
      from select_groups_complete [OF gs s(2,3)] s(4) obtain r h where
        "fmlookup corpus (sm_MessageId s) = Some r" "CloseGroup p (Some r) (sm_EffectiveScore s) = Inr h"
        "h \<in> set gs" by (auto simp: deliverable_def)
      with root s(1) show "x \<in> ?A" by fastforce
    qed
  qed
  then show "(\<Union>g \<in> set groups. set (dg_RootIDs g)) =
      {sm_MessageId s | s. s \<in> set sel \<and> sm_MessageId s \<notin> D \<union> L \<and> deliverable p corpus L s}"
    unfolding set_groups mergeDeliveryGroups_roots .
  assume g: "g \<in> set groups"
  then have g': "g \<in> set (mergeDeliveryGroups gs)" using set_groups by simp
  obtain h where h: "h \<in> set gs" "group_key h = group_key g"
    using mergeDeliveryGroups_spec(2) [OF g'] by blast
  from select_groups_sound [OF gs h(1)] root have "dg_RootIDs h \<noteq> []" by fastforce
  then show "dg_RootIDs g \<noteq> []" using mergeDeliveryGroups_spec(3) [OF g'] h by fastforce
  obtain h' where "h' \<in> set gs" "dg_Messages g = dg_Messages h'" using mergeDeliveryGroups_spec(1) [OF g'] by blast
  then show "\<not> groupOverlaps g L" using select_groups_sound [OF gs] by (auto simp: groupOverlaps_def)
qed

lemma lowest_scan_mem:
  "lowest_scan density gs memo lowest best = (Some g, memo') \<Longrightarrow> best = Some g \<or> g \<in> set gs"
  by (induction gs arbitrary: memo lowest best) (auto split: prod.splits if_splits)

lemma lowestDensityGroup_mem:
  "lowestDensityGroup density gs memo = (Some g, memo') \<Longrightarrow> g \<in> set gs"
  using lowest_scan_mem unfolding lowestDensityGroup_def by blast

lemma float_max_nonneg: "Fin 0 \<le> x \<Longrightarrow> Fin 0 \<le> (if x < d then d else x)"
  by (cases x; cases d) auto

lemma shed_group_dropped [simp]: "sh_dropped (shed_group v g memo s) = sh_dropped s \<union> set (dg_RootIDs g)"
  by (simp add: shed_group_def split: prod.split)

lemma shed_group_price: "Fin 0 \<le> sh_price s \<Longrightarrow> Fin 0 \<le> sh_price (shed_group v g memo s)"
  using float_max_nonneg by (simp add: shed_group_def del: less_eq_float64.simps split: prod.split)

text \<open>What one run of the shed loop establishes; \<open>step\<close> is a property of the accumulated
  state that every shed group keeps.\<close>

lemma shed_loop_result:
  assumes "shed_loop v s = Some r" and "I s"
    and "\<And>s groups g memo memo'. I s \<Longrightarrow>
      round_groups (se_index v) (se_corpus v) (se_localIDs v) (sh_dropped s) (se_selected v) = Inr groups \<Longrightarrow>
      g \<in> set groups \<Longrightarrow> I (shed_group v g memo s)"
  shows "case r of Inl err \<Rightarrow> True
         | Inr (groups, s') \<Rightarrow> I s' \<and>
             round_groups (se_index v) (se_corpus v) (se_localIDs v) (sh_dropped s') (se_selected v) = Inr groups \<and>
             (ar_Budget (se_req v) \<le> 0 \<or> final_tokens v groups \<le> effective_budget (se_req v))"
  using assms
proof (induction v s r rule: shed_loop.raw_induct [rotated, consumes 1, case_names step])
  case (step loop v s r)
  let ?round = "\<lambda>s. round_groups (se_index v) (se_corpus v) (se_localIDs v) (sh_dropped s) (se_selected v)"
  show ?case
  proof (cases "?round s")
    case (Inl err)
    with step.hyps show ?thesis by auto
  next
    case (Inr groups)
    show ?thesis
    proof (cases "ar_Budget (se_req v) \<le> 0 \<or> final_tokens v groups \<le> effective_budget (se_req v)")
      case True
      with step.hyps step.prems(1) Inr show ?thesis by auto
    next
      case False
      note run = step.hyps [unfolded Inr sum.case if_not_P [OF False]]
      obtain best memo where low:
        "lowestDensityGroup (densityOf (group_price v) (se_stance v)) groups (sh_memo s) = (best, memo)" by force
      show ?thesis
      proof (cases best)
        case None
        with run low show ?thesis by auto
      next
        case (Some g)
        with run low have "loop v (shed_group v g memo s) = Some r" by simp
        moreover have "I (shed_group v g memo s)"
          using step.prems(2) [OF step.prems(1) Inr] lowestDensityGroup_mem low Some by blast
        ultimately show ?thesis by (rule step.IH [OF _ _ step.prems(2)])
      qed
    qed
  qed
qed

text \<open>Under the store's contract every round sheds at least one selected message, so the loop
  ends.\<close>

lemma shed_loop_returns:
  assumes ok: "corpus_ok (se_corpus v)"
  shows "\<exists>r. shed_loop v s = Some r"
proof (induction "card (sm_MessageId ` set (se_selected v) - sh_dropped s)" arbitrary: s rule: less_induct)
  case less
  let ?ids = "sm_MessageId ` set (se_selected v)"
  show ?case
  proof (cases "round_groups (se_index v) (se_corpus v) (se_localIDs v) (sh_dropped s) (se_selected v)")
    case (Inl err)
    then show ?thesis by (subst shed_loop.simps) simp
  next
    case (Inr groups)
    obtain best memo where low:
      "lowestDensityGroup (densityOf (group_price v) (se_stance v)) groups (sh_memo s) = (best, memo)" by force
    show ?thesis
    proof (cases best)
      case None
      with Inr low show ?thesis by (subst shed_loop.simps) simp
    next
      case (Some g)
      then have g: "g \<in> set groups" using low lowestDensityGroup_mem by blast
      note roots = round_groups_roots [OF Inr ok]
      have sub: "set (dg_RootIDs g) \<subseteq> ?ids - sh_dropped s"
      proof
        fix x assume "x \<in> set (dg_RootIDs g)"
        then have "x \<in> (\<Union>g \<in> set groups. set (dg_RootIDs g))" using g by blast
        then show "x \<in> ?ids - sh_dropped s" unfolding roots(1) by auto
      qed
      have "?ids - sh_dropped (shed_group v g memo s) \<subset> ?ids - sh_dropped s"
        using sub roots(2) [OF g] by (cases "dg_RootIDs g") auto
      then have "card (?ids - sh_dropped (shed_group v g memo s)) < card (?ids - sh_dropped s)"
        by (intro psubset_card_mono) auto
      from less [OF this] Inr low Some show ?thesis by (subst shed_loop.simps) simp
    qed
  qed
qed

section \<open>A whole assembly\<close>

lemma Assemble_success:
  assumes "Assemble rng below fetched now req e = Some (e', Inr res)"
  obtains a p est local lg serialized e1 selection edges tel corpus psel groups s prices where
    "ar_Anchor req = Some a"
    "map_option m_Id (lastSemantic (ar_LocalContext req) (ar_CurrentTurnID req)) = Some (m_Id a)"
    "protocolScope (ar_LocalContext req) (ar_Store req) = Inr p"
    "c_Estimator (cfg_Chunk (en_cfg e)) = Some est"
    "local_loop est req p (pinnedLocalIDs (ar_LocalContext req) (m_Id a)) (ar_LocalContext req) = Inr (local, lg)"
    "choose_selection rng below now req a serialized e = (e1, Inr (selection, edges, tel))"
    "fetch_selected fetched (ar_Store req) (map sm_MessageId (sr_Selected selection)) = Inr (corpus, psel)"
    "shed_loop (delivery_env est req lg selection (en_cfg e1) corpus psel) (shed_start req) = Some (Inr (groups, s))"
    "en_price e1 = Some prices" "e' = e1\<lparr>en_price := Some (fmupd (ar_ThreadID req) (sh_price s) prices)\<rparr>"
    "res = assemble_result (delivery_env est req lg selection (en_cfg e1) corpus psel) local lg selection
       serialized edges tel groups s"
proof -
  obtain a est local lg serialized where prep: "prepare_local req (en_cfg e) = Inr (a, est, local, lg, serialized)"
    using assms by (auto simp: Assemble_def split: sum.splits)
  then obtain p where pre: "ar_Anchor req = Some a"
    "map_option m_Id (lastSemantic (ar_LocalContext req) (ar_CurrentTurnID req)) = Some (m_Id a)"
    "protocolScope (ar_LocalContext req) (ar_Store req) = Inr p"
    "c_Estimator (cfg_Chunk (en_cfg e)) = Some est"
    "local_loop est req p (pinnedLocalIDs (ar_LocalContext req) (m_Id a)) (ar_LocalContext req) = Inr (local, lg)"
    by (auto simp: prepare_local_def split: option.splits if_splits sum.splits prod.splits)
  obtain e1 selection edges tel where ch: "choose_selection rng below now req a serialized e = (e1, Inr (selection, edges, tel))"
    using assms prep by (auto simp: Assemble_def split: prod.splits sum.splits)
  have d: "deliver fetched est req local lg serialized selection edges tel e1 = Some (e', Inr res)"
    using assms prep ch by (simp add: Assemble_def)
  obtain corpus psel where f: "fetch_selected fetched (ar_Store req) (map sm_MessageId (sr_Selected selection)) = Inr (corpus, psel)"
    using d by (auto simp: deliver_def split: sum.splits)
  let ?v = "delivery_env est req lg selection (en_cfg e1) corpus psel"
  obtain groups s where sh: "shed_loop ?v (shed_start req) = Some (Inr (groups, s))"
    using d f by (auto simp: deliver_def Let_def split: option.splits sum.splits)
  obtain prices where pr: "en_price e1 = Some prices"
    using d f sh by (auto simp: deliver_def setPrice_def split: option.splits)
  show thesis
    by (rule that [OF pre ch f sh pr])
       (use d f sh pr in \<open>auto simp: deliver_def setPrice_def\<close>)
qed

lemma effective_budget_le: "0 \<le> ar_Budget req \<Longrightarrow> effective_budget req \<le> ar_Budget req"
proof -
  assume b: "0 \<le> ar_Budget req"
  have "int_of_float (Fin (real_of_int (ar_Budget req) * pct)) \<le> ar_Budget req" if "0 < pct" "pct \<le> 1" for pct
  proof -
    have "real_of_int (ar_Budget req) * pct \<le> real_of_int (ar_Budget req)"
      using b that by (simp add: mult_left_le)
    then have "\<lfloor>real_of_int (ar_Budget req) * pct\<rfloor> \<le> ar_Budget req" by linarith
    then show ?thesis using b that by (simp add: Let_def)
  qed
  then show ?thesis by (cases "ar_HeadroomPct req") (auto simp: effective_budget_def)
qed

lemma Assemble_fits:
  assumes "Assemble rng below fetched now req e = Some (e', Inr res)" and "0 < ar_Budget req"
  shows "at_TotalTokens (as_Telemetry res) \<le> ar_Budget req"
    and "at_TotalTokens (as_Telemetry res) \<le> effective_budget req"
proof -
  show "at_TotalTokens (as_Telemetry res) \<le> effective_budget req"
    using assms(1)
  proof (cases rule: Assemble_success)
    case (1 a p est local lg serialized e1 selection edges tel corpus psel groups s prices)
    from shed_loop_result [OF 1(8), of "\<lambda>_. True"] 1(11) assms(2) show ?thesis
      by (simp add: delivery_env_def assemble_result_def Let_def)
  qed
  with effective_budget_le [of req] assms(2) show "at_TotalTokens (as_Telemetry res) \<le> ar_Budget req" by simp
qed

text \<open>C1: the wire fits. A successful assembly under a positive budget puts on the wire exactly
  what it counted, and the count, fixed tokens and per-message delimiters included, is at
  most the budget less its headroom, which is at most the budget.\<close>

theorem Assemble_budget:
  assumes "Assemble rng below fetched now req e = Some (e', Inr res)" and "0 < ar_Budget req"
    and "c_Estimator (cfg_Chunk (en_cfg e)) = Some est"
  shows "at_TotalTokens (as_Telemetry res) =
           wireTokens est (ar_CountText req) None (as_Wire res) [] (ar_FixedTokens req) (ar_PerMsgDelim req) \<and>
         at_TotalTokens (as_Telemetry res) \<le> effective_budget req \<and>
         effective_budget req \<le> ar_Budget req"
  using assms(1)
proof (cases rule: Assemble_success)
  case (1 a p est' local lg serialized e1 selection edges tel corpus psel groups s prices)
  have "est' = est" using 1(4) assms(3) by simp
  with Assemble_fits(2) [OF assms(1,2)] effective_budget_le [of req] assms(2) 1(11) show ?thesis
    by (simp add: assemble_result_def Let_def final_tokens_def delivery_env_def)
qed

lemma find_mem: "find P xs = Some x \<Longrightarrow> x \<in> set xs"
  by (induction xs) (auto split: if_splits)

lemma lastSemantic_mem: "lastSemantic local t = Some m \<Longrightarrow> m \<in> set local"
  by (auto simp: lastSemantic_def dest: find_mem)

lemma anchor_pinned: "local \<noteq> [] \<Longrightarrow> i \<in> pinnedLocalIDs local i"
proof -
  have "P \<subseteq> pin_loop ms u v P" for ms u v P by (induction ms u v P rule: pin_loop.induct) auto
  from this [of "{i}" "rev local" False False] show "local \<noteq> [] \<Longrightarrow> ?thesis"
    by (simp add: pinnedLocalIDs_def)
qed

text \<open>C2: the model is never blind to its turn. A successful assembly's wire is the system
  message, the selected history, then the window: every pinned message of the window, the
  anchor among them, is on the window's part, no message is on the wire twice, and each part
  is ordered by thread, position and id. It takes ids without the separator byte.\<close>

theorem Assemble_wire:
  assumes "Assemble rng below fetched now req e = Some (e', Inr res)" and "ar_Anchor req = Some a"
    and "protocolScope (ar_LocalContext req) (ar_Store req) = Inr p"
    and "\<forall>m \<in> set (ar_LocalContext req) \<union> index_messages p. nul_free m"
  shows "let window = wire_messages (as_LocalGroups res) {};
             history = wire_messages (as_Delivered res) (m_Id ` set window)
         in as_Wire res = (case ar_System req of None \<Rightarrow> [] | Some s \<Rightarrow> [s]) @ map messageToLLM (history @ window) \<and>
            distinct (map m_Id (history @ window)) \<and>
            sorted_wrt (\<lambda>a b. \<not> delivery_less b a) history \<and> sorted_wrt (\<lambda>a b. \<not> delivery_less b a) window \<and>
            pinnedLocalIDs (ar_LocalContext req) (m_Id a) \<inter> m_Id ` set (ar_LocalContext req) \<subseteq> m_Id ` set window \<and>
            m_Id a \<in> m_Id ` set window"
  using assms(1)
proof (cases rule: Assemble_success)
  case (1 a' p' est local lg serialized e1 selection edges tel corpus psel groups s prices)
  have eq: "a' = a" "p' = p" using 1(1,3) assms(2,3) by simp_all
  note keep = local_loop_keeps [OF 1(5) [unfolded eq]]
  have res: "as_LocalGroups res = lg" "as_Delivered res = groups"
    "as_Wire res = final_wire (delivery_env est req lg selection (en_cfg e1) corpus psel) groups"
    using 1(11) by (simp_all add: assemble_result_def Let_def)
  have cover: "m_Id m \<in> group_ids lg" if "m \<in> set local" for m
    using closeRoots_covers [of p local None lg m] keep assms(4) that by auto
  have pinned: "pinnedLocalIDs (ar_LocalContext req) (m_Id a) \<inter> m_Id ` set (ar_LocalContext req) \<subseteq> group_ids lg"
    using keep cover by auto
  obtain m where m: "lastSemantic (ar_LocalContext req) (ar_CurrentTurnID req) = Some m" "m_Id m = m_Id a"
    using 1(2) eq by auto
  then have "m \<in> set (ar_LocalContext req)" using lastSemantic_mem by blast
  then have "m_Id a \<in> m_Id ` set (ar_LocalContext req)" "ar_LocalContext req \<noteq> []"
    using m(2) by (metis imageI, metis empty_iff list.set(1))
  then have "m_Id a \<in> group_ids lg" using pinned anchor_pinned by blast
  moreover have "m_Id ` set (wire_messages lg {}) = group_ids lg" by (simp add: wire_messages_ids(2))
  ultimately show ?thesis
    using pinned res wire_messages_ids(1) wire_messages_sorted
    by (auto simp: Let_def final_wire_def delivery_env_def groupsToWire_def wire_messages_ids
        simp del: wire_messages_def)
qed

definition store_contract :: "CorpusStore option \<Rightarrow> bool" where
  "store_contract store \<longleftrightarrow> (\<forall>st ids m. store = Some st \<longrightarrow> cs_Messages st ids = Inr m \<longrightarrow> corpus_ok m)"

lemma fetch_selected_ok:
  "store_contract store \<Longrightarrow> fetch_selected fetched store ids = Inr (corpus, p) \<Longrightarrow> corpus_ok corpus"
  by (auto simp: store_contract_def fetch_selected_def split: option.splits sum.splits)

text \<open>What shedding accumulates under the store's contract.\<close>

definition shed_inv :: "shed_env \<Rightarrow> shed_state \<Rightarrow> shed_state \<Rightarrow> bool" where
  "shed_inv v s0 s \<longleftrightarrow>
     finite (sh_dropped s) \<and> sh_dropped s0 \<subseteq> sh_dropped s \<and>
     sh_dropped s - sh_dropped s0 \<subseteq> sm_MessageId ` set (se_selected v) \<and> Fin 0 \<le> sh_price s \<and>
     (sh_dropped s = sh_dropped s0 \<longrightarrow> sh_price s = sh_price s0)"

lemma shed_inv_step:
  assumes inv: "shed_inv v s0 s" and ok: "corpus_ok (se_corpus v)"
    and run: "round_groups (se_index v) (se_corpus v) (se_localIDs v) (sh_dropped s) (se_selected v) = Inr groups"
    and g: "g \<in> set groups"
  shows "shed_inv v s0 (shed_group v g memo s)"
proof -
  note roots = round_groups_roots [OF run ok]
  have new: "set (dg_RootIDs g) \<subseteq> sm_MessageId ` set (se_selected v) - sh_dropped s"
  proof
    fix x assume "x \<in> set (dg_RootIDs g)"
    then have "x \<in> (\<Union>g \<in> set groups. set (dg_RootIDs g))" using g by blast
    then show "x \<in> sm_MessageId ` set (se_selected v) - sh_dropped s" unfolding roots(1) by auto
  qed
  obtain x where x: "x \<in> set (dg_RootIDs g)" using roots(2) [OF g] by (cases "dg_RootIDs g") auto
  have sub: "sh_dropped s0 \<subseteq> sh_dropped s" using inv by (simp add: shed_inv_def)
  have "x \<notin> sh_dropped s0" using x new sub by auto
  with x have fresh: "sh_dropped s \<union> set (dg_RootIDs g) \<noteq> sh_dropped s0" by auto
  have "sh_dropped s \<union> set (dg_RootIDs g) - sh_dropped s0 \<subseteq> sm_MessageId ` set (se_selected v)"
    using inv new by (auto simp: shed_inv_def)
  with fresh sub show ?thesis
    using inv shed_group_price [of s v g memo]
    by (auto simp: shed_inv_def simp del: less_eq_float64.simps)
qed

text \<open>C3: nothing selected is lost silently. Under the store's contract the groups a successful
  assembly delivers are rooted at exactly the selected messages that were not shed, are not in
  the window and whose closure does not run into the window; no delivered group shares a
  message with the window; a shed id was excluded by the caller or selected; and when nothing
  beyond the caller's exclusions was shed the realized price is zero.\<close>

theorem Assemble_accounts:
  assumes "Assemble rng below fetched now req e = Some (e', Inr res)"
    and "store_contract (ar_Store req)"
  shows "let selected = sr_Selected (as_Selection res); shed = set (as_Shed res);
             window = group_ids (as_LocalGroups res)
         in case fetch_selected fetched (ar_Store req) (map sm_MessageId selected) of
              Inl err \<Rightarrow> False
            | Inr (corpus, p) \<Rightarrow>
                (\<Union>g \<in> set (as_Delivered res). set (dg_RootIDs g)) =
                  {sm_MessageId s | s. s \<in> set selected \<and> sm_MessageId s \<notin> shed \<union> window \<and>
                     deliverable p corpus window s} \<and>
                list_all (\<lambda>g. \<not> groupOverlaps g window) (as_Delivered res) \<and>
                set (ar_ExcludeIDs req) \<subseteq> shed \<and>
                shed - set (ar_ExcludeIDs req) \<subseteq> sm_MessageId ` set selected \<and>
                (shed = set (ar_ExcludeIDs req) \<longrightarrow> at_RealizedPrice (as_Telemetry res) = 0)"
  using assms(1)
proof (cases rule: Assemble_success)
  case (1 a p est local lg serialized e1 selection edges tel corpus psel groups s prices)
  let ?v = "delivery_env est req lg selection (en_cfg e1) corpus psel"
  have ok: "corpus_ok corpus" using fetch_selected_ok [OF assms(2) 1(7)] .
  have "shed_inv ?v (shed_start req) (shed_start req)" by (simp add: shed_inv_def shed_start_def)
  moreover have "corpus_ok (se_corpus ?v)" using ok by (simp add: delivery_env_def)
  ultimately have r: "shed_inv ?v (shed_start req) s"
    "round_groups (se_index ?v) (se_corpus ?v) (se_localIDs ?v) (sh_dropped s) (se_selected ?v) = Inr groups"
    using shed_loop_result [OF 1(8), of "shed_inv ?v (shed_start req)"] shed_inv_step by auto
  have v: "se_index ?v = psel" "se_corpus ?v = corpus" "se_localIDs ?v = group_ids lg"
    "se_selected ?v = sr_Selected selection" by (simp_all add: delivery_env_def)
  have res: "as_Selection res = selection" "set (as_Shed res) = sh_dropped s" "as_LocalGroups res = lg"
    "as_Delivered res = groups" "at_RealizedPrice (as_Telemetry res) = sh_price s"
    using 1(11) r(1) by (simp_all add: assemble_result_def Let_def shed_inv_def)
  have start: "sh_dropped (shed_start req) = set (ar_ExcludeIDs req)" "sh_price (shed_start req) = 0"
    by (simp_all add: shed_start_def)
  have "list_all (\<lambda>g. \<not> groupOverlaps g (group_ids lg)) groups"
    using round_groups_roots(3) [OF r(2) [unfolded v] ok] by (simp add: list_all_iff)
  then show ?thesis
    unfolding Let_def res 1(7) sum.case prod.case
    using r(1) [unfolded shed_inv_def start v] round_groups_roots(1) [OF r(2) [unfolded v] ok] by simp
qed

text \<open>Under the store's contract neither shedding loop can run forever: every request ends in a
  result or in an error.\<close>

lemma Assemble_returns:
  assumes "store_contract (ar_Store req)"
  shows "\<exists>e' r. Assemble rng below fetched now req e = Some (e', r)"
proof -
  have "\<exists>e' r. deliver fetched est req local lg serialized selection edges tel e1 = Some (e', r)"
    for est local lg serialized selection edges tel e1
  proof (cases "fetch_selected fetched (ar_Store req) (map sm_MessageId (sr_Selected selection))")
    case (Inr x)
    obtain corpus p where x: "x = (corpus, p)" by (cases x)
    let ?v = "delivery_env est req lg selection (en_cfg e1) corpus p"
    have "corpus_ok (se_corpus ?v)" using fetch_selected_ok [OF assms] Inr x by (simp add: delivery_env_def)
    from shed_loop_returns [OF this] obtain r where "shed_loop ?v (shed_start req) = Some r" by blast
    then show ?thesis
      using Inr x by (cases r) (auto simp: deliver_def Let_def split: sum.split)
  qed (simp add: deliver_def)
  then show ?thesis by (simp add: Assemble_def split: option.split sum.split prod.split)
qed

section \<open>What an assembly leaves in the engine\<close>

text \<open>A selection may extend the cache and the graph of an engine, nothing else.\<close>

definition extends :: "Engine \<Rightarrow> Edge list \<Rightarrow> Engine \<Rightarrow> bool" where
  "extends e es e' \<longleftrightarrow>
     (\<exists>sc. e' = e\<lparr>en_scores := sc, en_dag := AddEdges_dag (en_dag e) es\<rparr> \<and> cache_le (en_scores e) sc)"

lemma extends_refl: "extends e [] e"
  unfolding extends_def by (rule exI [of _ "en_scores e"]) simp

lemma run_selection_extends:
  assumes "run_selection rng below now req a lx e = (e', r)"
  shows "\<exists>es. extends e es e' \<and> (case r of Inl _ \<Rightarrow> True | Inr (sel, edges, tel) \<Rightarrow> es = edges)"
proof -
  obtain e1 r1 where run: "selectPrerequisitesLocked rng now (Some lx) (Some a) (ar_Scope req) (ar_ThreadID req) e
      = (e1, r1)" by force
  from event_frame [OF run] obtain sc es where f: "e1 = e\<lparr>en_scores := sc, en_dag := AddEdges_dag (en_dag e) es\<rparr>"
    "cache_le (en_scores e) sc"
    "case r1 of Inl err \<Rightarrow> es = [] | Inr (edges, tel, flr) \<Rightarrow> es = edges \<and>
       pt_EdgesFormed tel = int (length edges) \<and> (flr = [] \<or> minReferenceSample \<le> length flr)" by blast
  have es: "extends e es e1" using f(1,2) unfolding extends_def by blast
  have "e' = e1 \<and> (case r of Inl _ \<Rightarrow> True | Inr (sel, edges, tel) \<Rightarrow> \<exists>flr. r1 = Inr (edges, tel, flr))"
    using assms run
    by (auto simp: run_selection_def Let_def split: sum.splits prod.splits)
  then have "e' = e1" "case r of Inl _ \<Rightarrow> True | Inr (sel, edges, tel) \<Rightarrow> es = edges"
    using f(3) by (auto split: sum.splits)
  then show ?thesis using es by blast
qed

lemma choose_selection_extends:
  assumes "choose_selection rng below now req a serialized e = (e', r)"
  shows "\<exists>es. extends e es e' \<and> (case r of Inl _ \<Rightarrow> True | Inr (sel, edges, tel) \<Rightarrow> es = edges) \<and>
           (ar_PriorSelection req \<noteq> None \<longrightarrow> e' = e \<and> es = [])"
proof (cases "ar_PriorSelection req = None \<and> serialized \<noteq> None")
  case True
  then obtain lx where "run_selection rng below now req a lx e = (e', r)"
    using assms by (auto simp: choose_selection_def)
  from run_selection_extends [OF this] True show ?thesis by auto
next
  case False
  then have "e' = e \<and> (\<exists>sel tel. r = Inr (sel, [], tel))"
    using assms by (auto simp: choose_selection_def split: option.splits)
  then show ?thesis using extends_refl by auto
qed

lemma deliver_prices:
  assumes "deliver fetched est req local lg serialized selection edges tel e = Some (e', r)"
  shows "case r of Inl err \<Rightarrow> e' = e
         | Inr res \<Rightarrow> as_Edges res = edges \<and> Fin 0 \<le> at_RealizedPrice (as_Telemetry res) \<and>
             (\<exists>m. en_price e = Some m \<and>
                e' = e\<lparr>en_price := Some (fmupd (ar_ThreadID req) (at_RealizedPrice (as_Telemetry res)) m)\<rparr>)"
proof -
  let ?f = "fetch_selected fetched (ar_Store req) (map sm_MessageId (sr_Selected selection))"
  have "Fin 0 \<le> sh_price s"
    if "shed_loop v (shed_start req) = Some (Inr (groups, s))" for v groups s
    using shed_loop_result [OF that, of "\<lambda>s. Fin 0 \<le> sh_price s"] shed_group_price
    by (simp add: shed_start_def)
  then show ?thesis
    using assms
    by (auto simp: deliver_def setPrice_def Let_def assemble_result_def
        simp del: less_eq_float64.simps split: sum.splits option.splits prod.splits)
qed

text \<open>C20: the frame of an assembly. It only extends the graph and the score cache, by the edges
  it reports when it succeeds; a retry that reuses a prior selection touches neither. The
  thread's price becomes the realized price, which is never negative, exactly when the
  assembly succeeds: an error leaves every price as it was.\<close>

theorem Assemble_frame:
  "case Assemble rng below fetched now req e of
     None \<Rightarrow> True
   | Some (e', r) \<Rightarrow>
       \<exists>es e1. extends e es e1 \<and> (ar_PriorSelection req \<noteq> None \<longrightarrow> es = [] \<and> e1 = e) \<and>
         (case r of
            Inl err \<Rightarrow> e' = e1
          | Inr res \<Rightarrow> es = as_Edges res \<and> Fin 0 \<le> at_RealizedPrice (as_Telemetry res) \<and>
              (\<exists>m. en_price e = Some m \<and>
                 e' = e1\<lparr>en_price := Some (fmupd (ar_ThreadID req) (at_RealizedPrice (as_Telemetry res)) m)\<rparr>))"
proof (cases "Assemble rng below fetched now req e")
  case (Some x)
  obtain e' r where x: "x = (e', r)" by (cases x)
  show ?thesis
  proof (cases "prepare_local req (en_cfg e)")
    case (Inl err)
    then show ?thesis using extends_refl by (auto simp: Assemble_def simp del: less_eq_float64.simps)
  next
    case (Inr pre)
    obtain a est local lg serialized where pre: "pre = (a, est, local, lg, serialized)" by (cases pre)
    obtain e1 r1 where ch: "choose_selection rng below now req a serialized e = (e1, r1)" by force
    from choose_selection_extends [OF ch] obtain es where es: "extends e es e1"
      "case r1 of Inl _ \<Rightarrow> True | Inr (sel, edges, tel) \<Rightarrow> es = edges"
      "ar_PriorSelection req \<noteq> None \<longrightarrow> e1 = e \<and> es = []" by blast
    have price: "en_price e1 = en_price e" using es(1) by (auto simp: extends_def)
    show ?thesis
    proof (cases r1)
      case (Inl err)
      with Some x Inr pre ch es show ?thesis by (auto simp: Assemble_def)
    next
      case r1: (Inr y)
      obtain selection edges tel where y: "y = (selection, edges, tel)" by (cases y)
      have "deliver fetched est req local lg serialized selection edges tel e1 = Some (e', r)"
        using Some x Inr pre ch r1 y by (simp add: Assemble_def)
      from deliver_prices [OF this] Some x es price r1 y show ?thesis
        by (cases r) (auto simp del: less_eq_float64.simps)
    qed
  qed
qed simp

text \<open>C35: a forked engine can never assemble. The fork's price map is nil, so every assembly
  on a fork that reaches the end panics when it publishes its price, whatever the request:
  there is no request an assembly on a fork succeeds for.\<close>

theorem Assemble_fork_fails:
  "case Assemble rng below fetched now req (Fork ks qs e) of
     None \<Rightarrow> True
   | Some (e', r) \<Rightarrow> \<exists>err. r = Inl err"
proof (cases "Assemble rng below fetched now req (Fork ks qs e)")
  case (Some x)
  obtain e' r where x: "x = (e', r)" by (cases x)
  show ?thesis
  proof (cases r)
    case (Inr res)
    with Some x have "Assemble rng below fetched now req (Fork ks qs e) = Some (e', Inr res)" by simp
    then show ?thesis
    proof (cases rule: Assemble_success)
      case (1 a p est local lg serialized e1 selection edges tel corpus psel groups s prices)
      from choose_selection_extends [OF 1(6)] have "en_price e1 = en_price (Fork ks qs e)"
        by (auto simp: extends_def)
      with 1(9) show ?thesis by (simp add: Fork_def)
    qed
  qed (use Some x in simp)
qed simp

section \<open>Which group is shed\<close>

text \<open>Costs are at least one token, in the memo too.\<close>

definition memo_pos :: "cost_memo \<Rightarrow> bool" where
  "memo_pos memo \<longleftrightarrow> (\<forall>i c. fmlookup memo i = Some c \<longrightarrow> 1 \<le> c)"

lemma costOf_pos: "memo_pos memo \<Longrightarrow> costOf price g memo = (c, memo') \<Longrightarrow> 1 \<le> c \<and> memo_pos memo'"
  by (auto simp: costOf_def memo_pos_def Let_def split: option.splits if_splits)

lemma density_certain:
  assumes "memo_pos memo" and "1 \<le> dg_Score g" and "densityOf price (Fin b) g memo = (d, memo')"
  shows "d = PInf \<and> memo_pos memo'"
proof -
  obtain c where c: "costOf price g memo = (c, memo')" "d = (bitsFromConfidence (dg_Score g) - Fin b) / float_of_int c"
    using assms(3) by (auto simp: densityOf_def split: prod.splits)
  have "bitsFromConfidence (dg_Score g) = PInf" using assms(2) by (simp add: bitsFromConfidence_def)
  then show ?thesis using c costOf_pos [OF assms(1) c(1)] by simp
qed

lemma lowest_scan_certain:
  "memo_pos memo \<Longrightarrow> list_all (\<lambda>g. 1 \<le> dg_Score g) gs \<Longrightarrow>
   fst (lowest_scan (densityOf price (Fin b)) gs memo PInf None) = None"
proof (induction gs arbitrary: memo)
  case (Cons g gs)
  obtain d memo' where d: "densityOf price (Fin b) g memo = (d, memo')" by force
  from density_certain [OF Cons.prems(1) _ d] Cons.prems(2) have "d = PInf" "memo_pos memo'" by simp_all
  with Cons d show ?case by simp
qed simp

text \<open>Certainty is never shed. When every selected group has confidence 1, no group can be
  shed, and an assembly over its budget fails as if only the system message and the window
  were left, although groups remain.\<close>

lemma certain_groups_unsheddable:
  assumes "round_groups (se_index v) (se_corpus v) (se_localIDs v) (sh_dropped (shed_start (se_req v)))
      (se_selected v) = Inr groups"
    and "list_all (\<lambda>g. 1 \<le> dg_Score g) groups" and "se_stance v = Fin b"
    and "0 < ar_Budget (se_req v)" and "effective_budget (se_req v) < final_tokens v groups"
  shows "shed_loop v (shed_start (se_req v)) =
         Some (Inl (FixedOverBudget (final_tokens v groups) (effective_budget (se_req v))))"
proof -
  let ?s = "shed_start (se_req v)"
  have "memo_pos (sh_memo ?s)" by (simp add: memo_pos_def shed_start_def)
  from lowest_scan_certain [OF this assms(2), of "group_price v" b] obtain memo where
    "lowestDensityGroup (densityOf (group_price v) (se_stance v)) groups (sh_memo ?s) = (None, memo)"
    using assms(3) by (cases "lowestDensityGroup (densityOf (group_price v) (se_stance v)) groups (sh_memo ?s)")
      (auto simp: lowestDensityGroup_def)
  with assms show ?thesis by (subst shed_loop.simps) simp
qed

text \<open>The density of a group when its cost is read off the group itself.\<close>

definition true_density :: "(DeliveryGroup \<Rightarrow> int) \<Rightarrow> float64 \<Rightarrow> DeliveryGroup \<Rightarrow> float64" where
  "true_density price stance g = (bitsFromConfidence (dg_Score g) - stance) / float_of_int (max 1 (price g))"

definition memo_true :: "(DeliveryGroup \<Rightarrow> int) \<Rightarrow> DeliveryGroup set \<Rightarrow> cost_memo \<Rightarrow> bool" where
  "memo_true price G memo \<longleftrightarrow>
     (\<forall>g \<in> G. \<forall>c. fmlookup memo (dg_RootID g) = Some c \<longrightarrow> c = max 1 (price g))"

lemma densityOf_true:
  assumes "memo_true price G memo" and "g \<in> G"
    and "\<forall>g \<in> G. \<forall>h \<in> G. dg_RootID g = dg_RootID h \<longrightarrow> price g = price h"
    and "densityOf price stance g memo = (d, memo')"
  shows "d = true_density price stance g \<and> memo_true price G memo'"
proof -
  obtain c where c: "costOf price g memo = (c, memo')" "d = (bitsFromConfidence (dg_Score g) - stance) / float_of_int c"
    using assms(4) by (auto simp: densityOf_def split: prod.splits)
  have "c = max 1 (price g) \<and> memo_true price G memo'"
  proof (cases "fmlookup memo (dg_RootID g)")
    case None
    then have cm: "c = max 1 (price g)" "memo' = fmupd (dg_RootID g) c memo"
      using c(1) by (auto simp: costOf_def Let_def)
    have "c' = max 1 (price h)" if h: "h \<in> G" "fmlookup memo' (dg_RootID h) = Some c'" for h c'
    proof (cases "dg_RootID h = dg_RootID g")
      case True
      then have "price h = price g" using assms(2,3) h(1) by blast
      with True h(2) cm show ?thesis by simp
    next
      case False
      with assms(1) h cm(2) show ?thesis by (simp add: memo_true_def)
    qed
    then show ?thesis using cm(1) unfolding memo_true_def by blast
  next
    case (Some c')
    then show ?thesis using c(1) assms(1,2) by (auto simp: costOf_def memo_true_def)
  qed
  then show ?thesis using c(2) by (simp add: true_density_def)
qed

lemma lowest_scan_least:
  assumes "\<forall>g \<in> G. \<forall>h \<in> G. dg_RootID g = dg_RootID h \<longrightarrow> price g = price h"
  shows "set gs \<subseteq> G \<Longrightarrow> memo_true price G memo \<Longrightarrow>
    lowest_scan (densityOf price stance) gs memo lowest best = (r, memo') \<Longrightarrow>
    (case best of None \<Rightarrow> lowest = PInf | Some g \<Rightarrow> lowest = true_density price stance g) \<Longrightarrow>
    (r = best \<and> (\<forall>g \<in> set gs. \<not> true_density price stance g < lowest)) \<or>
    (\<exists>g \<in> set gs. r = Some g \<and> true_density price stance g < lowest \<and>
       (\<forall>h \<in> set gs. \<not> true_density price stance h < true_density price stance g))"
proof (induction gs arbitrary: memo lowest best)
  case (Cons g gs)
  obtain d memo1 where d: "densityOf price stance g memo = (d, memo1)" by force
  have t: "d = true_density price stance g" "memo_true price G memo1"
    using densityOf_true [OF Cons.prems(2) _ assms d] Cons.prems(1) by auto
  show ?case
  proof (cases "d < lowest")
    case True
    then have "lowest_scan (densityOf price stance) gs memo1 d (Some g) = (r, memo')"
      using Cons.prems(3) d by simp
    from Cons.IH [OF _ t(2) this] Cons.prems(1) t(1)
    consider "r = Some g" "\<forall>h \<in> set gs. \<not> true_density price stance h < d"
      | h where "h \<in> set gs" "r = Some h" "true_density price stance h < d"
          "\<forall>h' \<in> set gs. \<not> true_density price stance h' < true_density price stance h" by auto
    then show ?thesis
    proof cases
      case 1
      then show ?thesis using True t(1) by (auto intro!: bexI [of _ g])
    next
      case (2 h)
      have "true_density price stance h < lowest" using float_less_trans [OF 2(3) True] .
      moreover have "\<not> d < true_density price stance h"
      proof
        assume "d < true_density price stance h"
        from float_less_trans [OF 2(3) this] show False by simp
      qed
      ultimately show ?thesis using 2 t(1) by (auto intro!: bexI [of _ h])
    qed
  next
    case False
    then have "lowest_scan (densityOf price stance) gs memo1 lowest best = (r, memo')"
      using Cons.prems(3) d by simp
    from Cons.IH [OF _ t(2) this Cons.prems(4)] Cons.prems(1)
    consider "r = best" "\<forall>h \<in> set gs. \<not> true_density price stance h < lowest"
      | h where "h \<in> set gs" "r = Some h" "true_density price stance h < lowest"
          "\<forall>h' \<in> set gs. \<not> true_density price stance h' < true_density price stance h" by auto
    then show ?thesis
    proof cases
      case 1
      then show ?thesis using False t(1) by auto
    next
      case (2 h)
      then have "\<not> d < true_density price stance h" using False float_less_trans by blast
      then show ?thesis using 2 t(1) by (auto intro!: bexI [of _ h])
    qed
  qed
qed simp

text \<open>Shedding is greedy by density. With the costs remembered so far true, the group
  chosen has a density below infinity that no group undercuts; and none is chosen exactly
  when no group's density is below infinity.\<close>

lemma lowestDensityGroup_least:
  assumes "lowestDensityGroup (densityOf price stance) groups memo = (r, memo')"
    and "memo_true price (set groups) memo"
    and "\<forall>g \<in> set groups. \<forall>h \<in> set groups. dg_RootID g = dg_RootID h \<longrightarrow> price g = price h"
  shows "case r of
           None \<Rightarrow> list_all (\<lambda>g. \<not> true_density price stance g < PInf) groups
         | Some g \<Rightarrow> g \<in> set groups \<and> true_density price stance g < PInf \<and>
             list_all (\<lambda>h. \<not> true_density price stance h < true_density price stance g) groups"
  using lowest_scan_least [OF assms(3) subset_refl assms(2) assms(1) [unfolded lowestDensityGroup_def]]
  by (auto simp: list_all_iff)

section \<open>A worked assembly\<close>

text \<open>A retry on a window holding one question: the prior selection holds a tool result, whose
  closure brings the call along.\<close>

definition example_store :: CorpusStore where
  "example_store =
     \<lparr>cs_Messages = (\<lambda>ids. Inr (fmap_of_list [(''r'', example_result)])),
      cs_TurnPeers = (\<lambda>_. Inr [example_call, example_result])\<rparr>"

definition example_selected :: "float64 \<Rightarrow> SelectedMessage" where
  "example_selected score =
     \<lparr>sm_MessageId = ''r'', sm_EffectiveScore = score, sm_HopDepth = 1, sm_ViaEdges = [],
      sm_ThreadId = ''t'', sm_CrossThread = False, sm_ProvenanceWeight = 0\<rparr>"

definition example_request :: "int \<Rightarrow> float64 \<Rightarrow> AssembleRequest" where
  "example_request budget score =
     \<lparr>ar_SerializedLocalContext = Some (event_context\<lparr>lx_MessageIDs := [''q'']\<rparr>), ar_Anchor = Some example_question,
      ar_Store = Some example_store, ar_LocalContext = [example_question],
      ar_Scope = SELECTION_SCOPE_THREAD, ar_ThreadID = ''t'', ar_System = None, ar_Budget = budget,
      ar_HeadroomPct = 0, ar_PerMsgDelim = 0, ar_FixedTokens = 0, ar_ExcludeIDs = [],
      ar_CurrentTurnID = '''', ar_CountText = Some (\<lambda>m. ''xx''),
      ar_PriorSelection = Some \<lparr>sr_EventId = '''', sr_Scope = SELECTION_SCOPE_THREAD, sr_ThreadId = ''t'',
        sr_Selected = [example_selected score], sr_Excluded = [], sr_LocalContextFingerprint = '''',
        sr_LocalContextMessageIds = [], sr_AnchorMessageId = ''q''\<rparr>\<rparr>"

abbreviation example_est :: "string \<Rightarrow> int" where
  "example_est \<equiv> \<lambda>s. int (length s)"

abbreviation example_index :: ProtocolIndex where
  "example_index \<equiv> NewProtocolIndex [example_question, example_call, example_result]"

lemma example_scope:
  "protocolScope [example_question] (Some example_store) = Inr example_index"
  by (simp add: protocolScope_def example_store_def)

lemma example_window_group:
  "closeRoots example_index [example_question] None =
   Inr [\<lparr>dg_RootID = ''q'', dg_RootIDs = [''q''], dg_Score = PInf, dg_Messages = [example_question]\<rparr>]"
  by (simp add: closeRoots_def CloseGroup_def NewProtocolIndex_def example_messages Let_def clash_def
      protocolKey_def nul_def mergeDeliveryGroups_def merge_step_def)

lemma example_local:
  "2 \<le> budget \<Longrightarrow> local_loop example_est (example_request budget score) example_index pinned [example_question] =
   Inr ([example_question],
     [\<lparr>dg_RootID = ''q'', dg_RootIDs = [''q''], dg_Score = PInf, dg_Messages = [example_question]\<rparr>])"
  by (subst local_loop.simps)
     (simp add: example_window_group Let_def wireTokens_def groupsToWire_def wire_messages_def
      example_request_def effective_budget_def)

abbreviation example_window_groups :: "DeliveryGroup list" where
  "example_window_groups \<equiv>
     [\<lparr>dg_RootID = ''q'', dg_RootIDs = [''q''], dg_Score = PInf, dg_Messages = [example_question]\<rparr>]"

lemma example_prepare:
  "2 \<le> budget \<Longrightarrow> prepare_local (example_request budget score) (en_cfg event_engine) =
   Inr (example_question, example_est, [example_question], example_window_groups,
     Some (event_context\<lparr>lx_MessageIDs := [''q'']\<rparr>))"
proof -
  assume b: "2 \<le> budget"
  have req: "ar_Anchor (example_request budget score) = Some example_question"
    "ar_LocalContext (example_request budget score) = [example_question]"
    "ar_Store (example_request budget score) = Some example_store"
    "ar_CurrentTurnID (example_request budget score) = []"
    "ar_SerializedLocalContext (example_request budget score) = Some (event_context\<lparr>lx_MessageIDs := [''q'']\<rparr>)"
    by (simp_all add: example_request_def)
  have "c_Estimator (cfg_Chunk (en_cfg event_engine)) = Some example_est"
    by (simp add: event_engine_def example_config_def)
  moreover have "lastSemantic [example_question] [] = Some example_question"
    by (simp add: lastSemantic_def hasSemanticBlock_def example_messages)
  moreover have "messageIDs [example_question] = [''q'']" by (simp add: messageIDs_def example_messages)
  ultimately show ?thesis
    by (simp add: prepare_local_def req example_scope example_local [OF b] serialized_local_def)
qed

abbreviation example_group :: "float64 \<Rightarrow> DeliveryGroup" where
  "example_group score \<equiv>
     \<lparr>dg_RootID = ''r'', dg_RootIDs = [''r''], dg_Score = score, dg_Messages = [example_call, example_result]\<rparr>"

definition example_sel_index :: ProtocolIndex where
  "example_sel_index = NewProtocolIndex [example_result, example_call, example_result]"

definition example_corpus :: "(string, Message) fmap" where
  "example_corpus = fmap_of_list [(''r'', example_result)]"

definition example_env :: "int \<Rightarrow> float64 \<Rightarrow> shed_env" where
  "example_env budget score =
     delivery_env example_est (example_request budget score) example_window_groups
       (the (ar_PriorSelection (example_request budget score))) (en_cfg event_engine) example_corpus
       example_sel_index"

lemma example_env_fields:
  "se_req (example_env budget score) = example_request budget score"
  "se_index (example_env budget score) = example_sel_index"
  "se_corpus (example_env budget score) = example_corpus"
  "se_localIDs (example_env budget score) = {''q''}"
  "se_selected (example_env budget score) = [example_selected score]"
  "se_stance (example_env budget score) = Fin 1"
  "se_est (example_env budget score) = example_est"
  "se_localWire (example_env budget score) = [messageToLLM example_question]"
  by (simp_all add: example_env_def delivery_env_def group_ids_def example_request_def event_engine_def
      DefaultConfig_def stance_examples groupsToWire_def wire_messages_def)
     (simp add: example_messages)

lemma example_round:
  "round_groups example_sel_index example_corpus {''q''} {} [example_selected score] = Inr [example_group score]"
  by (simp add: round_groups_def example_sel_index_def example_corpus_def example_selected_def CloseGroup_def NewProtocolIndex_def example_messages
      Let_def clash_def protocolKey_def nul_def mergeDeliveryGroups_def merge_step_def groupOverlaps_def
      wire_less_def)

lemma example_tokens: "final_tokens (example_env budget score) [example_group score] = 6"
  by (simp add: final_tokens_def final_wire_def example_env_fields wireTokens_def groupsToWire_def
      wire_messages_def) (simp add: example_request_def example_messages delivery_less_def wireTokens_def)

text \<open>With room for six tokens everything is delivered.\<close>

lemma example_shed_none:
  "shed_loop (example_env 6 score) (shed_start (example_request 6 score)) =
   Some (Inr ([example_group score], shed_start (example_request 6 score)))"
proof -
  have "sh_dropped (shed_start (example_request 6 score)) = {}"
    "ar_Budget (example_request 6 score) = 6" "effective_budget (example_request 6 score) = 6"
    by (simp_all add: shed_start_def example_request_def effective_budget_def)
  then show ?thesis
    by (subst shed_loop.simps) (simp add: example_env_fields example_round example_tokens)
qed

lemma example_fetch:
  "fetch_selected sorted_list_of_fset (Some example_store) [''r''] = Inr (example_corpus, example_sel_index)"
  by (simp add: fetch_selected_def protocolScope_def example_store_def sorted_list_of_fset.rep_eq
      map_filter_simps example_sel_index_def example_corpus_def)

lemma example_assembly:
  "\<exists>e'. Assemble event_order sorted_list_of_fset sorted_list_of_fset (\<lambda>_. 0) (example_request 6 score) event_engine =
     Some (e', Inr (assemble_result (example_env 6 score) [example_question] example_window_groups
       (the (ar_PriorSelection (example_request 6 score))) (Some (event_context\<lparr>lx_MessageIDs := [''q'']\<rparr>)) [] no_telemetry
       [example_group score] (shed_start (example_request 6 score))))"
proof -
  let ?req = "example_request 6 score"
  obtain prior where prior: "ar_PriorSelection ?req = Some prior" "map sm_MessageId (sr_Selected prior) = [''r'']"
    by (simp add: example_request_def example_selected_def)
  have "ar_Store ?req = Some example_store" "en_price event_engine = Some fmempty"
    by (simp_all add: example_request_def event_engine_def)
  moreover have "delivery_env example_est ?req example_window_groups prior (en_cfg event_engine) example_corpus
      example_sel_index = example_env 6 score"
    using prior by (simp add: example_env_def)
  ultimately show ?thesis
    using example_shed_none [of score] prior example_fetch
    by (simp add: Assemble_def example_prepare choose_selection_def deliver_def setPrice_def)
qed

definition example_outcome :: "float64 \<Rightarrow> AssembleResult" where
  "example_outcome score =
     assemble_result (example_env 6 score) [example_question] example_window_groups
       (the (ar_PriorSelection (example_request 6 score))) (Some (event_context\<lparr>lx_MessageIDs := [''q'']\<rparr>)) []
       no_telemetry [example_group score] (shed_start (example_request 6 score))"

lemma example_outcome_fields:
  "as_Delivered (example_outcome score) = [example_group score]"
  "as_LocalGroups (example_outcome score) = example_window_groups"
  "as_Shed (example_outcome score) = []"
  "at_TotalTokens (as_Telemetry (example_outcome score)) = 6"
  "sr_Selected (as_Selection (example_outcome score)) = [example_selected score]"
  by (simp_all add: example_outcome_def assemble_result_def Let_def example_tokens shed_start_def
      example_request_def)

lemmas example_run = example_assembly [folded example_outcome_def]

lemma example_store_ok: "store_contract (ar_Store (example_request budget score))"
  by (simp add: store_contract_def corpus_ok_def example_request_def example_store_def example_messages)

theorem Assemble_budget_witness:
  "at_TotalTokens (as_Telemetry (example_outcome (Fin 0))) \<le> effective_budget (example_request 6 (Fin 0)) \<and>
   effective_budget (example_request 6 (Fin 0)) \<le> 6"
proof -
  obtain e' where "Assemble event_order sorted_list_of_fset sorted_list_of_fset (\<lambda>_. 0)
      (example_request 6 (Fin 0)) event_engine = Some (e', Inr (example_outcome (Fin 0)))" using example_run by blast
  from Assemble_budget [OF this, of example_est] show ?thesis
    by (simp add: example_request_def event_engine_def example_config_def)
qed

theorem Assemble_wire_witness:
  "''q'' \<in> m_Id ` set (wire_messages (as_LocalGroups (example_outcome (Fin 0))) {}) \<and>
   as_Wire (example_outcome (Fin 0)) = map messageToLLM [example_call, example_result, example_question]"
proof -
  obtain e' where run: "Assemble event_order sorted_list_of_fset sorted_list_of_fset (\<lambda>_. 0)
      (example_request 6 (Fin 0)) event_engine = Some (e', Inr (example_outcome (Fin 0)))" using example_run by blast
  have "set (ar_LocalContext (example_request 6 (Fin 0))) \<union> index_messages example_index
      \<subseteq> {example_question, example_call, example_result}"
    using NewProtocolIndex_messages [of "[example_question, example_call, example_result]"]
    by (simp add: example_request_def)
  moreover have "nul_free example_question" "nul_free example_call" "nul_free example_result"
    by (simp_all add: nul_free_def example_messages)
  ultimately have free: "\<forall>m \<in> set (ar_LocalContext (example_request 6 (Fin 0))) \<union> index_messages example_index. nul_free m"
    by blast
  have sys: "ar_Anchor (example_request 6 (Fin 0)) = Some example_question" "ar_System (example_request 6 (Fin 0)) = None"
    "protocolScope (ar_LocalContext (example_request 6 (Fin 0))) (ar_Store (example_request 6 (Fin 0))) = Inr example_index"
    using example_scope by (simp_all add: example_request_def)
  have "wire_messages [example_group (Fin 0)] {''q''} = [example_call, example_result]"
    "wire_messages example_window_groups {} = [example_question]"
    by (simp_all add: wire_messages_def delivery_less_def) (simp_all add: example_messages delivery_less_def)
  then show ?thesis
    using Assemble_wire [OF run sys(1,3) free]
    by (simp add: example_outcome_fields sys(2) Let_def) (simp add: example_messages)
qed

theorem Assemble_accounts_witness:
  "(\<Union>g \<in> set (as_Delivered (example_outcome (Fin 0))). set (dg_RootIDs g)) = {''r''} \<and>
   at_RealizedPrice (as_Telemetry (example_outcome (Fin 0))) = 0"
proof -
  obtain e' where run: "Assemble event_order sorted_list_of_fset sorted_list_of_fset (\<lambda>_. 0)
      (example_request 6 (Fin 0)) event_engine = Some (e', Inr (example_outcome (Fin 0)))" using example_run by blast
  have "ar_Store (example_request 6 (Fin 0)) = Some example_store" "ar_ExcludeIDs (example_request 6 (Fin 0)) = []"
    by (simp_all add: example_request_def)
  then show ?thesis
    using Assemble_accounts [OF run example_store_ok] example_fetch
    by (simp add: example_outcome_fields example_selected_def Let_def)
qed

theorem Assemble_frame_witness:
  "\<exists>e'. Assemble event_order sorted_list_of_fset sorted_list_of_fset (\<lambda>_. 0)
       (example_request 6 (Fin 0)) event_engine = Some (e', Inr (example_outcome (Fin 0))) \<and>
     en_dag e' = en_dag event_engine \<and>
     en_price e' = Some (fmupd ''t'' (at_RealizedPrice (as_Telemetry (example_outcome (Fin 0)))) fmempty)"
proof -
  obtain e' where run: "Assemble event_order sorted_list_of_fset sorted_list_of_fset (\<lambda>_. 0)
      (example_request 6 (Fin 0)) event_engine = Some (e', Inr (example_outcome (Fin 0)))"
    using example_run by blast
  have "ar_PriorSelection (example_request 6 (Fin 0)) \<noteq> None" "ar_ThreadID (example_request 6 (Fin 0)) = ''t''"
    "en_price event_engine = Some fmempty" by (simp_all add: example_request_def event_engine_def)
  then have "en_dag e' = en_dag event_engine \<and>
      en_price e' = Some (fmupd ''t'' (at_RealizedPrice (as_Telemetry (example_outcome (Fin 0)))) fmempty)"
    using Assemble_frame [where rng = event_order and below = sorted_list_of_fset and
        fetched = sorted_list_of_fset and now = "\<lambda>_. 0" and req = "example_request 6 (Fin 0)" and e = event_engine]
    by (auto simp: run)
  with run show ?thesis by blast
qed

text \<open>A duplicate that retrieval scored 1, and room for three tokens only.\<close>

lemma certain_groups_unsheddable_example:
  "shed_loop (example_env 3 (Fin 1)) (shed_start (example_request 3 (Fin 1))) = Some (Inl (FixedOverBudget 6 3))"
proof -
  have "sh_dropped (shed_start (example_request 3 (Fin 1))) = {}" by (simp add: shed_start_def example_request_def)
  moreover have "ar_Budget (example_request 3 (Fin 1)) = 3" "effective_budget (example_request 3 (Fin 1)) = 3"
    by (simp_all add: example_request_def effective_budget_def)
  ultimately show ?thesis
    using certain_groups_unsheddable [of "example_env 3 (Fin 1)" "[example_group (Fin 1)]" 1]
    by (simp add: example_env_fields example_round example_tokens)
qed

lemma lowestDensityGroup_least_example:
  "case fst (lowestDensityGroup (densityOf (\<lambda>_. 2) (Fin 1)) [example_group (Fin (3 / 4)), example_group (Fin 1)] fmempty) of
     None \<Rightarrow> False
   | Some g \<Rightarrow> list_all (\<lambda>h. \<not> true_density (\<lambda>_. 2) (Fin 1) h < true_density (\<lambda>_. 2) (Fin 1) g)
       [example_group (Fin (3 / 4)), example_group (Fin 1)]"
proof -
  let ?gs = "[example_group (Fin (3 / 4)), example_group (Fin 1)]"
  obtain r memo where r: "lowestDensityGroup (densityOf (\<lambda>_. 2) (Fin 1)) ?gs fmempty = (r, memo)" by force
  have "memo_true (\<lambda>_. 2) (set ?gs) fmempty" by (simp add: memo_true_def)
  from lowestDensityGroup_least [OF r this] show ?thesis
    using r by (cases r) (auto simp: true_density_def bitsFromConfidence_def)
qed

end
