(* ===== verification/Token_Scale.thy ===== *)
theory Token_Scale
  imports Float64
begin

text \<open>
  \<^verbatim>\<open>rrc/tokenscale/tokenscale.go\<close>: the learner that grounds the token counter in the
  usage providers report, one ring of admitted ratios per model. The artifact on disk is
  \<open>artifact\<close>: a JSON document of the store's shape is its decoded state, any other
  content is \<open>Garbage\<close> (Go's JSON encoder writes floats so that they read back
  exactly). Each save is told which of its steps fails. Abstractly the store is the history of
  admitted ratios; the theorems refine it to the ring and carry it over a restart.
\<close>

section \<open>Integers\<close>

text \<open>Go's 64-bit \<^verbatim>\<open>int\<close> wraps around.\<close>

definition wrap64 :: "int \<Rightarrow> int" where
  "wrap64 x = (x + 2 ^ 63) mod 2 ^ 64 - 2 ^ 63"

lemma wrap64_id: "- (2 ^ 63) \<le> x \<Longrightarrow> x < 2 ^ 63 \<Longrightarrow> wrap64 x = x"
  by (simp add: wrap64_def)

lemma wrap64_add: "wrap64 (wrap64 x + y) = wrap64 (x + y)"
proof -
  have "wrap64 x + y + 2 ^ 63 = (x + 2 ^ 63) mod 2 ^ 64 + y" by (simp add: wrap64_def)
  then have "wrap64 (wrap64 x + y) = ((x + 2 ^ 63) mod 2 ^ 64 + y) mod 2 ^ 64 - 2 ^ 63"
    unfolding wrap64_def [of "wrap64 x + y"] by (rule arg_cong)
  also have "((x + 2 ^ 63) mod 2 ^ 64 + y) mod 2 ^ 64 = (x + y + 2 ^ 63) mod 2 ^ 64"
    by (simp only: mod_add_left_eq add.assoc add.commute [of y])
  finally show ?thesis by (simp only: wrap64_def [of "x + y"])
qed

lemma wrap64_Suc: "wrap64 (wrap64 (int n) + 1) = wrap64 (int (Suc n))"
  by (simp only: wrap64_add of_nat_Suc add.commute [of 1])

section \<open>State and operations\<close>

definition ring_window :: nat where
  "ring_window = 32"

definition sizeGateDivisor :: int where
  "sizeGateDivisor = 4"

definition ratioMin :: float64 where
  "ratioMin = Fin (1 / 2)"

definition ratioMax :: float64 where
  "ratioMax = Fin 3"

record modelState =
  ms_Ratios :: "float64 list"
  ms_Samples :: int

type_synonym fileState = "(string, modelState option) fmap"

datatype artifact = Absent | Unreadable | Garbage | State fileState

record Store =
  st_models :: "(string, modelState) fmap"
  st_file :: artifact

datatype scale_error =
    ErrRead
  | ErrCorrupt
  | ErrDegenerate
  | ErrRatioOutOfBand string int int
  | ErrMkdir | ErrMarshal | ErrWrite | ErrRename

definition validRatios :: "float64 list \<Rightarrow> bool" where
  "validRatios ratios =
     (if ring_window < length ratios then False
      else list_all (\<lambda>r. \<not> (isNaN r \<or> isInf r \<or> r < ratioMin \<or> ratioMax < r)) ratios)"

definition valid_entry :: "string \<times> modelState option \<Rightarrow> bool" where
  "valid_entry kv = (\<not> (fst kv = [] \<or> (case snd kv of None \<Rightarrow> True | Some m \<Rightarrow> \<not> validRatios (ms_Ratios m))))"

text \<open>A nil store is \<open>None\<close>; the error comes with a usable empty store otherwise. The
  entries are checked in the order the map is ranged; the outcome is the same in every
  order.\<close>

definition Open :: "artifact \<Rightarrow> Store option \<times> scale_error option" where
  "Open file =
     (let empty = \<lparr>st_models = fmempty, st_file = file\<rparr> in
      case file of
        Absent \<Rightarrow> (Some empty, None)
      | Unreadable \<Rightarrow> (None, Some ErrRead)
      | Garbage \<Rightarrow> (Some empty, Some ErrCorrupt)
      | State fs \<Rightarrow>
          if \<not> fBall (fmdom fs) (\<lambda>k. valid_entry (k, lookup_or None fs k))
          then (Some empty, Some ErrDegenerate)
          else (Some (empty\<lparr>st_models := fmmap the fs\<rparr>), None))"

text \<open>A bound handle is the key it is fixed to; the store it shares is passed along.\<close>

definition Bound :: "string \<Rightarrow> string option" where
  "Bound key = (if key = [] then None else Some key)"

definition Scale :: "Store \<Rightarrow> string \<Rightarrow> float64" where
  "Scale s key =
     (case fmlookup (st_models s) key of
        None \<Rightarrow> 0
      | Some m \<Rightarrow>
          if ms_Ratios m = [] then 0
          else foldl (\<lambda>mx r. if mx < r then r else mx) 0 (ms_Ratios m))"

text \<open>Which step of a save fails, if any. Marshalling refuses a value that is not finite. A
  failure before the rename leaves the artifact as it was.\<close>

datatype save_fault = NoFault | MkdirFails | WriteFails | RenameFails

definition marshals :: "(string, modelState) fmap \<Rightarrow> bool" where
  "marshals models = fBall (fmran models) (\<lambda>m. list_all finite_float (ms_Ratios m))"

definition saveLocked :: "save_fault \<Rightarrow> Store \<Rightarrow> Store \<times> scale_error option" where
  "saveLocked fault s =
     (if fault = MkdirFails then (s, Some ErrMkdir)
      else if \<not> marshals (st_models s) then (s, Some ErrMarshal)
      else if fault = WriteFails then (s, Some ErrWrite)
      else if fault = RenameFails then (s, Some ErrRename)
      else (s\<lparr>st_file := State (fmmap Some (st_models s))\<rparr>, None))"

definition push_ratio :: "float64 \<Rightarrow> modelState \<Rightarrow> modelState" where
  "push_ratio ratio m =
     (let rs = ms_Ratios m @ [ratio] in
      m\<lparr>ms_Ratios := (if ring_window < length rs then drop (length rs - ring_window) rs else rs),
        ms_Samples := wrap64 (ms_Samples m + 1)\<rparr>)"

definition Observe ::
  "string \<Rightarrow> int \<Rightarrow> int \<Rightarrow> int \<Rightarrow> save_fault \<Rightarrow> Store \<Rightarrow> Store \<times> scale_error option" where
  "Observe key predicted observed budget fault s =
     (if predicted \<le> 0 \<or> observed \<le> 0 \<or> budget \<le> 0 then (s, None)
      else if wrap64 (predicted * sizeGateDivisor) < budget then (s, None)
      else let ratio = float_of_int observed / float_of_int predicted in
        if ratio < ratioMin \<or> ratioMax < ratio
        then (s, Some (ErrRatioOutOfBand key observed predicted))
        else let m = lookup_or \<lparr>ms_Ratios = [], ms_Samples = 0\<rparr> (st_models s) key in
          saveLocked fault (s\<lparr>st_models := fmupd key (push_ratio ratio m) (st_models s)\<rparr>))"

section \<open>The abstract learner\<close>

text \<open>An observation is a key, the predicted and reported counts, the budget, and the fate of
  its save. Abstractly a key has the list of its admitted ratios.\<close>

record observation =
  ob_key :: string
  ob_predicted :: int
  ob_observed :: int
  ob_budget :: int
  ob_fault :: save_fault

definition admits :: "observation \<Rightarrow> bool" where
  "admits x \<longleftrightarrow>
     ob_key x \<noteq> [] \<and> 0 < ob_predicted x \<and> 0 < ob_observed x \<and> 0 < ob_budget x \<and>
     ob_budget x \<le> wrap64 (4 * ob_predicted x) \<and>
     ob_predicted x \<le> 2 * ob_observed x \<and> ob_observed x \<le> 3 * ob_predicted x"

definition ratio_of :: "observation \<Rightarrow> real" where
  "ratio_of x = real_of_int (ob_observed x) / real_of_int (ob_predicted x)"

definition history :: "string \<Rightarrow> observation list \<Rightarrow> real list" where
  "history key xs = map ratio_of (filter (\<lambda>x. admits x \<and> ob_key x = key) xs)"

text \<open>One observation through the handle of its key; an empty key has no handle.\<close>

definition observe :: "observation \<Rightarrow> Store \<Rightarrow> Store \<times> scale_error option" where
  "observe x s =
     (case Bound (ob_key x) of
        None \<Rightarrow> (s, None)
      | Some key \<Rightarrow> Observe key (ob_predicted x) (ob_observed x) (ob_budget x) (ob_fault x) s)"

definition observe_all :: "observation list \<Rightarrow> Store \<Rightarrow> Store" where
  "observe_all xs s = foldl (\<lambda>s x. fst (observe x s)) s xs"

definition newest :: "'a list \<Rightarrow> 'a list" where
  "newest h = drop (length h - ring_window) h"

text \<open>The simulation relation between a store and the histories of its keys.\<close>

definition represents :: "Store \<Rightarrow> (string \<Rightarrow> real list) \<Rightarrow> bool" where
  "represents s h \<longleftrightarrow>
     (\<forall>key. case fmlookup (st_models s) key of
        None \<Rightarrow> h key = []
      | Some m \<Rightarrow> h key \<noteq> [] \<and> ms_Ratios m = map Fin (newest (h key)) \<and> ms_Samples m = wrap64 (int (length (h key))))"

lemma saveLocked_models: "st_models (fst (saveLocked fault s)) = st_models s"
  by (simp add: saveLocked_def)

lemma push_newest:
  "ms_Ratios m = map Fin (newest h) \<Longrightarrow> ms_Ratios (push_ratio (Fin r) m) = map Fin (newest (h @ [r]))"
proof -
  assume m: "ms_Ratios m = map Fin (newest h)"
  show ?thesis
  proof (cases "ring_window \<le> length h")
    case True
    then have len: "length (newest h) = ring_window" by (simp add: newest_def)
    have "newest (h @ [r]) = tl (newest h @ [r])"
    proof -
      have "tl (newest h @ [r]) = tl (drop (length h - ring_window) (h @ [r]))"
        by (simp add: newest_def)
      also have "\<dots> = drop (Suc (length h - ring_window)) (h @ [r])"
        by (simp only: drop_Suc tl_drop)
      finally show ?thesis using True by (simp add: newest_def Suc_diff_le)
    qed
    moreover have "newest h \<noteq> []" using len by (auto simp: ring_window_def)
    ultimately show ?thesis using m len
      by (simp add: push_ratio_def Let_def ring_window_def drop_Suc map_tl)
  next
    case False
    then show ?thesis using m by (simp add: push_ratio_def Let_def newest_def)
  qed
qed

lemma push_Samples: "ms_Samples (push_ratio r m) = wrap64 (ms_Samples m + 1)"
  by (simp add: push_ratio_def Let_def)

lemma in_band:
  assumes "0 < p" and "0 < q"
  shows "Fin (real_of_int q / real_of_int p) < ratioMin \<longleftrightarrow> 2 * q < p"
    and "ratioMax < Fin (real_of_int q / real_of_int p) \<longleftrightarrow> 3 * p < q"
  using assms by (simp_all add: ratioMin_def ratioMax_def divide_less_eq less_divide_eq) linarith+

lemma observe_models:
  "st_models (fst (observe x s)) =
   (if admits x
    then fmupd (ob_key x) (push_ratio (Fin (ratio_of x))
           (lookup_or \<lparr>ms_Ratios = [], ms_Samples = 0\<rparr> (st_models s) (ob_key x))) (st_models s)
    else st_models s)"
proof (cases "0 < ob_predicted x \<and> 0 < ob_observed x")
  case True
  then have "float_of_int (ob_observed x) / float_of_int (ob_predicted x) = Fin (ratio_of x)"
    by (simp add: ratio_of_def)
  moreover have "Fin (ratio_of x) < ratioMin \<longleftrightarrow> 2 * ob_observed x < ob_predicted x"
    and "ratioMax < Fin (ratio_of x) \<longleftrightarrow> 3 * ob_predicted x < ob_observed x"
    using True in_band unfolding ratio_of_def by blast+
  ultimately show ?thesis using True
    by (auto simp: observe_def Bound_def Observe_def Let_def admits_def saveLocked_models sizeGateDivisor_def not_less
        mult.commute [of "ob_predicted x" 4] simp del: less_float64.simps)
qed (auto simp: observe_def Bound_def Observe_def admits_def)

lemma represents_step:
  assumes "represents s h"
  shows "represents (fst (observe x s))
    (if admits x then h(ob_key x := h (ob_key x) @ [ratio_of x]) else h)"
proof (cases "admits x")
  case True
  let ?m = "lookup_or \<lparr>ms_Ratios = [], ms_Samples = 0\<rparr> (st_models s) (ob_key x)"
  have m: "ms_Ratios ?m = map Fin (newest (h (ob_key x)))" "ms_Samples ?m = wrap64 (int (length (h (ob_key x))))"
    using assms [unfolded represents_def, rule_format, of "ob_key x"]
    by (auto simp: lookup_or_def newest_def wrap64_def split: option.splits)
  then have "ms_Ratios (push_ratio (Fin (ratio_of x)) ?m) = map Fin (newest (h (ob_key x) @ [ratio_of x])) \<and>
      ms_Samples (push_ratio (Fin (ratio_of x)) ?m) = wrap64 (int (length (h (ob_key x) @ [ratio_of x])))"
    using push_newest [OF m(1)] m(2) 
    by (simp only: push_Samples wrap64_Suc length_append_singleton)
  then show ?thesis
    using assms True unfolding represents_def
    by (auto simp: observe_models split: option.splits) (metis option.distinct(1))
next
  case False
  with assms show ?thesis by (simp add: represents_def observe_models)
qed

lemma represents_all:
  assumes "represents s h"
  shows "represents (observe_all xs s) (\<lambda>key. h key @ history key xs)"
  using assms
proof (induction xs arbitrary: s h)
  case Nil
  then show ?case by (simp add: observe_all_def history_def)
next
  case (Cons x xs)
  let ?h = "if admits x then h(ob_key x := h (ob_key x) @ [ratio_of x]) else h"
  from Cons.IH [OF represents_step [OF Cons.prems]]
  have "represents (observe_all (x # xs) s) (\<lambda>key. ?h key @ history key xs)"
    by (simp add: observe_all_def)
  moreover have "(\<lambda>key. ?h key @ history key xs) = (\<lambda>key. h key @ history key (x # xs))"
    by (auto simp: history_def)
  ultimately show ?case by simp
qed

lemma foldl_max_Fin:
  "0 \<le> m \<Longrightarrow> \<forall>r \<in> set rs. 0 \<le> r \<Longrightarrow>
   foldl (\<lambda>mx r. if mx < r then r else mx) (Fin m) (map Fin rs) = Fin (Max (insert m (set rs)))"
proof (induction rs arbitrary: m)
  case (Cons r rs)
  have "foldl (\<lambda>mx r. if mx < r then r else mx) (Fin m) (map Fin (r # rs)) =
      foldl (\<lambda>mx r. if mx < r then r else mx) (Fin (max m r)) (map Fin rs)"
    by (simp add: max_def)
  also have "\<dots> = Fin (Max (insert (max m r) (set rs)))" using Cons by simp
  also have "Max (insert (max m r) (set rs)) = Max (insert m (set (r # rs)))"
    by (cases "rs = []") (simp_all add: max.assoc)
  finally show ?case .
qed simp

lemma history_pos: "r \<in> set (history key xs) \<Longrightarrow> 1 / 2 \<le> r \<and> r \<le> 3"
proof -
  assume "r \<in> set (history key xs)"
  then obtain x where x: "admits x" "r = ratio_of x" by (auto simp: history_def)
  then have "real_of_int (ob_predicted x) \<le> 2 * real_of_int (ob_observed x)"
    and "real_of_int (ob_observed x) \<le> 3 * real_of_int (ob_predicted x)"
    and "0 < real_of_int (ob_predicted x)"
    unfolding admits_def by linarith+
  then show ?thesis by (simp add: x(2) ratio_of_def field_simps)
qed

section \<open>The learned scale\<close>

text \<open>C15: The learner refines its abstract history: whatever a fresh store is told, and whichever of its
  saves fail, the scale of a model is 0 before anything is admitted for it and afterwards the
  maximum of the last 32 admitted ratios.\<close>

theorem Scale_refines:
  "Scale (observe_all xs \<lparr>st_models = fmempty, st_file = file\<rparr>) key =
   (if history key xs = [] then Fin 0 else Fin (Max (set (newest (history key xs)))))"
proof -
  let ?s = "observe_all xs \<lparr>st_models = fmempty, st_file = file\<rparr>" and ?h = "history key xs"
  have "represents \<lparr>st_models = fmempty, st_file = file\<rparr> (\<lambda>key. [])" by (simp add: represents_def)
  from represents_all [OF this, of xs, unfolded represents_def, rule_format, of key]
  consider "fmlookup (st_models ?s) key = None" "?h = []"
    | m where "fmlookup (st_models ?s) key = Some m" "?h \<noteq> []" "ms_Ratios m = map Fin (newest ?h)"
    by (auto split: option.splits)
  then show ?thesis
  proof cases
    case (2 m)
    then have "length ?h - 32 < length ?h" by simp
    then have ne: "newest ?h \<noteq> []" by (simp add: newest_def ring_window_def)
    have pos: "r \<in> set (newest ?h) \<Longrightarrow> 1 / 2 \<le> r" for r
      using history_pos [of r key xs] unfolding newest_def by (auto dest: in_set_dropD)
    then have nonneg: "\<forall>r \<in> set (newest ?h). 0 \<le> r" by fastforce
    have "hd (newest ?h) \<le> Max (set (newest ?h))" using ne by simp
    moreover have "1 / 2 \<le> hd (newest ?h)" using ne by (intro pos) simp
    ultimately have "0 < Max (set (newest ?h))" by linarith
    then have "Max (insert 0 (set (newest ?h))) = Max (set (newest ?h))" using ne by simp
    with 2 ne show ?thesis by (simp add: Scale_def foldl_max_Fin [OF order_refl nonneg])
  qed (simp add: Scale_def)
qed

section \<open>The artifact\<close>

definition wf_store :: "Store \<Rightarrow> bool" where
  "wf_store s \<longleftrightarrow> (\<forall>key m. fmlookup (st_models s) key = Some m \<longrightarrow> key \<noteq> [] \<and> validRatios (ms_Ratios m))"

lemma wf_empty: "wf_store \<lparr>st_models = fmempty, st_file = file\<rparr>"
  by (simp add: wf_store_def)

lemma Open_wf: "Open file = (Some s, err) \<Longrightarrow> wf_store s"
proof -
  assume opened: "Open file = (Some s, err)"
  show ?thesis
  proof (cases "file")
  case (State fs)
  with opened consider "s = \<lparr>st_models = fmempty, st_file = file\<rparr>"
    | "\<forall>k \<in> fset (fmdom fs). valid_entry (k, lookup_or None fs k)"
      "s = \<lparr>st_models = fmmap the fs, st_file = file\<rparr>"
    by (auto simp: Open_def Let_def State split: if_splits)
  then show ?thesis
  proof cases
    case 2
    have "k \<noteq> [] \<and> validRatios (ms_Ratios (the z))" if "fmlookup fs k = Some z" for k z
      using 2(1) that
      by (auto simp: lookup_or_def fmdomI valid_entry_def dest!: bspec [of _ _ k] split: option.splits)
    with 2(2) show ?thesis by (auto simp: wf_store_def)
  qed (simp add: wf_empty)
  qed (use opened in \<open>auto simp: Open_def Let_def wf_empty\<close>)
qed

lemma validRatios_Nil: "validRatios []"
  by (simp add: validRatios_def)

lemma validRatios_push:
  assumes "validRatios (ms_Ratios m)" and "validRatios [r]"
  shows "validRatios (ms_Ratios (push_ratio r m))"
proof -
  let ?rs = "ms_Ratios m @ [r]"
  have "set (ms_Ratios (push_ratio r m)) \<subseteq> set ?rs"
    unfolding push_ratio_def Let_def by (auto simp del: drop_append dest: in_set_dropD)
  moreover have "length (ms_Ratios (push_ratio r m)) \<le> ring_window"
    by (simp add: push_ratio_def Let_def ring_window_def)
  ultimately show ?thesis
    using assms by (auto simp: validRatios_def list_all_iff subset_iff split: if_splits)
qed

lemma admitted_valid: "admits x \<Longrightarrow> validRatios [Fin (ratio_of x)]"
  using in_band [of "ob_predicted x" "ob_observed x"]
  by (simp add: validRatios_def admits_def ratio_of_def ring_window_def isNaN_def isInf_def
      del: less_float64.simps)

lemma observe_wf: "wf_store s \<Longrightarrow> wf_store (fst (observe x s))"
proof -
  assume s: "wf_store s"
  let ?m = "lookup_or \<lparr>ms_Ratios = [], ms_Samples = 0\<rparr> (st_models s) (ob_key x)"
  have "validRatios (ms_Ratios ?m)"
    using s validRatios_Nil by (auto simp: wf_store_def lookup_or_def split: option.split)
  then have "admits x \<Longrightarrow> validRatios (ms_Ratios (push_ratio (Fin (ratio_of x)) ?m))"
    using validRatios_push admitted_valid by blast
  then show ?thesis
    using s by (auto simp: wf_store_def observe_models admits_def)
qed

lemma observe_all_wf: "wf_store s \<Longrightarrow> wf_store (observe_all xs s)"
  by (induction xs arbitrary: s) (simp_all add: observe_all_def observe_wf)

lemma finite_float_iff: "finite_float x \<longleftrightarrow> \<not> isNaN x \<and> \<not> isInf x"
  by (cases x) (simp_all add: finite_float_def isNaN_def isInf_def)

lemma wf_marshals: "wf_store s \<Longrightarrow> marshals (st_models s)"
proof -
  assume s: "wf_store s"
  have "list_all finite_float (ms_Ratios m)" if "fmlookup (st_models s) key = Some m" for key m
  proof -
    have "validRatios (ms_Ratios m)" using s that by (auto simp: wf_store_def)
    then show ?thesis by (auto simp: validRatios_def list_all_iff finite_float_iff split: if_splits)
  qed
  then show ?thesis by (auto simp: marshals_def elim!: fmranE)
qed

lemma Open_saved: "wf_store s \<Longrightarrow> Open (State (fmmap Some (st_models s))) =
    (Some \<lparr>st_models = st_models s, st_file = State (fmmap Some (st_models s))\<rparr>, None)"
proof -
  assume s: "wf_store s"
  have "fmmap the (fmmap Some (st_models s)) = st_models s" by (rule fmap_ext) (simp add: option.map_comp comp_def option.map_ident)
  moreover have "valid_entry (k, lookup_or None (fmmap Some (st_models s)) k)" if "k |\<in>| fmdom (st_models s)" for k
    using s that by (auto simp: valid_entry_def lookup_or_def wf_store_def elim!: fmdomE)
  ultimately show ?thesis by (auto simp: Open_def Let_def)
qed

lemma admitted_saves:
  "admits x \<Longrightarrow> observe x s = saveLocked (ob_fault x)
     (s\<lparr>st_models := fmupd (ob_key x) (push_ratio (Fin (ratio_of x))
        (lookup_or \<lparr>ms_Ratios = [], ms_Samples = 0\<rparr> (st_models s) (ob_key x))) (st_models s)\<rparr>)"
  using in_band [of "ob_predicted x" "ob_observed x"]
  by (auto simp: observe_def Bound_def Observe_def Let_def admits_def sizeGateDivisor_def ratio_of_def
      mult.commute [of "ob_predicted x" 4] simp del: less_float64.simps)

text \<open>C36: The artifact survives a restart. Take a store that was opened on any artifact the process
  could read (an absent, corrupt or degenerate one included) and told any observations. Once an
  admitted observation is saved without a fault, opening the artifact again succeeds without an
  error and gives exactly the store in memory, so every scale learned is kept.\<close>

theorem Observe_reopens:
  assumes "Open file = (Some s, err)" and "admits x" and "ob_fault x = NoFault"
  shows "snd (observe x (observe_all xs s)) = None \<and>
    Open (st_file (fst (observe x (observe_all xs s)))) = (Some (fst (observe x (observe_all xs s))), None)"
proof -
  let ?s' = "fst (observe x (observe_all xs s))"
  have wf: "wf_store ?s'" by (rule observe_wf [OF observe_all_wf [OF Open_wf [OF assms(1)]]])
  obtain t where t: "observe x (observe_all xs s) = saveLocked NoFault t"
    using admitted_saves [OF assms(2)] assms(3) by simp
  then have "marshals (st_models t)" using wf_marshals [OF wf] by (simp add: saveLocked_models)
  with t have "observe x (observe_all xs s) = (?s', None) \<and> st_file ?s' = State (fmmap Some (st_models ?s'))"
    by (simp add: saveLocked_def)
  then show ?thesis
    using Open_saved [OF wf] by (auto simp: prod_eq_iff)
qed

definition cold_call :: observation where
  "cold_call = \<lparr>ob_key = ''m'', ob_predicted = 1000, ob_observed = 1500, ob_budget = 4000, ob_fault = NoFault\<rparr>"

theorem Observe_reopens_witness:
  "Open (st_file (fst (observe cold_call (observe_all [] \<lparr>st_models = fmempty, st_file = Garbage\<rparr>)))) =
     (Some (fst (observe cold_call (observe_all [] \<lparr>st_models = fmempty, st_file = Garbage\<rparr>))), None) \<and>
   Scale (fst (observe cold_call \<lparr>st_models = fmempty, st_file = Garbage\<rparr>)) ''m'' = Fin (3 / 2)"
proof
  show "Open (st_file (fst (observe cold_call (observe_all [] \<lparr>st_models = fmempty, st_file = Garbage\<rparr>)))) =
     (Some (fst (observe cold_call (observe_all [] \<lparr>st_models = fmempty, st_file = Garbage\<rparr>))), None)"
    by (rule Observe_reopens [THEN conjunct2, of Garbage _ "Some ErrCorrupt"])
      (simp_all add: Open_def Let_def cold_call_def admits_def wrap64_def)
  have "admits cold_call" by (simp add: cold_call_def admits_def wrap64_def)
  then show "Scale (fst (observe cold_call \<lparr>st_models = fmempty, st_file = Garbage\<rparr>)) ''m'' = Fin (3 / 2)"
    by (simp add: Scale_def observe_models cold_call_def push_ratio_def lookup_or_def ratio_of_def ring_window_def)
qed

end
