(* ===== verification/Retry.thy ===== *)
theory Retry
  imports Local_Context Token_Scale
begin

text \<open>
  The errors of the provider layer (\<^verbatim>\<open>core/errors.go\<close>,
  \<^verbatim>\<open>core/httpc/status.go\<close>, \<^verbatim>\<open>core/httpc/client.go\<close>) and the retry
  policy around it (\<^verbatim>\<open>core/httpc/retry\<close>). A Go error is its chain: a sentinel, a
  \<^verbatim>\<open>StatusError\<close>, a \<^verbatim>\<open>fmt.Errorf\<close> that wraps with \<^verbatim>\<open>%w\<close>, or a plain
  error. What the clock, the context and the random source do is an argument of \<open>Do\<close>;
  the operation it runs is a function on a state of its own, so that whatever it did is
  visible afterwards. Durations are nanoseconds.
\<close>

section \<open>Errors\<close>

datatype sentinel =
    ErrUnsupported | ErrAuth | ErrProviderUnavailable | ErrRateLimited | ErrContextTooLong
  | ErrModelNotFound | Canceled | DeadlineExceeded

fun sentinel_text :: "sentinel \<Rightarrow> string" where
  "sentinel_text ErrUnsupported = ''capability not supported by provider''"
| "sentinel_text ErrAuth = ''authentication failed''"
| "sentinel_text ErrProviderUnavailable = ''provider endpoint unreachable''"
| "sentinel_text ErrRateLimited = ''provider rate limit exceeded''"
| "sentinel_text ErrContextTooLong = ''request exceeds model context window''"
| "sentinel_text ErrModelNotFound = ''model not found''"
| "sentinel_text Canceled = ''context canceled''"
| "sentinel_text DeadlineExceeded = ''context deadline exceeded''"

record StatusError =
  se_Provider :: string
  se_StatusCode :: int
  se_Body :: string

text \<open>\<open>Errorf a e b\<close> is an error whose text is \<open>a\<close>, the text of \<open>e\<close> and
  \<open>b\<close>, and which wraps \<open>e\<close>.\<close>

datatype go_error =
    Sentinel sentinel
  | Status StatusError
  | Errorf string go_error string
  | Plain string

definition format_int :: "int \<Rightarrow> string" where
  "format_int i = (if i < 0 then CHR ''-'' # fmt_d (nat (- i)) else fmt_d (nat i))"

definition StatusError_Error :: "StatusError \<Rightarrow> string" where
  "StatusError_Error e =
     (if se_Body e \<noteq> [] then se_Provider e @ '' returned '' @ format_int (se_StatusCode e) @ '': '' @ se_Body e
      else se_Provider e @ '' returned '' @ format_int (se_StatusCode e))"

definition StatusError_Unwrap :: "StatusError \<Rightarrow> sentinel" where
  "StatusError_Unwrap e =
     (if se_StatusCode e = 401 \<or> se_StatusCode e = 403 then ErrAuth
      else if se_StatusCode e = 429 then ErrRateLimited
      else ErrProviderUnavailable)"

definition StatusError_Status :: "StatusError \<Rightarrow> int" where
  "StatusError_Status e = se_StatusCode e"

fun Error :: "go_error \<Rightarrow> string" where
  "Error (Sentinel s) = sentinel_text s"
| "Error (Status e) = StatusError_Error e"
| "Error (Errorf a e b) = a @ Error e @ b"
| "Error (Plain s) = s"

fun errors_Is :: "go_error \<Rightarrow> sentinel \<Rightarrow> bool" where
  "errors_Is (Sentinel s) t = (s = t)"
| "errors_Is (Status e) t = (StatusError_Unwrap e = t)"
| "errors_Is (Errorf a e b) t = errors_Is e t"
| "errors_Is (Plain s) t = False"

text \<open>\<^verbatim>\<open>errors.As\<close> to the interface with a \<^verbatim>\<open>Status()\<close> method.\<close>

fun errors_As_Status :: "go_error \<Rightarrow> int option" where
  "errors_As_Status (Status e) = Some (StatusError_Status e)"
| "errors_As_Status (Errorf a e b) = errors_As_Status e"
| "errors_As_Status _ = None"

definition Contains :: "string \<Rightarrow> string \<Rightarrow> bool" where
  "Contains s sub = sublist sub s"

definition containsAny :: "string \<Rightarrow> string list \<Rightarrow> bool" where
  "containsAny s needles = list_ex (Contains s) needles"

text \<open>\<^verbatim>\<open>strings.ToLower\<close> as far as ASCII patterns can see it: the ASCII letters, and the
  two other code points that lower to one, the Kelvin sign and the capital I with a dot. Every
  other letter stays outside ASCII and is kept.\<close>

definition lower_char :: "char \<Rightarrow> char" where
  "lower_char c = (if CHR ''A'' \<le> c \<and> c \<le> CHR ''Z'' then char_of (of_char c + 32 :: nat) else c)"

fun ToLower :: "string \<Rightarrow> string" where
  "ToLower [] = []"
| "ToLower (c # cs) =
     (if prefix [CHR 0xE2, CHR 0x84, CHR 0xAA] (c # cs) then CHR ''k'' # ToLower (drop 2 cs)
      else if prefix [CHR 0xC4, CHR 0xB0] (c # cs) then CHR ''i'' # ToLower (drop 1 cs)
      else lower_char c # ToLower cs)"

definition contextOverflowPatterns :: "string list" where
  "contextOverflowPatterns =
     [''context window exceeds limit'', ''context length exceeded'', ''maximum context length'',
      ''context_length_exceeded'', ''prompt is too long'', ''input is too long'',
      ''requested tokens'', ''exceeds the maximum'', ''too many tokens'', ''context window'']"

definition IsContextOverflow :: "go_error option \<Rightarrow> bool" where
  "IsContextOverflow err =
     (case err of
        None \<Rightarrow> False
      | Some e \<Rightarrow>
          if errors_Is e ErrContextTooLong then True
          else list_ex (Contains (ToLower (Error e))) contextOverflowPatterns)"

section \<open>The HTTP client\<close>

text \<open>What the transport does with a request, and whether the body can be read.\<close>

datatype transport = Unreached string | Responds int "string + string"

definition statusBodyLimit :: nat where
  "statusBodyLimit = 8192"

definition NewStatusError :: "string \<Rightarrow> int \<Rightarrow> (string + string) option \<Rightarrow> StatusError" where
  "NewStatusError provider code body =
     (let e = \<lparr>se_Provider = provider, se_StatusCode = code, se_Body = ''''\<rparr> in
      case body of
        Some (Inr b) \<Rightarrow> e\<lparr>se_Body := TrimSpace (take statusBodyLimit b)\<rparr>
      | _ \<Rightarrow> e)"

definition Client_Do :: "transport \<Rightarrow> go_error + int \<times> (string + string)" where
  "Client_Do t =
     (case t of
        Unreached why \<Rightarrow> Inl (Errorf '''' (Sentinel ErrProviderUnavailable) ('': '' @ why))
      | Responds code body \<Rightarrow>
          if code = 401 \<or> code = 403 then Inl (Status \<lparr>se_Provider = '''', se_StatusCode = code, se_Body = ''''\<rparr>)
          else if code = 429 then Inl (Status \<lparr>se_Provider = '''', se_StatusCode = code, se_Body = ''''\<rparr>)
          else Inr (code, body))"

definition Client_DoJSON :: "transport \<Rightarrow> string option \<times> int \<times> go_error option" where
  "Client_DoJSON t =
     (case Client_Do t of
        Inl err \<Rightarrow> (None, 0, Some err)
      | Inr (code, Inl why) \<Rightarrow>
          (None, code, Some (Errorf '''' (Sentinel ErrProviderUnavailable) ('': reading response: '' @ why)))
      | Inr (code, Inr body) \<Rightarrow> (Some body, code, None))"

section \<open>Classification\<close>

definition statusRetryable :: "int \<Rightarrow> bool" where
  "statusRetryable code =
     (if code = 408 \<or> code = 429 then True
      else if 500 \<le> code \<and> code < 600 then True
      else False)"

definition IsRetryable :: "go_error option \<Rightarrow> bool" where
  "IsRetryable err =
     (case err of
        None \<Rightarrow> False
      | Some e \<Rightarrow>
          if errors_Is e Canceled \<or> errors_Is e DeadlineExceeded then False
          else case errors_As_Status e of
            Some code \<Rightarrow> statusRetryable code
          | None \<Rightarrow>
              if errors_Is e ErrAuth then False
              else if errors_Is e ErrRateLimited then True
              else if errors_Is e ErrProviderUnavailable then
                (let msg = Error e in
                 if containsAny msg
                      [''500'', ''502'', ''503'', ''504'', ''Bad Gateway'', ''Gateway Timeout'',
                       ''Service Unavailable'', ''Service Temporarily Unavailable'', ''Internal Server Error'']
                 then True
                 else if containsAny msg
                      [''context deadline exceeded'', ''Client.Timeout exceeded'', ''connection refused'',
                       ''connection reset'', ''no such host'', ''unexpected EOF'', ''broken pipe'',
                       ''i/o timeout'', ''TLS handshake timeout'']
                 then True
                 else if containsAny msg [''400'', ''404'', ''409'', ''410'', ''422''] then False
                 else True)
              else False)"

section \<open>The policy\<close>

record Policy =
  p_MaxAttempts :: int
  p_BaseDelay :: int
  p_MaxDelay :: int
  p_Multiplier :: float64
  p_Jitter :: float64

abbreviation (input) Second :: int where
  "Second \<equiv> 10 ^ 9"

definition DefaultPolicy :: Policy where
  "DefaultPolicy =
     \<lparr>p_MaxAttempts = 10, p_BaseDelay = 5 * Second, p_MaxDelay = 300 * Second,
      p_Multiplier = Fin 2, p_Jitter = Fin (1 / 5)\<rparr>"

definition LocalServicePolicy :: Policy where
  "LocalServicePolicy =
     \<lparr>p_MaxAttempts = 3, p_BaseDelay = Second, p_MaxDelay = 10 * Second,
      p_Multiplier = Fin 3, p_Jitter = Fin (1 / 4)\<rparr>"

record Event =
  ev_Attempt :: int
  ev_MaxAttempts :: int
  ev_Err :: "go_error option"
  ev_NextDelay :: int
  ev_Final :: bool

text \<open>The zero fields of a policy become their defaults.\<close>

definition with_defaults :: "Policy \<Rightarrow> Policy" where
  "with_defaults policy =
     (let p = (if p_MaxAttempts policy < 1 then policy\<lparr>p_MaxAttempts := 1\<rparr> else policy);
          p = (if p_Multiplier p \<le> Fin 0 then p\<lparr>p_Multiplier := Fin 2\<rparr> else p);
          p = (if p_BaseDelay p \<le> 0 then p\<lparr>p_BaseDelay := Second\<rparr> else p)
      in if p_MaxDelay p \<le> 0 then p\<lparr>p_MaxDelay := 60 * Second\<rparr> else p)"

text \<open>\<open>u\<close> is the number \<^verbatim>\<open>rand.Float64()\<close> draws.\<close>

definition applyJitter :: "float64 \<Rightarrow> int \<Rightarrow> float64 \<Rightarrow> int" where
  "applyJitter u d fraction =
     (if fraction \<le> Fin 0 then d
      else let f = (if Fin 1 < fraction then Fin 1 else fraction);
               delta = (u * Fin 2 - Fin 1) * f
           in int_of_float (float_of_int d * (Fin 1 + delta)))"

definition next_delay :: "Policy \<Rightarrow> int \<Rightarrow> int" where
  "next_delay p delay =
     (let n = int_of_float (float_of_int delay * p_Multiplier p) in
      if p_MaxDelay p < n then p_MaxDelay p else n)"

text \<open>For attempt \<open>n\<close>: what \<^verbatim>\<open>ctx.Err()\<close> gives before it, whether the context
  ends the wait after it and with which error, and the number drawn for its jitter.\<close>

record retry_env =
  re_ctxErr :: "int \<Rightarrow> go_error option"
  re_cancel :: "int \<Rightarrow> go_error option"
  re_rand :: "int \<Rightarrow> float64"

function do_loop ::
  "retry_env \<Rightarrow> Policy \<Rightarrow> ('s \<Rightarrow> 's \<times> go_error option) \<Rightarrow> int \<Rightarrow> int \<Rightarrow> go_error option \<Rightarrow> 's \<Rightarrow> Event list \<Rightarrow>
   's \<times> Event list \<times> go_error option" where
  "do_loop v p op attempt delay lastErr s evs =
     (if p_MaxAttempts p < attempt then (s, evs, lastErr)
      else case re_ctxErr v attempt of
        Some c \<Rightarrow> (s, evs, Some c)
      | None \<Rightarrow>
          (case op s of
             (s', None) \<Rightarrow>
               (s', evs @ [\<lparr>ev_Attempt = attempt, ev_MaxAttempts = p_MaxAttempts p, ev_Err = None,
                            ev_NextDelay = 0, ev_Final = True\<rparr>], None)
           | (s', Some err) \<Rightarrow>
               if \<not> IsRetryable (Some err) \<or> attempt = p_MaxAttempts p then
                 (s', evs @ [\<lparr>ev_Attempt = attempt, ev_MaxAttempts = p_MaxAttempts p, ev_Err = Some err,
                              ev_NextDelay = 0, ev_Final = True\<rparr>], Some err)
               else
                 (let wait = applyJitter (re_rand v attempt) delay (p_Jitter p);
                      evs' = evs @ [\<lparr>ev_Attempt = attempt, ev_MaxAttempts = p_MaxAttempts p,
                                     ev_Err = Some err, ev_NextDelay = wait, ev_Final = False\<rparr>]
                  in case re_cancel v attempt of
                       Some c \<Rightarrow> (s', evs', Some c)
                     | None \<Rightarrow> do_loop v p op (attempt + 1) (next_delay p delay) (Some err) s' evs')))"
  by pat_completeness auto
termination
  by (relation "measure (\<lambda>(v, p, op, attempt, delay, lastErr, s, evs). nat (p_MaxAttempts p + 1 - attempt))") auto

declare do_loop.simps [simp del]

definition Do ::
  "retry_env \<Rightarrow> Policy \<Rightarrow> ('s \<Rightarrow> 's \<times> go_error option) \<Rightarrow> 's \<Rightarrow> 's \<times> Event list \<times> go_error option" where
  "Do v policy op s =
     (let p = with_defaults policy in do_loop v p op 1 (p_BaseDelay p) None s [])"

section \<open>What a retried operation does\<close>

text \<open>The state after \<open>n\<close> runs of an operation, and the error of the run after that.\<close>

definition state_after :: "('s \<Rightarrow> 's \<times> go_error option) \<Rightarrow> 's \<Rightarrow> nat \<Rightarrow> 's" where
  "state_after op s n = ((fst \<circ> op) ^^ n) s"

definition err_at :: "('s \<Rightarrow> 's \<times> go_error option) \<Rightarrow> 's \<Rightarrow> nat \<Rightarrow> go_error option" where
  "err_at op s n = snd (op (state_after op s n))"

text \<open>The event an attempt reports, given the number and the delay of the first one.\<close>

definition expected_event ::
  "retry_env \<Rightarrow> Policy \<Rightarrow> ('s \<Rightarrow> 's \<times> go_error option) \<Rightarrow> 's \<Rightarrow> int \<Rightarrow> int \<Rightarrow> nat \<Rightarrow> Event" where
  "expected_event v p op s a d i =
     (let final = (\<not> IsRetryable (err_at op s i) \<or> a + int i = p_MaxAttempts p) in
      \<lparr>ev_Attempt = a + int i, ev_MaxAttempts = p_MaxAttempts p, ev_Err = err_at op s i,
       ev_NextDelay = (if final then 0
                       else applyJitter (re_rand v (a + int i)) ((next_delay p ^^ i) d) (p_Jitter p)),
       ev_Final = final\<rparr>)"

text \<open>Why the loop stopped after \<open>n\<close> runs with the result \<open>r\<close>: success, a
  permanent or last failure, a context found done before the next run, or one done during the
  wait.\<close>

definition stops :: "retry_env \<Rightarrow> Policy \<Rightarrow> ('s \<Rightarrow> 's \<times> go_error option) \<Rightarrow> 's \<Rightarrow> int \<Rightarrow> nat \<Rightarrow> go_error option \<Rightarrow> bool" where
  "stops v p op s a n r \<longleftrightarrow>
     (0 < n \<and> r = err_at op s (n - 1) \<and> (\<not> IsRetryable r \<or> a + int n = p_MaxAttempts p + 1)) \<or>
     (r \<noteq> None \<and> (\<forall>i<n. IsRetryable (err_at op s i)) \<and>
      (r = re_ctxErr v (a + int n) \<or> 0 < n \<and> r = re_cancel v (a + int n - 1)))"

definition retried ::
  "retry_env \<Rightarrow> Policy \<Rightarrow> ('s \<Rightarrow> 's \<times> go_error option) \<Rightarrow> 's \<Rightarrow> int \<Rightarrow> int \<Rightarrow> 's \<times> Event list \<times> go_error option \<Rightarrow> nat \<Rightarrow> bool" where
  "retried v p op s a d out n \<longleftrightarrow>
     a + int n \<le> p_MaxAttempts p + 1 \<and>
     (\<forall>i. Suc i < n \<longrightarrow> IsRetryable (err_at op s i)) \<and>
     fst out = state_after op s n \<and>
     fst (snd out) = map (expected_event v p op s a d) [0..<n] \<and>
     stops v p op s a n (snd (snd out))"

lemma state_after_0 [simp]: "state_after op s 0 = s"
  by (simp add: state_after_def)

lemma state_after_Suc: "state_after op s (Suc n) = state_after op (fst (op s)) n"
  by (simp add: state_after_def funpow_swap1)

lemma err_at_0 [simp]: "err_at op s 0 = snd (op s)"
  by (simp add: err_at_def)

lemma err_at_Suc: "err_at op s (Suc n) = err_at op (fst (op s)) n"
  by (simp add: err_at_def state_after_Suc)

lemma expected_event_Suc:
  "expected_event v p op s a d (Suc i) = expected_event v p op (fst (op s)) (a + 1) (next_delay p d) i"
  by (simp add: expected_event_def Let_def err_at_Suc funpow_swap1 add.assoc add.commute [of 1])

lemma IsRetryable_None [simp]: "\<not> IsRetryable None"
  by (simp add: IsRetryable_def)

lemma events_Suc:
  "map (expected_event v p op s a d) [0..<Suc n] =
   expected_event v p op s a d 0 # map (expected_event v p op (fst (op s)) (a + 1) (next_delay p d)) [0..<n]"
  by (simp add: upt_conv_Cons map_Suc_upt [symmetric] expected_event_Suc del: upt_Suc)

lemma retried_Suc:
  assumes "IsRetryable (snd (op s))" and "a < p_MaxAttempts p"
    and "retried v p op (fst (op s)) (a + 1) (next_delay p d) (s', evs, r) n"
  shows "retried v p op s a d (s', expected_event v p op s a d 0 # evs, r) (Suc n)"
proof -
  have "IsRetryable (err_at op s i)" if "Suc i < Suc n" for i
    using that assms(1,3) by (cases i) (auto simp: retried_def err_at_Suc)
  moreover have "stops v p op s a (Suc n) r"
  proof -
    have all: "(\<forall>i<n. IsRetryable (err_at op (fst (op s)) i)) \<Longrightarrow> (\<forall>i<Suc n. IsRetryable (err_at op s i))"
      using assms(1) by (auto simp: less_Suc_eq_0_disj err_at_Suc)
    have num: "a + 1 + int n = a + int (Suc n)" by simp
    from assms(3) have "stops v p op (fst (op s)) (a + 1) n r" by (simp add: retried_def)
    then show ?thesis
      unfolding stops_def num using all by (cases n) (auto simp: err_at_Suc)
  qed
  ultimately show ?thesis
    using assms(3) unfolding retried_def by (simp add: events_Suc state_after_Suc del: upt_Suc)
qed

lemma retried_1:
  assumes "a \<le> p_MaxAttempts p"
    and "r = snd (op s) \<and> (\<not> IsRetryable r \<or> a = p_MaxAttempts p) \<or>
         r \<noteq> None \<and> IsRetryable (snd (op s)) \<and> a < p_MaxAttempts p \<and> r = re_cancel v a"
  shows "retried v p op s a d (fst (op s), [expected_event v p op s a d 0], r) 1"
  using assms by (auto simp: retried_def stops_def state_after_def)

lemma do_loop_retried:
  "a \<le> p_MaxAttempts p \<Longrightarrow>
   \<exists>n s' new r. do_loop v p op a d lastErr s evs = (s', evs @ new, r) \<and> retried v p op s a d (s', new, r) n"
proof (induction v p op a d lastErr s evs rule: do_loop.induct)
  case (1 v p op a d lastErr s evs)
  let ?new = "[expected_event v p op s a d 0]"
  note loop = do_loop.simps [of v p op a d lastErr s evs]
  obtain s' e where op: "op s = (s', e)" by (cases "op s")
  consider (ctx) c where "re_ctxErr v a = Some c"
    | (ends) "re_ctxErr v a = None" "\<not> IsRetryable e \<or> a = p_MaxAttempts p"
    | (cancel) err c where "re_ctxErr v a = None" "e = Some err" "IsRetryable e" "a < p_MaxAttempts p" "re_cancel v a = Some c"
    | (again) err where "re_ctxErr v a = None" "e = Some err" "IsRetryable e" "a < p_MaxAttempts p" "re_cancel v a = None"
    using 1(2) by (cases "re_ctxErr v a"; cases e; cases "re_cancel v a") fastforce+
  then show ?case
  proof cases
    case ctx
    then have "retried v p op s a d (s, [], Some c) 0"
      using 1(2) by (simp add: retried_def stops_def)
    with ctx 1(2) show ?thesis by (auto simp: loop)
  next
    case ends
    have "do_loop v p op a d lastErr s evs = (s', evs @ ?new, e)"
      using ends 1(2) op by (cases e) (simp_all add: loop expected_event_def)
    moreover have "retried v p op s a d (s', ?new, e) 1"
      using retried_1 [of a p e op s v d] 1(2) ends op by simp
    ultimately show ?thesis by blast
  next
    case cancel
    have "do_loop v p op a d lastErr s evs = (s', evs @ ?new, Some c)"
      using cancel op by (simp add: loop expected_event_def)
    moreover have "retried v p op s a d (s', ?new, Some c) 1"
      using retried_1 [of a p "Some c" op s v d] 1(2) cancel op by simp
    ultimately show ?thesis by blast
  next
    case again
    let ?evs = "evs @ ?new"
    have step: "do_loop v p op a d lastErr s evs = do_loop v p op (a + 1) (next_delay p d) (Some err) s' ?evs"
      using again op by (simp add: loop expected_event_def)
    have "\<exists>n s'' new r. do_loop v p op (a + 1) (next_delay p d) (Some err) s' ?evs = (s'', ?evs @ new, r) \<and>
        retried v p op s' (a + 1) (next_delay p d) (s'', new, r) n"
      using 1(1) [OF _ _ op [symmetric] _ _ refl refl, of err] again op
      by (simp add: expected_event_def)
    then obtain n s'' new r where
      "do_loop v p op (a + 1) (next_delay p d) (Some err) s' ?evs = (s'', ?evs @ new, r)"
      and "retried v p op (fst (op s)) (a + 1) (next_delay p d) (s'', new, r) n"
      using op by auto
    with step retried_Suc [of op s a p v d s'' new r n] again op show ?thesis
      by (metis append.assoc append_Cons append_Nil snd_conv)
  qed
qed

lemma Do_runs:
  "\<exists>n. retried v (with_defaults policy) op s 1 (p_BaseDelay (with_defaults policy)) (Do v policy op s) n \<and>
     int n \<le> max 1 (p_MaxAttempts policy)"
proof -
  let ?p = "with_defaults policy"
  have max: "p_MaxAttempts ?p = max 1 (p_MaxAttempts policy)"
    by (simp add: with_defaults_def Let_def max_def)
  then obtain n s' new r where
    "do_loop v ?p op 1 (p_BaseDelay ?p) None s [] = (s', [] @ new, r)" and
    *: "retried v ?p op s 1 (p_BaseDelay ?p) (s', new, r) n"
    using do_loop_retried [of 1 ?p v op "p_BaseDelay ?p" None s "[]"] by auto
  then show ?thesis
    using max by (intro exI [of _ n]) (auto simp: Do_def Let_def retried_def)
qed

text \<open>C16: What a retried operation does: it runs some number of times, at most the policy's
  maximum (at least once unless the context is already done), every run but the last having
  failed with an error classified as transient. There is exactly one event per run, numbered
  from 1, with that run's error, marked final exactly when no further run is made for the
  error, and carrying the backoff delay otherwise. It returns the last run's result, when that
  is a success, a permanent failure or the last allowed run, and otherwise the error of the
  context that ended the wait or was found before the next run.\<close>

theorem Do_retried:
  "\<exists>n. retried v (with_defaults policy) op s 1 (p_BaseDelay (with_defaults policy)) (Do v policy op s) n \<and>
     int n \<le> max 1 (p_MaxAttempts policy)"
  by (rule Do_runs)

section \<open>Delays\<close>

definition clamp :: "real \<Rightarrow> real" where
  "clamp j = max 0 (min 1 j)"

lemma int_of_float_floor:
  assumes "0 \<le> r" and "r < 2 ^ 63"
  shows "int_of_float (Fin r) = \<lfloor>r\<rfloor>"
proof -
  have "\<lfloor>r\<rfloor> < 2 ^ 63" using assms(2) by (simp add: floor_less_iff)
  moreover have "0 \<le> \<lfloor>r\<rfloor>" using assms(1) by simp
  then have "- (2 ^ 63) \<le> \<lfloor>r\<rfloor>" by (rule order_trans [rotated]) simp
  ultimately show ?thesis using assms(1) by simp
qed

lemma applyJitter_bounds:
  assumes "0 \<le> u" and "u \<le> 1" and "0 \<le> d" and "2 * d < 2 ^ 63"
  shows "(1 - clamp j) * real_of_int d - 1 \<le> real_of_int (applyJitter (Fin u) d (Fin j)) \<and>
    real_of_int (applyJitter (Fin u) d (Fin j)) \<le> (1 + clamp j) * real_of_int d \<and>
    0 \<le> applyJitter (Fin u) d (Fin j)"
proof (cases "0 < j")
  case True
  define c where "c = clamp j"
  define w where "w = real_of_int d * (1 + (u * 2 - 1) * c)"
  have c: "0 \<le> c" "c \<le> 1" by (simp_all add: c_def clamp_def)
  have "\<bar>u * 2 - 1\<bar> * c \<le> 1 * c" using assms(1,2) c by (intro mult_right_mono) auto
  then have "\<bar>(u * 2 - 1) * c\<bar> \<le> c" using c by (simp add: abs_mult)
  then have "1 - c \<le> 1 + (u * 2 - 1) * c" and "1 + (u * 2 - 1) * c \<le> 1 + c" by linarith+
  then have low: "real_of_int d * (1 - c) \<le> w" and high: "w \<le> real_of_int d * (1 + c)"
    unfolding w_def using assms(3) by (simp_all add: mult_left_mono)
  have "0 \<le> real_of_int d * (1 - c)" using c assms(3) by simp
  with low have w0: "0 \<le> w" by linarith
  have "real_of_int d * (1 + c) \<le> real_of_int d * 2" using c assms(3) by (intro mult_left_mono) auto
  moreover have "real_of_int (2 * d) < real_of_int (2 ^ 63)" using assms(4) by (simp only: of_int_less_iff)
  then have "real_of_int d * 2 < 2 ^ 63" by simp
  ultimately have "w < 2 ^ 63" using high by linarith
  have c_eq: "c = (if 1 < j then 1 else j)" using True by (simp add: c_def clamp_def)
  have "applyJitter (Fin u) d (Fin j) = int_of_float (Fin w)"
    using True unfolding w_def c_eq by (simp add: applyJitter_def Let_def del: int_of_float.simps)
  then have "applyJitter (Fin u) d (Fin j) = \<lfloor>w\<rfloor>" using int_of_float_floor [OF w0 \<open>w < 2 ^ 63\<close>] by simp
  then show ?thesis using low high w0 unfolding c_def by (simp add: mult.commute) linarith
qed (use assms in \<open>simp_all add: applyJitter_def clamp_def\<close>)

lemma next_delay_bounds:
  assumes "0 \<le> d" and "d \<le> p_MaxDelay p" and "p_Multiplier p = Fin m" and "0 < m"
    and "real_of_int (p_MaxDelay p) * m < 2 ^ 63"
  shows "0 \<le> next_delay p d \<and> next_delay p d \<le> p_MaxDelay p"
proof -
  have "real_of_int d * m \<le> real_of_int (p_MaxDelay p) * m" using assms(2,4) by simp
  then have "real_of_int d * m < 2 ^ 63" using assms(5) by linarith
  moreover have pos: "0 \<le> real_of_int d * m" using assms(1,4) by simp
  ultimately show ?thesis
    using assms int_of_float_floor [OF pos] by (simp add: next_delay_def Let_def del: int_of_float.simps)
qed

lemma delays_bounds:
  assumes "0 \<le> d" and "d \<le> p_MaxDelay p" and "p_Multiplier p = Fin m" and "0 < m"
    and "real_of_int (p_MaxDelay p) * m < 2 ^ 63"
  shows "0 \<le> (next_delay p ^^ i) d \<and> (next_delay p ^^ i) d \<le> p_MaxDelay p"
  by (induction i) (use assms next_delay_bounds [OF _ _ assms(3-5)] in auto)

text \<open>C37: The waits are bounded: under a policy whose first delay does not exceed its maximum and
  whose growth stays in 64 bits, every wait between two attempts is between 0 and the maximum
  delay stretched by the jitter, whatever the operation and the random source do.\<close>

theorem Do_delays:
  assumes "0 < p_BaseDelay policy" and "p_BaseDelay policy \<le> p_MaxDelay policy"
    and "p_Multiplier policy = Fin m" and "0 < m" and "real_of_int (p_MaxDelay policy) * m < 2 ^ 63"
    and "2 * p_MaxDelay policy < 2 ^ 63" and "p_Jitter policy = Fin j"
    and "\<And>i. \<exists>u. re_rand v i = Fin u \<and> 0 \<le> u \<and> u < 1"
    and "ev \<in> set (fst (snd (Do v policy op s)))"
  shows "0 \<le> ev_NextDelay ev \<and>
    real_of_int (ev_NextDelay ev) \<le> (1 + clamp j) * real_of_int (p_MaxDelay policy)"
proof -
  let ?p = "with_defaults policy"
  have p: "p_BaseDelay ?p = p_BaseDelay policy" "p_MaxDelay ?p = p_MaxDelay policy"
    "p_Multiplier ?p = Fin m" "p_Jitter ?p = Fin j"
    using assms(1-4,7) by (simp_all add: with_defaults_def Let_def)
  obtain n where "retried v ?p op s 1 (p_BaseDelay ?p) (Do v policy op s) n"
    using Do_runs [of v policy op s] by blast
  then obtain i where ev: "ev = expected_event v ?p op s 1 (p_BaseDelay ?p) i"
    using assms(9) by (auto simp: retried_def)
  let ?d = "(next_delay ?p ^^ i) (p_BaseDelay policy)"
  have d: "0 \<le> ?d" "?d \<le> p_MaxDelay policy"
    using delays_bounds [of "p_BaseDelay policy" ?p m i] assms(1-5) p by auto
  obtain u where u: "re_rand v (1 + int i) = Fin u" "0 \<le> u" "u \<le> 1"
    using assms(8) [of "1 + int i"] by force
  have "(1 + clamp j) * real_of_int ?d \<le> (1 + clamp j) * real_of_int (p_MaxDelay policy)"
    using d by (intro mult_left_mono) (auto simp: clamp_def)
  moreover have "0 \<le> (1 + clamp j) * real_of_int (p_MaxDelay policy)"
    using d by (auto simp: clamp_def)
  moreover have "2 * ?d < 2 ^ 63" using d assms(6) by linarith
  ultimately show ?thesis
    using applyJitter_bounds [OF u(2,3) d(1), of j] u(1) p
    by (auto simp: ev expected_event_def Let_def)
qed

definition unavailable :: go_error where
  "unavailable = Status \<lparr>se_Provider = ''p'', se_StatusCode = 503, se_Body = ''''\<rparr>"

definition calm :: retry_env where
  "calm = \<lparr>re_ctxErr = \<lambda>_. None, re_cancel = \<lambda>_. None, re_rand = \<lambda>_. Fin (1 / 2)\<rparr>"

lemma unavailable_retryable: "IsRetryable (Some unavailable)"
  by (simp add: IsRetryable_def unavailable_def StatusError_Unwrap_def StatusError_Status_def statusRetryable_def)

text \<open>The curve the source documents: 5s, 10s, 20s, 40s, 80s, 160s, then 5 minutes.\<close>

lemma default_curve:
  "map ev_NextDelay (fst (snd (Do calm DefaultPolicy (\<lambda>s. (s, Some unavailable)) ()))) =
   map (\<lambda>x. x * Second) [5, 10, 20, 40, 80, 160, 300, 300, 300, 0]"
  by (simp add: Do_def DefaultPolicy_def with_defaults_def do_loop.simps unavailable_retryable calm_def
      applyJitter_def next_delay_def)

theorem Do_delays_witness:
  "real_of_int (ev_NextDelay (fst (snd (Do calm DefaultPolicy (\<lambda>s. (s, Some unavailable)) ())) ! 6))
     \<le> (1 + clamp (1 / 5)) * real_of_int (300 * Second)"
proof -
  let ?evs = "fst (snd (Do calm DefaultPolicy (\<lambda>s. (s, Some unavailable)) ()))"
  have "length ?evs = 10" using arg_cong [OF default_curve, of length] by simp
  then have "?evs ! 6 \<in> set ?evs" by (intro nth_mem) simp
  moreover have "\<exists>u. re_rand calm i = Fin u \<and> 0 \<le> u \<and> u < 1" for i
    by (intro exI [of _ "1 / 2"]) (simp add: calm_def)
  ultimately show ?thesis
    using Do_delays [of DefaultPolicy 2 "1 / 5" calm "?evs ! 6" "\<lambda>s. (s, Some unavailable)" "()"]
    by (simp add: DefaultPolicy_def)
qed

section \<open>The retrying completer\<close>

text \<open>An attempt of the inner stream is the list of pairs it produces; a pair with an error
  carries no chunk. The consumer accepts \<open>takes\<close> pairs and answers false to the next one.
  \<open>sw_yielded\<close> is what was handed to it.\<close>

type_synonym 'c stream_item = "go_error + 'c"

record 'c stream_world =
  sw_attempt :: nat
  sw_yielded :: "'c stream_item list"

definition NewCompleter_policy :: "Policy \<Rightarrow> Policy" where
  "NewCompleter_policy policy = (if p_MaxAttempts policy = 0 then DefaultPolicy else policy)"

text \<open>\<open>hand_over takes xs ys\<close> hands the pairs \<open>xs\<close> over until the consumer answers
  false.\<close>

fun hand_over :: "nat \<Rightarrow> 'c stream_item list \<Rightarrow> 'c stream_item list \<Rightarrow> 'c stream_item list" where
  "hand_over takes [] ys = ys"
| "hand_over takes (x # xs) ys =
     (let ys' = ys @ [x] in if length ys' \<le> takes then hand_over takes xs ys' else ys')"

definition stream_op ::
  "(nat \<Rightarrow> 'c stream_item list) \<Rightarrow> nat \<Rightarrow> 'c stream_world \<Rightarrow> 'c stream_world \<times> go_error option" where
  "stream_op inner takes w =
     (let w' = w\<lparr>sw_attempt := sw_attempt w + 1\<rparr> in
      case inner (sw_attempt w) of
        [] \<Rightarrow> (w', None)
      | Inl err # _ \<Rightarrow> (w', Some err)
      | Inr chunk # rest \<Rightarrow> (w'\<lparr>sw_yielded := hand_over takes (Inr chunk # rest) (sw_yielded w)\<rparr>, None))"

definition Completer_Stream ::
  "retry_env \<Rightarrow> Policy \<Rightarrow> (nat \<Rightarrow> 'c stream_item list) \<Rightarrow> nat \<Rightarrow> 'c stream_world" where
  "Completer_Stream v policy inner takes =
     (case Do v policy (stream_op inner takes) \<lparr>sw_attempt = 0, sw_yielded = []\<rparr> of
        (w, evs, None) \<Rightarrow> w
      | (w, evs, Some err) \<Rightarrow> w\<lparr>sw_yielded := sw_yielded w @ [Inl err]\<rparr>)"

text \<open>\<^verbatim>\<open>Complete\<close> keeps the response of the last run, whatever its error.\<close>

definition complete_op ::
  "(nat \<Rightarrow> 'r \<times> go_error option) \<Rightarrow> nat \<times> 'r \<Rightarrow> (nat \<times> 'r) \<times> go_error option" where
  "complete_op inner w = (case inner (fst w) of (resp, err) \<Rightarrow> ((fst w + 1, resp), err))"

definition Completer_Complete ::
  "retry_env \<Rightarrow> Policy \<Rightarrow> (nat \<Rightarrow> 'r \<times> go_error option) \<Rightarrow> 'r \<Rightarrow> 'r \<times> go_error option" where
  "Completer_Complete v policy inner nil =
     (case Do v policy (complete_op inner) (0, nil) of ((n, resp), evs, err) \<Rightarrow> (resp, err))"

lemma hand_over_take:
  "length ys \<le> takes \<Longrightarrow> hand_over takes xs ys = ys @ take (takes + 1 - length ys) xs"
  by (induction takes xs ys rule: hand_over.induct) (auto simp: Let_def take_Cons' Suc_diff_le)

lemma stream_op_failed:
  assumes "\<forall>i<n. IsRetryable (err_at (stream_op inner takes) w i)"
  shows "state_after (stream_op inner takes) w n = w\<lparr>sw_attempt := sw_attempt w + n\<rparr>"
  using assms
proof (induction n arbitrary: w)
  case (Suc n)
  let ?op = "stream_op inner takes"
  have "IsRetryable (snd (?op w))" using Suc.prems by fastforce
  then have op: "fst (?op w) = w\<lparr>sw_attempt := sw_attempt w + 1\<rparr>"
    by (auto simp: stream_op_def Let_def split: list.splits sum.splits)
  have "\<forall>i<n. IsRetryable (err_at ?op (fst (?op w)) i)"
    using Suc.prems by (auto simp: err_at_Suc [symmetric])
  from Suc.IH [OF this] show ?case by (simp add: state_after_Suc op)
qed simp

lemma stream_op_err: "snd (stream_op inner takes w) =
   (case inner (sw_attempt w) of Inl err # _ \<Rightarrow> Some err | _ \<Rightarrow> None)"
  by (simp add: stream_op_def Let_def split: list.split sum.split)

definition failed_start :: "(nat \<Rightarrow> 'c stream_item list) \<Rightarrow> nat \<Rightarrow> bool" where
  "failed_start inner i = (case inner i of Inl err # _ \<Rightarrow> IsRetryable (Some err) | _ \<Rightarrow> False)"

lemma failed_start_iff: "failed_start inner (sw_attempt w) \<longleftrightarrow> IsRetryable (snd (stream_op inner takes w))"
  by (simp add: failed_start_def stream_op_err split: list.split sum.split)

lemma stream_op_starts:
  assumes "\<forall>i<n. IsRetryable (err_at (stream_op inner takes) w i)" and "i < n"
  shows "failed_start inner (sw_attempt w + i)"
proof -
  have "state_after (stream_op inner takes) w i = w\<lparr>sw_attempt := sw_attempt w + i\<rparr>"
    using assms by (intro stream_op_failed) auto
  moreover have "IsRetryable (err_at (stream_op inner takes) w i)" using assms by blast
  ultimately show ?thesis
    using failed_start_iff [of inner "w\<lparr>sw_attempt := sw_attempt w + i\<rparr>" takes]
    by (simp add: err_at_def)
qed

lemma stream_op_last:
  assumes "stream_op inner takes w = (w', r)" and "sw_yielded w = []"
  shows "sw_attempt w' = sw_attempt w + 1 \<and>
    (case inner (sw_attempt w) of
       Inl err # _ \<Rightarrow> r = Some err \<and> sw_yielded w' = []
     | items \<Rightarrow> r = None \<and> sw_yielded w' = take (takes + 1) items)"
  using assms
  by (auto simp: stream_op_def Let_def hand_over_take split: list.splits sum.splits)

text \<open>C17: A retried stream never replays. Either the context was done before the first attempt and
  its error is all the consumer gets, or attempts were made, all but the last of which failed
  with a transient error before their first chunk. If the last one failed at its start too, the
  consumer gets exactly one item, an error; otherwise it is handed the output of that attempt
  alone, in order and from its beginning, up to where it stops the iteration.\<close>

theorem Stream_delivers_once:
  "let w = Completer_Stream v policy inner takes; n = sw_attempt w in
   (n = 0 \<and> (\<exists>err. re_ctxErr v 1 = Some err \<and> sw_yielded w = [Inl err])) \<or>
   (0 < n \<and> int n \<le> max 1 (p_MaxAttempts policy) \<and> list_all (failed_start inner) [0..<n - 1] \<and>
    (case inner (n - 1) of
       Inl err # _ \<Rightarrow> (\<exists>err'. sw_yielded w = [Inl err'])
     | items \<Rightarrow> sw_yielded w = take (takes + 1) items))"
proof -
  let ?op = "stream_op inner takes" and ?w0 = "\<lparr>sw_attempt = 0, sw_yielded = []\<rparr>"
  obtain n where n: "int n \<le> max 1 (p_MaxAttempts policy)"
    and run: "retried v (with_defaults policy) ?op ?w0 1 (p_BaseDelay (with_defaults policy)) (Do v policy ?op ?w0) n"
    using Do_runs [of v policy ?op ?w0] by blast
  obtain w evs r where out: "Do v policy ?op ?w0 = (w, evs, r)" by (cases "Do v policy ?op ?w0")
  have early: "\<forall>i<n - 1. IsRetryable (err_at ?op ?w0 i)" and w: "w = state_after ?op ?w0 n"
    using run out by (auto simp: retried_def)
  have starts: "list_all (failed_start inner) [0..<n - 1]"
    using stream_op_starts [OF early] by (simp add: list_all_iff)
  have "stops v (with_defaults policy) ?op ?w0 1 n r" using run out by (simp add: retried_def)
  then consider
      (last) "0 < n" "r = err_at ?op ?w0 (n - 1)"
    | (ctx) c where "r = Some c" "\<forall>i<n. IsRetryable (err_at ?op ?w0 i)" "n = 0 \<Longrightarrow> re_ctxErr v 1 = Some c"
    unfolding stops_def by (cases n) auto
  then show ?thesis
  proof cases
    case last
    let ?w1 = "\<lparr>sw_attempt = n - 1, sw_yielded = []\<rparr> :: 'a stream_world"
    have "state_after ?op ?w0 (n - 1) = ?w1" using stream_op_failed [OF early] by simp
    then have "?op ?w1 = (w, r)"
      using last w by (cases n) (simp_all add: err_at_def state_after_def prod_eq_iff)
    from stream_op_last [OF this] have *: "sw_attempt w = n"
      "case inner (n - 1) of Inl err # _ \<Rightarrow> r = Some err \<and> sw_yielded w = []
       | items \<Rightarrow> r = None \<and> sw_yielded w = take (takes + 1) items"
      using last(1) by simp_all
    show ?thesis
      using * starts n last(1) by (auto simp: Completer_Stream_def out Let_def split: list.splits sum.splits)
  next
    case ctx
    then have w: "w = \<lparr>sw_attempt = n, sw_yielded = []\<rparr>"
      using stream_op_failed [OF ctx(2)] w by simp
    have "0 < n \<Longrightarrow> failed_start inner (n - 1)" using stream_op_starts [OF ctx(2), of "n - 1"] by simp
    then show ?thesis
      using ctx starts n
      by (cases "n = 0") (auto simp: Completer_Stream_def out Let_def w failed_start_def split: list.splits sum.splits)
  qed
qed

text \<open>A context cancelled while a request is in flight is classified as transient: the HTTP
  client formats the transport's error with \<^verbatim>\<open>%v\<close>, so the chain no longer holds the
  context's sentinel, and the classifier, which documents cancellation as not retryable, falls
  through to its default for an unreachable provider.\<close>

lemma cancelled_request_retryable:
  "case Client_Do (Unreached (''Post http://p: '' @ sentinel_text Canceled)) of
     Inl err \<Rightarrow> \<not> errors_Is err Canceled \<and> IsRetryable (Some err)
   | Inr _ \<Rightarrow> False"
  by (simp add: Client_Do_def IsRetryable_def containsAny_def Contains_def sublist_code)

end
