(* ===== verification/Genai_Codec.thy ===== *)
theory Genai_Codec
  imports Proto_Types
begin

text \<open>
  \<^verbatim>\<open>core/genaicodec/genaicodec.go\<close>: the translation between the content model of the
  genai SDK and the corpus's content blocks. A \<^verbatim>\<open>map[string]any\<close> is a JSON object;
  \<^verbatim>\<open>json.Marshal\<close> and \<^verbatim>\<open>json.Unmarshal\<close> are the fields of
  \<open>json_codec\<close>, an argument of the operations. Decoding into a map fails,
  with what was decoded before a value of the wrong kind left in the map, gives the nil map (the
  text is \<^verbatim>\<open>null\<close>), or gives an object.
\<close>

section \<open>Types\<close>

datatype json =
  JNull | JBool bool | JNumber float64 | JString string | JArray "json list" | JObject "(string, json) fmap"

type_synonym json_object = "(string, json) fmap"

datatype unmarshalled = Malformed "json_object option" | NilMap | Object json_object

record json_codec =
  jc_Marshal :: "json_object \<Rightarrow> string option"
  jc_Unmarshal :: "string \<Rightarrow> unmarshalled"

record FunctionCall =
  fc_ID :: string
  fc_Name :: string
  fc_Args :: "json_object option"

record FunctionResponse =
  fr_ID :: string
  fr_Response :: "json_object option"

record Part =
  pt_Text :: string
  pt_Thought :: bool
  pt_ThoughtSignature :: string
  pt_FunctionCall :: "FunctionCall option"
  pt_FunctionResponse :: "FunctionResponse option"

record Content =
  ct_Role :: string
  ct_Parts :: "Part list"

definition empty_part :: Part where
  "empty_part = \<lparr>pt_Text = '''', pt_Thought = False, pt_ThoughtSignature = '''', pt_FunctionCall = None,
                 pt_FunctionResponse = None\<rparr>"

section \<open>Translation\<close>

definition RoleToProto :: "string \<Rightarrow> Role" where
  "RoleToProto role =
     (if role = ''user'' then ROLE_USER
      else if role = ''model'' then ROLE_ASSISTANT
      else if role = ''system'' then ROLE_SYSTEM
      else ROLE_USER)"

fun RoleToGenai :: "Role \<Rightarrow> string" where
  "RoleToGenai ROLE_USER = ''user''"
| "RoleToGenai ROLE_ASSISTANT = ''model''"
| "RoleToGenai ROLE_SYSTEM = ''user''"
| "RoleToGenai _ = ''user''"

definition part_blocks :: "json_codec \<Rightarrow> Part \<Rightarrow> ContentBlock list" where
  "part_blocks jc p =
     (if pt_Thought p \<and> (pt_Text p \<noteq> [] \<or> 0 < length (pt_ThoughtSignature p))
      then [BlockThinking (pt_Text p) (pt_ThoughtSignature p)]
      else if pt_Text p \<noteq> [] then [BlockText (pt_Text p)] else []) @
     (case pt_FunctionCall p of
        None \<Rightarrow> []
      | Some fc \<Rightarrow>
          let argsJSON = (case fc_Args fc of
                None \<Rightarrow> ''{}''
              | Some args \<Rightarrow> (case jc_Marshal jc args of None \<Rightarrow> ''{}'' | Some b \<Rightarrow> b))
          in [BlockToolCall \<lparr>tc_Id = fc_ID fc, tc_Name = fc_Name fc, tc_Arguments = argsJSON,
                             tc_Signature = pt_ThoughtSignature p\<rparr>]) @
     (case pt_FunctionResponse p of
        None \<Rightarrow> []
      | Some fr \<Rightarrow>
          let respText = (case fr_Response fr of
                None \<Rightarrow> ''''
              | Some resp \<Rightarrow> (case jc_Marshal jc resp of None \<Rightarrow> '''' | Some b \<Rightarrow> b))
          in [BlockToolResult \<lparr>tr_ToolCallId = fr_ID fr, tr_Content = respText, tr_IsError = False\<rparr>])"

definition ContentToProto :: "json_codec \<Rightarrow> Content \<Rightarrow> LLMMessage" where
  "ContentToProto jc c =
     \<lparr>l_Role = RoleToProto (ct_Role c), l_Content = concat (map (part_blocks jc) (ct_Parts c))\<rparr>"

definition result_map :: "string \<Rightarrow> json_object" where
  "result_map raw = fmupd ''result'' (JString raw) fmempty"

fun block_parts :: "json_codec \<Rightarrow> ContentBlock \<Rightarrow> Part list" where
  "block_parts jc (BlockText t) = [empty_part\<lparr>pt_Text := t\<rparr>]"
| "block_parts jc (BlockThinking t s) =
     [empty_part\<lparr>pt_Text := t, pt_Thought := True, pt_ThoughtSignature := s\<rparr>]"
| "block_parts jc (BlockToolCall tc) =
     (let args = (if tc_Arguments tc \<noteq> [] then
                    (case jc_Unmarshal jc (tc_Arguments tc) of Object m \<Rightarrow> Some m | NilMap \<Rightarrow> None | Malformed left \<Rightarrow> left)
                  else None)
      in [empty_part\<lparr>pt_FunctionCall := Some \<lparr>fc_ID = tc_Id tc, fc_Name = tc_Name tc, fc_Args = args\<rparr>,
                     pt_ThoughtSignature := tc_Signature tc\<rparr>])"
| "block_parts jc (BlockToolResult tr) =
     (let resp = (if tr_Content tr \<noteq> [] then
                    (case jc_Unmarshal jc (tr_Content tr) of Object m \<Rightarrow> m | _ \<Rightarrow> result_map (tr_Content tr))
                  else result_map '''')
      in [empty_part\<lparr>pt_FunctionResponse := Some \<lparr>fr_ID = tr_ToolCallId tr, fr_Response = Some resp\<rparr>\<rparr>])"
| "block_parts jc _ = []"

definition ProtoToContent :: "json_codec \<Rightarrow> LLMMessage \<Rightarrow> Content" where
  "ProtoToContent jc msg =
     \<lparr>ct_Role = RoleToGenai (l_Role msg), ct_Parts = concat (map (block_parts jc) (l_Content msg))\<rparr>"

definition ExtractThinking :: "Content option \<Rightarrow> (string \<times> string) list" where
  "ExtractThinking c =
     (case c of
        None \<Rightarrow> []
      | Some c \<Rightarrow> map (\<lambda>p. (pt_Text p, '''')) (filter (\<lambda>p. pt_Thought p \<and> pt_Text p \<noteq> []) (ct_Parts c)))"

section \<open>Round trip\<close>

text \<open>A block the content model can carry: text and thinking that say something, tool arguments
  and results whose JSON is in the form the encoder writes.\<close>

definition canonical_json :: "json_codec \<Rightarrow> string \<Rightarrow> bool" where
  "canonical_json jc s = (s \<noteq> [] \<and> (case jc_Unmarshal jc s of Object m \<Rightarrow> jc_Marshal jc m = Some s | _ \<Rightarrow> False))"

fun carried :: "json_codec \<Rightarrow> ContentBlock \<Rightarrow> bool" where
  "carried jc (BlockText t) = (t \<noteq> [])"
| "carried jc (BlockThinking t s) = (t \<noteq> [] \<or> s \<noteq> [])"
| "carried jc (BlockToolCall tc) = canonical_json jc (tc_Arguments tc)"
| "carried jc (BlockToolResult tr) = (canonical_json jc (tr_Content tr) \<and> \<not> tr_IsError tr)"
| "carried jc _ = False"

lemma block_round_trip: "carried jc b \<Longrightarrow> concat (map (part_blocks jc) (block_parts jc b)) = [b]"
  by (cases b) (auto simp: part_blocks_def empty_part_def canonical_json_def Let_def split: unmarshalled.splits)

lemma blocks_round_trip:
  "list_all (carried jc) bs \<Longrightarrow> concat (map (part_blocks jc) (concat (map (block_parts jc) bs))) = bs"
  by (induction bs) (simp_all add: block_round_trip)

text \<open>C38: A message survives the trip through the SDK's content model: encoding the decoded message
  gives it back, blocks and their order included, for a user or assistant message whose blocks
  the model can carry.\<close>

theorem ContentToProto_ProtoToContent:
  assumes "l_Role msg = ROLE_USER \<or> l_Role msg = ROLE_ASSISTANT"
    and "list_all (carried jc) (l_Content msg)"
  shows "ContentToProto jc (ProtoToContent jc msg) = msg"
  using assms by (auto simp: ContentToProto_def ProtoToContent_def blocks_round_trip RoleToProto_def)

definition braces_codec :: json_codec where
  "braces_codec =
     \<lparr>jc_Marshal = \<lambda>m. if m = fmempty then Some ''{}'' else None,
      jc_Unmarshal = \<lambda>s. if s = ''{}'' then Object fmempty else Malformed None\<rparr>"

definition example_reply :: LLMMessage where
  "example_reply =
     \<lparr>l_Role = ROLE_ASSISTANT,
      l_Content = [BlockThinking ''hm'' ''sig'', BlockText ''ok'',
        BlockToolCall \<lparr>tc_Id = ''c1'', tc_Name = ''ls'', tc_Arguments = ''{}'', tc_Signature = ''s2''\<rparr>]\<rparr>"

theorem ContentToProto_ProtoToContent_witness:
  "ContentToProto braces_codec (ProtoToContent braces_codec example_reply) = example_reply"
  by (rule ContentToProto_ProtoToContent) (simp_all add: example_reply_def braces_codec_def canonical_json_def)

end
