(* ===== verification/Model_Call.thy ===== *)
theory Model_Call
  imports Assembly Retry Genai_Codec
begin

text \<open>
  \<^verbatim>\<open>adkbridge/rrcllm.go\<close>: one model call of the agent. The in-flight window is loaded,
  the budget converted with the learned token scale, the wire assembled and sent; a
  context overflow drops the weakest selected message and assembles again. The completer and the
  message store are interfaces, records of functions here; what the call lets out, in order, is
  the list \<open>cw_out\<close>: responses and errors handed to the consumer, callbacks, requests sent
  to the provider, the log line of an assembly. The consumer accepts \<open>ce_takes\<close> items and
  answers false from then on.
\<close>

section \<open>Types\<close>

record Usage =
  us_PromptTokens :: int
  us_CompletionTokens :: int

datatype chunk_delta =
    DeltaUnset
  | DeltaText string
  | DeltaThinking string string
  | DeltaToolCall ToolCallContent
  | DeltaToolResult ToolResultContent

record StreamChunk =
  sk_Delta :: chunk_delta
  sk_Done :: bool
  sk_Usage :: "Usage option"
  sk_Error :: "string option"

record ToolDeclaration =
  td_Name :: string
  td_Description :: string
  td_ParametersJson :: string

record CompletionRequest =
  cq_Messages :: "LLMMessage list"
  cq_Model :: string
  cq_MaxTokens :: "int option"
  cq_Temperature :: "float64 option"
  cq_TopP :: "float64 option"
  cq_Stream :: bool
  cq_Tools :: "ToolDeclaration list"
  cq_ContextWindowTokens :: "int option"

record CompletionResponse =
  cr_Message :: LLMMessage
  cr_Usage :: "Usage option"

record Completer =
  cp_Complete :: "nat \<Rightarrow> CompletionRequest \<Rightarrow> go_error + CompletionResponse"
  cp_Stream :: "nat \<Rightarrow> CompletionRequest \<Rightarrow> StreamChunk stream_item list"

text \<open>The agent framework's request and response. A schema is its JSON value.\<close>

record FunctionDeclaration =
  fd_Name :: string
  fd_Description :: string
  fd_ParametersJsonSchema :: "json option"
  fd_Parameters :: "json option"

record GenerateConfig =
  gc_SystemInstruction :: "Content option"
  gc_Tools :: "FunctionDeclaration list list"
  gc_Temperature :: "float64 option"
  gc_TopP :: "float64 option"
  gc_MaxOutputTokens :: int

record LLMRequest =
  lq_Model :: string
  lq_Contents :: "Content list"
  lq_Config :: "GenerateConfig option"

record LLMResponse =
  lr_Content :: "Content option"
  lr_Partial :: bool
  lr_TurnComplete :: bool
  lr_ErrorMessage :: string

record BridgeStore = CorpusStore +
  bs_RecentMessages :: "string \<Rightarrow> int \<Rightarrow> string + Message list"
  bs_TurnMessages :: "string \<Rightarrow> string \<Rightarrow> string + Message list"
  bs_PrecedingTurnID :: "string \<Rightarrow> string \<Rightarrow> string + string"

datatype call_error =
    LoadRecent string
  | LoadTurn string
  | LoadPrecedingID string
  | LoadPreceding string
  | NoSemanticContext nat
  | AssembleFailed assemble_error
  | SendFailed go_error
  | OverflowAfterShedding go_error

datatype call_output =
    Yield LLMResponse
  | YieldErr call_error
  | OutStream string string bool
  | OutEdge Edge
  | OutSelection SelectionResult
  | OutAssemble AssembleTelemetry
  | OutUsage int Usage
  | OutLog AssembleTelemetry float64 nat
  | Sent CompletionRequest
  | Panicked string

text \<open>The bridge: its fields, and whether each callback is set. \<open>rl_Scales\<close> is the model
  key of the bound scale handle.\<close>

record RRCLLM =
  rl_db :: BridgeStore
  rl_threadID :: string
  rl_Scope :: SelectionScope
  rl_CurrentTurnID :: string
  rl_OnStream :: bool
  rl_OnSelection :: bool
  rl_OnEdge :: bool
  rl_OnAssemble :: bool
  rl_OnUsage :: bool
  rl_Scales :: "string option"
  rl_CountText :: "(LLMMessage \<Rightarrow> string) option"

text \<open>What the call runs against: the completer, the JSON library, the consumer, the orders in
  which maps are ranged, the clock of the \<open>n\<close>-th assembly and of the provenance record,
  and the fate of the scale's save.\<close>

record call_env =
  ce_completer :: Completer
  ce_json :: json_codec
  ce_MarshalAny :: "json \<Rightarrow> string option"
  ce_MarshalTool :: "string \<Rightarrow> string \<Rightarrow> string \<Rightarrow> string option"
  ce_takes :: nat
  ce_rng :: range_order
  ce_below :: "string fset \<Rightarrow> string list"
  ce_fetched :: "string fset \<Rightarrow> string list"
  ce_now :: "nat \<Rightarrow> nat \<Rightarrow> int"
  ce_provNow :: "nat \<Rightarrow> int"
  ce_fault :: save_fault

record call_world =
  cw_engine :: Engine
  cw_scales :: Store
  cw_out :: "call_output list"

section \<open>Requests\<close>

definition mergeByPosition :: "Message list \<Rightarrow> Message list \<Rightarrow> Message list" where
  "mergeByPosition a b = sort_stable (\<lambda>x y. m_Position x < m_Position y) (first_seen {} (a @ b))"

definition systemMessage :: "json_codec \<Rightarrow> LLMRequest \<Rightarrow> LLMMessage option" where
  "systemMessage jc req =
     (case lq_Config req of
        None \<Rightarrow> None
      | Some cfg \<Rightarrow>
          (case gc_SystemInstruction cfg of
             None \<Rightarrow> None
           | Some c \<Rightarrow> Some ((ContentToProto jc c)\<lparr>l_Role := ROLE_SYSTEM\<rparr>)))"

definition empty_schema :: string where
  "empty_schema =
     [CHR ''{'', CHR 0x22] @ ''type'' @ [CHR 0x22, CHR '':'', CHR 0x22] @ ''object'' @
     [CHR 0x22, CHR '','', CHR 0x22] @ ''properties'' @ [CHR 0x22] @ '':{}}''"

definition tool_declaration :: "(json \<Rightarrow> string option) \<Rightarrow> FunctionDeclaration \<Rightarrow> ToolDeclaration" where
  "tool_declaration marshal d =
     (let parameters =
        (case fd_ParametersJsonSchema d of
           Some s \<Rightarrow> (case marshal s of Some data \<Rightarrow> data | None \<Rightarrow> empty_schema)
         | None \<Rightarrow>
             (case fd_Parameters d of
                Some s \<Rightarrow> (case marshal s of Some data \<Rightarrow> data | None \<Rightarrow> empty_schema)
              | None \<Rightarrow> empty_schema))
      in \<lparr>td_Name = fd_Name d, td_Description = fd_Description d, td_ParametersJson = parameters\<rparr>)"

definition toolDeclarations :: "(json \<Rightarrow> string option) \<Rightarrow> LLMRequest \<Rightarrow> ToolDeclaration list" where
  "toolDeclarations marshal req =
     (case lq_Config req of
        None \<Rightarrow> []
      | Some cfg \<Rightarrow> map (tool_declaration marshal) (concat (gc_Tools cfg)))"

definition completionRequest ::
  "LLMRequest \<Rightarrow> bool \<Rightarrow> LLMMessage list \<Rightarrow> ToolDeclaration list \<Rightarrow> int \<Rightarrow> CompletionRequest" where
  "completionRequest req stream messages tools contextWindow =
     (let out = \<lparr>cq_Messages = messages, cq_Model = lq_Model req, cq_MaxTokens = None, cq_Temperature = None,
                 cq_TopP = None, cq_Stream = stream, cq_Tools = tools,
                 cq_ContextWindowTokens = (if 0 < contextWindow then Some (wrap32 contextWindow) else None)\<rparr>
      in case lq_Config req of
           None \<Rightarrow> out
         | Some cfg \<Rightarrow>
             out\<lparr>cq_Temperature := gc_Temperature cfg, cq_TopP := gc_TopP cfg,
                 cq_MaxTokens := (if 0 < gc_MaxOutputTokens cfg then Some (gc_MaxOutputTokens cfg) else None)\<rparr>)"

text \<open>\<open>None\<close> is the panic of \<open>Estimate\<close> without an estimator.\<close>

fun estimateToolSchemaTokens ::
  "(string \<Rightarrow> string \<Rightarrow> string \<Rightarrow> string option) \<Rightarrow> ToolDeclaration list \<Rightarrow> Config \<Rightarrow> int \<Rightarrow> int option" where
  "estimateToolSchemaTokens marshal [] chunkCfg acc = Some acc"
| "estimateToolSchemaTokens marshal (t # ts) chunkCfg acc =
     (let parameters = (if td_ParametersJson t = [] then ''{}'' else td_ParametersJson t) in
      case marshal (td_Name t) (td_Description t) parameters of
        None \<Rightarrow> estimateToolSchemaTokens marshal ts chunkCfg acc
      | Some data \<Rightarrow>
          (case Estimate chunkCfg data of
             None \<Rightarrow> None
           | Some n \<Rightarrow> estimateToolSchemaTokens marshal ts chunkCfg (acc + n)))"

definition parseToolArgs :: "json_codec \<Rightarrow> string \<Rightarrow> json_object option" where
  "parseToolArgs jc raw =
     (case jc_Unmarshal jc raw of
        Malformed _ \<Rightarrow> Some (fmupd ''raw'' (JString raw) fmempty)
      | NilMap \<Rightarrow> None
      | Object m \<Rightarrow> Some m)"

definition lowest_survivor_step ::
  "string set \<Rightarrow> string \<times> float64 \<Rightarrow> SelectedMessage \<Rightarrow> string \<times> float64" where
  "lowest_survivor_step excluded pl selected =
     (if sm_MessageId selected \<notin> excluded \<and> sm_EffectiveScore selected < snd pl
      then (sm_MessageId selected, sm_EffectiveScore selected) else pl)"

definition lowestSurvivingScore :: "SelectionResult \<Rightarrow> string list \<Rightarrow> string" where
  "lowestSurvivingScore result excludedIDs =
     fst (foldl (lowest_survivor_step (set excludedIDs)) ('''', PInf) (sr_Selected result))"

section \<open>Sending\<close>

fun is_yield :: "call_output \<Rightarrow> bool" where
  "is_yield (Yield _) = True"
| "is_yield (YieldErr _) = True"
| "is_yield _ = False"

definition yields :: "call_output list \<Rightarrow> nat" where
  "yields out = length (filter is_yield out)"

text \<open>One pair handed to the consumer, and its answer.\<close>

definition yield :: "nat \<Rightarrow> call_output \<Rightarrow> call_output list \<Rightarrow> call_output list \<times> bool" where
  "yield takes x out = (let out' = out @ [x] in (out', yields out' \<le> takes))"

definition model_content :: "Part list \<Rightarrow> Content option" where
  "model_content parts = Some \<lparr>ct_Role = ''model'', ct_Parts = parts\<rparr>"

definition blank_response :: LLMResponse where
  "blank_response = \<lparr>lr_Content = None, lr_Partial = False, lr_TurnComplete = False, lr_ErrorMessage = ''''\<rparr>"

definition finishEmpty :: "RRCLLM \<Rightarrow> nat \<Rightarrow> call_output list \<Rightarrow> call_output list" where
  "finishEmpty r takes out =
     fst (yield takes (Yield (blank_response\<lparr>lr_TurnComplete := True, lr_Content := model_content [empty_part]\<rparr>)) out) @
     (if rl_OnStream r then [OutStream '''' '''' True] else [])"

text \<open>A chunk's delta: the content it carries, the stream callback it fires, and the tool calls
  pending after it.\<close>

fun chunk_content ::
  "RRCLLM \<Rightarrow> json_codec \<Rightarrow> chunk_delta \<Rightarrow> Part list \<Rightarrow> Content option \<times> call_output list \<times> Part list" where
  "chunk_content r jc (DeltaText t) pending =
     (model_content [empty_part\<lparr>pt_Text := t\<rparr>], (if rl_OnStream r then [OutStream t '''' False] else []), pending)"
| "chunk_content r jc (DeltaThinking t s) pending =
     (model_content [empty_part\<lparr>pt_Text := t, pt_Thought := True, pt_ThoughtSignature := s\<rparr>],
      (if rl_OnStream r \<and> t \<noteq> [] then [OutStream '''' t False] else []), pending)"
| "chunk_content r jc (DeltaToolCall c) pending =
     (let part = empty_part\<lparr>pt_FunctionCall := Some \<lparr>fc_ID = tc_Id c, fc_Name = tc_Name c,
                     fc_Args = parseToolArgs jc (tc_Arguments c)\<rparr>, pt_ThoughtSignature := tc_Signature c\<rparr>
      in (model_content [part], [], pending @ [part]))"
| "chunk_content r jc _ pending = (None, [], pending)"

definition done_response :: "StreamChunk \<Rightarrow> Content option \<Rightarrow> Part list \<Rightarrow> LLMResponse" where
  "done_response c content pending =
     \<lparr>lr_Content = (if 0 < length pending then model_content pending
                    else if content = None then model_content [empty_part] else content),
      lr_Partial = False, lr_TurnComplete = True,
      lr_ErrorMessage = (case sk_Error c of None \<Rightarrow> '''' | Some e \<Rightarrow> e)\<rparr>"

fun stream_loop ::
  "RRCLLM \<Rightarrow> json_codec \<Rightarrow> nat \<Rightarrow> StreamChunk stream_item list \<Rightarrow> Part list \<Rightarrow> call_output list \<Rightarrow>
   call_output list \<times> Usage option" where
  "stream_loop r jc takes [] pending out = (finishEmpty r takes out, None)"
| "stream_loop r jc takes (Inl err # rest) pending out =
     (fst (yield takes (Yield (blank_response\<lparr>lr_TurnComplete := True, lr_ErrorMessage := Error err\<rparr>)) out), None)"
| "stream_loop r jc takes (Inr c # rest) pending out =
     (case chunk_content r jc (sk_Delta c) pending of
        (content, fired, pending') \<Rightarrow>
          if sk_Done c then
            (fst (yield takes (Yield (done_response c content pending'))
               (out @ fired @ (if rl_OnStream r then [OutStream '''' '''' True] else []))),
             if sk_Error c \<noteq> None then None else sk_Usage c)
          else
            (case yield takes (Yield (blank_response\<lparr>lr_Partial := True, lr_Content := content\<rparr>)) (out @ fired) of
               (out', False) \<Rightarrow> (out', None)
             | (out', True) \<Rightarrow> stream_loop r jc takes rest pending' out'))"

definition tryStream ::
  "call_env \<Rightarrow> RRCLLM \<Rightarrow> nat \<Rightarrow> CompletionRequest \<Rightarrow> call_output list \<Rightarrow>
   call_output list \<times> Usage option \<times> go_error option" where
  "tryStream v r n req out =
     (let out' = out @ [Sent req] in
      case cp_Stream (ce_completer v) n req of
        [] \<Rightarrow> (finishEmpty r (ce_takes v) out', None, None)
      | Inl err # _ \<Rightarrow> (out', None, Some err)
      | Inr c # rest \<Rightarrow>
          (case stream_loop r (ce_json v) (ce_takes v) (Inr c # rest) [] out' of
             (out'', usage) \<Rightarrow> (out'', usage, None)))"

definition tryComplete ::
  "call_env \<Rightarrow> RRCLLM \<Rightarrow> nat \<Rightarrow> CompletionRequest \<Rightarrow> call_output list \<Rightarrow>
   call_output list \<times> Usage option \<times> go_error option" where
  "tryComplete v r n req out =
     (let out' = out @ [Sent req] in
      case cp_Complete (ce_completer v) n req of
        Inl err \<Rightarrow> (out', None, Some err)
      | Inr resp \<Rightarrow>
          (fst (yield (ce_takes v) (Yield (blank_response\<lparr>lr_Content := Some (ProtoToContent (ce_json v) (cr_Message resp)),
                                          lr_TurnComplete := True\<rparr>)) out'),
           cr_Usage resp, None))"

definition try_send ::
  "call_env \<Rightarrow> RRCLLM \<Rightarrow> bool \<Rightarrow> nat \<Rightarrow> CompletionRequest \<Rightarrow> call_output list \<Rightarrow>
   call_output list \<times> Usage option \<times> go_error option" where
  "try_send v r stream n req out = (if stream then tryStream v r n req out else tryComplete v r n req out)"

definition observeUsage :: "call_env \<Rightarrow> RRCLLM \<Rightarrow> int \<Rightarrow> int \<Rightarrow> Usage option \<Rightarrow> call_world \<Rightarrow> call_world" where
  "observeUsage v r predicted budget usage w =
     (case usage of
        None \<Rightarrow> w
      | Some u \<Rightarrow>
          let w' = (if rl_OnUsage r then w\<lparr>cw_out := cw_out w @ [OutUsage predicted u]\<rparr> else w) in
          (case rl_Scales r of
             None \<Rightarrow> w'
           | Some key \<Rightarrow>
               if us_PromptTokens u \<le> 0 then w'
               else w'\<lparr>cw_scales := fst (Observe key predicted (us_PromptTokens u) budget (ce_fault v) (cw_scales w'))\<rparr>))"

definition contributors_of :: "Message list \<Rightarrow> SelectionResult \<Rightarrow> Contributor list" where
  "contributors_of turnRecord selection =
     map (\<lambda>m. \<lparr>ct_MessageID = m_Id m, ct_ThreadID = m_ThreadId m, ct_Weight = Fin 1\<rparr>) turnRecord @
     map (\<lambda>s. \<lparr>ct_MessageID = sm_MessageId s, ct_ThreadID = sm_ThreadId s, ct_Weight = sm_ProvenanceWeight s\<rparr>)
       (filter (\<lambda>s. \<not> sm_ProvenanceWeight s \<le> Fin 0) (sr_Selected selection))"

definition recordProvenance ::
  "call_env \<Rightarrow> RRCLLM \<Rightarrow> Message \<Rightarrow> Message list \<Rightarrow> SelectionResult \<Rightarrow> call_world \<Rightarrow> call_world" where
  "recordProvenance v r anchor turnRecord selection w =
     (case RecordProvenance (ce_provNow v) (Some anchor) (contributors_of turnRecord selection) (cw_engine w) of
        (e', edges) \<Rightarrow>
          w\<lparr>cw_engine := e', cw_out := cw_out w @ (if rl_OnEdge r then map OutEdge edges else [])\<rparr>)"

section \<open>The call\<close>

text \<open>The window of the call and the turn it belongs to; \<open>None\<close> when the thread has no
  message at all.\<close>

definition load_window :: "RRCLLM \<Rightarrow> int \<Rightarrow> call_error + (Message list \<times> string) option" where
  "load_window r localContextSize =
     (case bs_RecentMessages (rl_db r) (rl_threadID r) localContextSize of
        Inl err \<Rightarrow> Inl (LoadRecent err)
      | Inr [] \<Rightarrow> Inr None
      | Inr recent \<Rightarrow>
          (case bs_TurnMessages (rl_db r) (rl_threadID r) (rl_CurrentTurnID r) of
             Inl err \<Rightarrow> Inl (LoadTurn err)
           | Inr turnMsgs \<Rightarrow>
               if rl_CurrentTurnID r \<noteq> [] \<and> 0 < length turnMsgs then
                 (case bs_PrecedingTurnID (rl_db r) (rl_threadID r) (rl_CurrentTurnID r) of
                    Inl err \<Rightarrow> Inl (LoadPrecedingID err)
                  | Inr precedingID \<Rightarrow>
                      if precedingID \<noteq> [] then
                        (case bs_TurnMessages (rl_db r) (rl_threadID r) precedingID of
                           Inl err \<Rightarrow> Inl (LoadPreceding err)
                         | Inr preceding \<Rightarrow>
                             Inr (Some (mergeByPosition preceding turnMsgs, rl_CurrentTurnID r)))
                      else Inr (Some (mergeByPosition [] turnMsgs, rl_CurrentTurnID r)))
               else Inr (Some (recent, ''''))))"

text \<open>The scale in use (0 when there is none) and the budget in counter units.\<close>

definition call_scale :: "RRCLLM \<Rightarrow> Store \<Rightarrow> float64" where
  "call_scale r scales =
     (case rl_Scales r of
        None \<Rightarrow> Fin 0
      | Some key \<Rightarrow> let s = Scale scales key in if Fin 0 < s then s else Fin 0)"

definition call_budget :: "RRCLLM \<Rightarrow> Store \<Rightarrow> int \<Rightarrow> int" where
  "call_budget r scales contextBudget =
     (case rl_Scales r of
        None \<Rightarrow> contextBudget
      | Some key \<Rightarrow>
          let s = Scale scales key in
          if Fin 0 < s then int_of_float (float_of_int contextBudget / s) else contextBudget)"

text \<open>What one call fixes before its loop.\<close>

record call_frame =
  cf_req :: LLMRequest
  cf_stream :: bool
  cf_window :: "Message list"
  cf_turnID :: string
  cf_turnRecord :: "Message list"
  cf_anchor :: Message
  cf_serialized :: "SerializedLocalContext option"
  cf_system :: "LLMMessage option"
  cf_tools :: "ToolDeclaration list"
  cf_scale :: float64
  cf_budget :: int
  cf_fixed :: int
  cf_cfg :: EngineConfig

definition assemble_request ::
  "RRCLLM \<Rightarrow> call_frame \<Rightarrow> string list \<Rightarrow> SelectionResult option \<Rightarrow> AssembleRequest" where
  "assemble_request r f excludeIDs prior =
     \<lparr>ar_SerializedLocalContext = cf_serialized f, ar_Anchor = Some (cf_anchor f),
      ar_Store = Some (CorpusStore.truncate (rl_db r)), ar_LocalContext = cf_window f, ar_Scope = rl_Scope r,
      ar_ThreadID = rl_threadID r, ar_System = cf_system f, ar_Budget = cf_budget f,
      ar_HeadroomPct = cfg_BudgetHeadroomPct (cf_cfg f), ar_PerMsgDelim = cfg_PerMsgDelimiterTokens (cf_cfg f),
      ar_FixedTokens = cf_fixed f, ar_ExcludeIDs = excludeIDs, ar_CurrentTurnID = cf_turnID f,
      ar_CountText = rl_CountText r, ar_PriorSelection = prior\<rparr>"

text \<open>Edges and the selection are let out by the first assembly only.\<close>

definition publish :: "RRCLLM \<Rightarrow> call_frame \<Rightarrow> bool \<Rightarrow> AssembleResult \<Rightarrow> call_output list" where
  "publish r f published res =
     (if published then []
      else (if rl_OnEdge r then map OutEdge (as_Edges res) else []) @
           (if as_SerializedLocalContext res \<noteq> None \<and> rl_OnSelection r then [OutSelection (as_Selection res)] else [])) @
     (if rl_OnAssemble r then [OutAssemble (as_Telemetry res)] else []) @
     [OutLog (as_Telemetry res) (cf_scale f) (length (as_Wire res))]"

definition assemble_failure :: "assemble_error \<Rightarrow> call_output" where
  "assemble_failure err = (case err of EngineError (Panic msg) \<Rightarrow> Panicked msg | _ \<Rightarrow> YieldErr (AssembleFailed err))"

partial_function (option) send_loop ::
  "call_env \<Rightarrow> RRCLLM \<Rightarrow> call_frame \<Rightarrow> nat \<Rightarrow> string list \<Rightarrow> bool \<Rightarrow> SelectionResult option \<Rightarrow> call_world \<Rightarrow>
   call_world option" where
  "send_loop v r f n excludeIDs published prior w =
     (case Assemble (ce_rng v) (ce_below v) (ce_fetched v) (ce_now v n) (assemble_request r f excludeIDs prior)
             (cw_engine w) of
        None \<Rightarrow> None
      | Some (e', Inl err) \<Rightarrow> Some (w\<lparr>cw_engine := e', cw_out := cw_out w @ [assemble_failure err]\<rparr>)
      | Some (e', Inr res) \<Rightarrow>
          (case try_send v r (cf_stream f) n
                  (completionRequest (cf_req f) (cf_stream f) (as_Wire res) (cf_tools f)
                     (cfg_ContextBudgetTokens (cf_cfg f)))
                  (cw_out w @ publish r f published res) of
             (out, usage, None) \<Rightarrow>
               Some (recordProvenance v r (cf_anchor f) (cf_turnRecord f) (as_Selection res)
                 (observeUsage v r (at_TotalTokens (as_Telemetry res)) (cf_budget f) usage
                   (w\<lparr>cw_engine := e', cw_out := out\<rparr>)))
           | (out, usage, Some sendErr) \<Rightarrow>
               if \<not> IsContextOverflow (Some sendErr) then
                 Some (w\<lparr>cw_engine := e', cw_out := out @ [YieldErr (SendFailed sendErr)]\<rparr>)
               else
                 let drop = lowestSurvivingScore (as_Selection res) excludeIDs in
                 if drop = [] then
                   Some (w\<lparr>cw_engine := e', cw_out := out @ [YieldErr (OverflowAfterShedding sendErr)]\<rparr>)
                 else send_loop v r f (n + 1) (excludeIDs @ [drop]) True (Some (as_Selection res))
                        (w\<lparr>cw_engine := e', cw_out := out\<rparr>)))"

definition forwardCurrentTurn :: "call_env \<Rightarrow> RRCLLM \<Rightarrow> LLMRequest \<Rightarrow> bool \<Rightarrow> call_world \<Rightarrow> call_world" where
  "forwardCurrentTurn v r req stream w =
     (let messages = (case systemMessage (ce_json v) req of None \<Rightarrow> [] | Some s \<Rightarrow> [s]) @
                     map (ContentToProto (ce_json v)) (lq_Contents req);
          protoReq = completionRequest req stream messages (toolDeclarations (ce_MarshalAny v) req)
                       (cfg_ContextBudgetTokens (en_cfg (cw_engine w)))
      in case try_send v r stream 0 protoReq (cw_out w) of
           (out, usage, Some err) \<Rightarrow> w\<lparr>cw_out := out @ [YieldErr (SendFailed err)]\<rparr>
         | (out, usage, None) \<Rightarrow> observeUsage v r 0 0 usage (w\<lparr>cw_out := out\<rparr>))"

definition GenerateContent ::
  "call_env \<Rightarrow> RRCLLM \<Rightarrow> LLMRequest \<Rightarrow> bool \<Rightarrow> call_world \<Rightarrow> call_world option" where
  "GenerateContent v r req stream w =
     (let cfg = en_cfg (cw_engine w); tools = toolDeclarations (ce_MarshalAny v) req in
      case load_window r (cfg_LocalContextSize cfg) of
        Inl err \<Rightarrow> Some (w\<lparr>cw_out := cw_out w @ [YieldErr err]\<rparr>)
      | Inr None \<Rightarrow> Some (forwardCurrentTurn v r req stream w)
      | Inr (Some (window, effTurnID)) \<Rightarrow>
          let turnRecord = BuildActiveDiscourse window effTurnID (cfg_LocalContextSize cfg);
              localContext = SemanticMessages turnRecord
          in if localContext = [] then
               Some (w\<lparr>cw_out := cw_out w @ [YieldErr (NoSemanticContext (length turnRecord))]\<rparr>)
             else
               (case (if 0 < length (lq_Contents req)
                      then SerializeLocalContext window effTurnID (cfg_Chunk cfg) else Some None) of
                  None \<Rightarrow> Some (w\<lparr>cw_out := cw_out w @ [Panicked ''chunk: no TokenEstimator on Config'']\<rparr>)
                | Some serialized \<Rightarrow>
                    (case estimateToolSchemaTokens (ce_MarshalTool v) tools (cfg_Chunk cfg) 0 of
                       None \<Rightarrow> Some (w\<lparr>cw_out := cw_out w @ [Panicked ''chunk: no TokenEstimator on Config'']\<rparr>)
                     | Some fixed \<Rightarrow>
                         send_loop v r
                           \<lparr>cf_req = req, cf_stream = stream, cf_window = window, cf_turnID = effTurnID,
                            cf_turnRecord = turnRecord, cf_anchor = last localContext, cf_serialized = serialized,
                            cf_system = systemMessage (ce_json v) req, cf_tools = tools,
                            cf_scale = call_scale r (cw_scales w),
                            cf_budget = call_budget r (cw_scales w) (cfg_ContextBudgetTokens cfg),
                            cf_fixed = fixed, cf_cfg = cfg\<rparr>
                           0 [] False None w)))"

end
