(* ===== verification/Model_Call_Correct.thy ===== *)
theory Model_Call_Correct
  imports Model_Call Assembly_Correct
begin

text \<open>
  The model call: it always returns and sends at most once per selected message and once more,
  publishes its selection once, never calls a consumer that has stopped, grounds the learner
  only on a cleanly finished stream, and puts on the wire what the declared context window
  holds under the learned scale.
\<close>

section \<open>The loop\<close>

text \<open>One round of the loop: it ends the call, or drops a message and goes on.\<close>

definition send_round ::
  "call_env \<Rightarrow> RRCLLM \<Rightarrow> call_frame \<Rightarrow> nat \<Rightarrow> string list \<Rightarrow> bool \<Rightarrow> AssembleResult \<Rightarrow> call_output list \<Rightarrow>
   call_output list \<times> Usage option \<times> go_error option" where
  "send_round v r f n excludeIDs published res out =
     try_send v r (cf_stream f) n
       (completionRequest (cf_req f) (cf_stream f) (as_Wire res) (cf_tools f) (cfg_ContextBudgetTokens (cf_cfg f)))
       (out @ publish r f published res)"

abbreviation (input) call_assemble ::
  "call_env \<Rightarrow> RRCLLM \<Rightarrow> call_frame \<Rightarrow> nat \<Rightarrow> string list \<Rightarrow> SelectionResult option \<Rightarrow> call_world \<Rightarrow>
   (Engine \<times> (assemble_error + AssembleResult)) option" where
  "call_assemble v r f n excludeIDs prior w \<equiv>
     Assemble (ce_rng v) (ce_below v) (ce_fetched v) (ce_now v n) (assemble_request r f excludeIDs prior) (cw_engine w)"

lemma send_loop_unfold:
  "send_loop v r f n ex pub prior w =
     (case call_assemble v r f n ex prior w of
        None \<Rightarrow> None
      | Some (e', Inl err) \<Rightarrow> Some (w\<lparr>cw_engine := e', cw_out := cw_out w @ [assemble_failure err]\<rparr>)
      | Some (e', Inr res) \<Rightarrow>
          (case send_round v r f n ex pub res (cw_out w) of
             (out, usage, None) \<Rightarrow>
               Some (recordProvenance v r (cf_anchor f) (cf_turnRecord f) (as_Selection res)
                 (observeUsage v r (at_TotalTokens (as_Telemetry res)) (cf_budget f) usage
                   (w\<lparr>cw_engine := e', cw_out := out\<rparr>)))
           | (out, usage, Some sendErr) \<Rightarrow>
               if \<not> IsContextOverflow (Some sendErr) then
                 Some (w\<lparr>cw_engine := e', cw_out := out @ [YieldErr (SendFailed sendErr)]\<rparr>)
               else if lowestSurvivingScore (as_Selection res) ex = [] then
                 Some (w\<lparr>cw_engine := e', cw_out := out @ [YieldErr (OverflowAfterShedding sendErr)]\<rparr>)
               else send_loop v r f (n + 1) (ex @ [lowestSurvivingScore (as_Selection res) ex]) True
                      (Some (as_Selection res)) (w\<lparr>cw_engine := e', cw_out := out\<rparr>)))"
  unfolding send_loop.simps [of v r f n] send_round_def Let_def ..

text \<open>Reasoning about a run of the loop: an invariant \<open>P\<close> of its rounds, and what each way
  out of it gives.\<close>

lemma send_loop_rule [consumes 1, case_names start failed finished refused again]:
  assumes "send_loop v r f n0 ex0 pub0 prior0 w0 = Some w'"
    and "P n0 ex0 pub0 prior0 w0"
    and "\<And>n ex pub prior w e' err. P n ex pub prior w \<Longrightarrow>
      call_assemble v r f n ex prior w = Some (e', Inl err) \<Longrightarrow>
      Q (w\<lparr>cw_engine := e', cw_out := cw_out w @ [assemble_failure err]\<rparr>)"
    and "\<And>n ex pub prior w e' res out usage. P n ex pub prior w \<Longrightarrow>
      call_assemble v r f n ex prior w = Some (e', Inr res) \<Longrightarrow>
      send_round v r f n ex pub res (cw_out w) = (out, usage, None) \<Longrightarrow>
      Q (recordProvenance v r (cf_anchor f) (cf_turnRecord f) (as_Selection res)
           (observeUsage v r (at_TotalTokens (as_Telemetry res)) (cf_budget f) usage
             (w\<lparr>cw_engine := e', cw_out := out\<rparr>)))"
    and "\<And>n ex pub prior w e' res out usage err why. P n ex pub prior w \<Longrightarrow>
      call_assemble v r f n ex prior w = Some (e', Inr res) \<Longrightarrow>
      send_round v r f n ex pub res (cw_out w) = (out, usage, Some err) \<Longrightarrow>
      Q (w\<lparr>cw_engine := e', cw_out := out @ [YieldErr why]\<rparr>)"
    and "\<And>n ex pub prior w e' res out usage err. P n ex pub prior w \<Longrightarrow>
      call_assemble v r f n ex prior w = Some (e', Inr res) \<Longrightarrow>
      send_round v r f n ex pub res (cw_out w) = (out, usage, Some err) \<Longrightarrow>
      lowestSurvivingScore (as_Selection res) ex \<noteq> [] \<Longrightarrow>
      P (n + 1) (ex @ [lowestSurvivingScore (as_Selection res) ex]) True (Some (as_Selection res))
        (w\<lparr>cw_engine := e', cw_out := out\<rparr>)"
  shows "Q w'"
proof -
  have "v' = v \<longrightarrow> r' = r \<longrightarrow> f' = f \<longrightarrow> P n ex pub prior w \<longrightarrow> Q w'"
    if "send_loop v' r' f' n ex pub prior w = Some w'" for v' r' f' n ex pub prior w w'
    using that
  proof (induction rule: send_loop.raw_induct [rotated, consumes 1, case_names step])
    case (step loop v' r' f' n ex pub prior w w')
    show ?case
    proof (intro impI)
      assume eq: "v' = v" "r' = r" "f' = f" and P: "P n ex pub prior w"
      note body = step(2) [unfolded eq, folded send_round_def [where excludeIDs = ex and published = pub]]
      obtain e' x where asm: "call_assemble v r f n ex prior w = Some (e', x)"
        using body by (auto split: option.splits)
      show "Q w'"
      proof (cases x)
        case (Inl err)
        with asm body have "w' = w\<lparr>cw_engine := e', cw_out := cw_out w @ [assemble_failure err]\<rparr>" by simp
        with assms(3) [OF P] asm Inl show ?thesis by simp
      next
        case (Inr res)
        note asm = asm [unfolded Inr]
        obtain out usage err where send: "send_round v r f n ex pub res (cw_out w) = (out, usage, err)"
          by (cases "send_round v r f n ex pub res (cw_out w)")
        let ?w = "w\<lparr>cw_engine := e', cw_out := out\<rparr>" and ?d = "lowestSurvivingScore (as_Selection res) ex"
        consider (finished) "err = None"
            "w' = recordProvenance v r (cf_anchor f) (cf_turnRecord f) (as_Selection res)
               (observeUsage v r (at_TotalTokens (as_Telemetry res)) (cf_budget f) usage ?w)"
          | (refused) sendErr why where "err = Some sendErr" "w' = w\<lparr>cw_engine := e', cw_out := out @ [YieldErr why]\<rparr>"
          | (again) sendErr where "err = Some sendErr" "?d \<noteq> []"
              "loop v r f (n + 1) (ex @ [?d]) True (Some (as_Selection res)) ?w = Some w'"
          using body asm send by (auto simp: Let_def split: option.splits if_splits)
        then show ?thesis
        proof cases
          case finished
          with assms(4) [OF P asm] send show ?thesis by simp
        next
          case refused
          with assms(5) [OF P asm] send show ?thesis by simp
        next
          case again
          from assms(6) [OF P asm] send again have "P (n + 1) (ex @ [?d]) True (Some (as_Selection res)) ?w" by simp
          with step(1) [OF again(3)] show ?thesis by simp
        qed
      qed
    qed
  qed
  with assms(1,2) show ?thesis by blast
qed

section \<open>What reaches the consumer\<close>

lemma yields_append [simp]: "yields (a @ b) = yields a + yields b"
  by (simp add: yields_def)

lemma yields_simps [simp]:
  "yields [] = 0" "yields (x # xs) = (if is_yield x then 1 else 0) + yields xs" "yields (map OutEdge es) = 0"
  by (simp_all add: yields_def filter_empty_conv)

lemma yield_fst [simp]: "fst (yield takes x out) = out @ [x]"
  by (simp add: yield_def Let_def)

lemma chunk_content_quiet: "chunk_content r jc d pending = (content, fired, pending') \<Longrightarrow> yields fired = 0"
  by (cases d) (auto simp: Let_def split: if_splits)

lemma finishEmpty_yields: "yields (finishEmpty r takes out) = yields out + 1"
  by (simp add: finishEmpty_def)

lemma stream_loop_yields:
  "yields out \<le> takes \<Longrightarrow> yields (fst (stream_loop r jc takes items pending out)) \<le> takes + 1"
proof (induction r jc takes items pending out rule: stream_loop.induct)
  case (3 r jc takes c rest pending out)
  obtain content fired pending' where cc: "chunk_content r jc (sk_Delta c) pending = (content, fired, pending')"
    by (cases "chunk_content r jc (sk_Delta c) pending")
  show ?case
  proof (cases "sk_Done c \<or> takes < yields out + 1")
    case True
    then show ?thesis
      using "3.prems" chunk_content_quiet [OF cc] by (auto simp: cc yield_def Let_def)
  next
    case False
    let ?resp = "Yield (blank_response\<lparr>lr_Partial := True, lr_Content := content\<rparr>)"
    have "yield takes ?resp (out @ fired) = ((out @ fired) @ [?resp], True)"
      using False chunk_content_quiet [OF cc] by (simp add: yield_def)
    with 3(1) [OF cc [symmetric] refl _ this [symmetric] refl] False chunk_content_quiet [OF cc] show ?thesis
      by (simp add: cc)
  qed
qed (simp_all add: finishEmpty_yields)

lemma tryStream_cases:
  assumes "tryStream v r n req out = (out', usage, err)"
  obtains (empty) "cp_Stream (ce_completer v) n req = []" "err = None" "usage = None"
      "out' = finishEmpty r (ce_takes v) (out @ [Sent req])"
  | (handshake) e rest where "cp_Stream (ce_completer v) n req = Inl e # rest" "err = Some e" "usage = None"
      "out' = out @ [Sent req]"
  | (stream) c rest where "cp_Stream (ce_completer v) n req = Inr c # rest" "err = None"
      "(out', usage) = stream_loop r (ce_json v) (ce_takes v) (Inr c # rest) [] (out @ [Sent req])"
  using assms
  by (cases "cp_Stream (ce_completer v) n req"; cases "hd (cp_Stream (ce_completer v) n req)")
     (auto simp: tryStream_def Let_def simp del: stream_loop.simps split: prod.splits)

lemma try_send_yields:
  assumes "yields out \<le> ce_takes v" and "try_send v r stream n req out = (out', usage, err)"
  shows "yields out' \<le> ce_takes v + 1 \<and> (err \<noteq> None \<longrightarrow> yields out' = yields out)"
proof (cases stream)
  case True
  with assms(2) have "tryStream v r n req out = (out', usage, err)" by (simp add: try_send_def)
  then show ?thesis
  proof (cases rule: tryStream_cases)
    case (stream c rest)
    have "yields (out @ [Sent req]) \<le> ce_takes v" using assms(1) by simp
    from stream_loop_yields [OF this] stream show ?thesis by (metis fst_conv)
  qed (use assms(1) in \<open>simp_all add: finishEmpty_yields\<close>)
next
  case False
  with assms show ?thesis by (auto simp: try_send_def tryComplete_def Let_def split: sum.splits)
qed

lemma publish_quiet: "yields (publish r f pub res) = 0"
  by (auto simp: publish_def yields_def filter_empty_conv)

lemma observeUsage_out: "yields (cw_out (observeUsage v r p b usage w)) = yields (cw_out w)"
  by (simp add: observeUsage_def Let_def split: option.split)

lemma recordProvenance_out: "yields (cw_out (recordProvenance v r a tr sel w)) = yields (cw_out w)"
  by (simp add: recordProvenance_def split: prod.split)

lemma assemble_failure_yields: "yields [assemble_failure err] \<le> 1"
  by (simp add: yields_def)

lemma send_loop_yields:
  assumes "send_loop v r f n ex pub prior w = Some w'" and "yields (cw_out w) \<le> ce_takes v"
  shows "yields (cw_out w') \<le> ce_takes v + 1"
  using assms(1)
proof (rule send_loop_rule [where P = "\<lambda>n ex pub prior w. yields (cw_out w) \<le> ce_takes v"])
  fix n ex pub prior and w :: call_world and e' err
  assume "yields (cw_out w) \<le> ce_takes v"
  then show "yields (cw_out (w\<lparr>cw_engine := e', cw_out := cw_out w @ [assemble_failure err]\<rparr>)) \<le> ce_takes v + 1"
    using assemble_failure_yields [of err] by (simp del: yields_simps)
next
  fix n ex pub prior and w :: call_world and e' res out usage
  assume "yields (cw_out w) \<le> ce_takes v" and send: "send_round v r f n ex pub res (cw_out w) = (out, usage, None)"
  then have "yields (cw_out w @ publish r f pub res) \<le> ce_takes v" by (simp add: publish_quiet)
  from try_send_yields [OF this send [unfolded send_round_def]]
  show "yields (cw_out (recordProvenance v r (cf_anchor f) (cf_turnRecord f) (as_Selection res)
          (observeUsage v r (at_TotalTokens (as_Telemetry res)) (cf_budget f) usage
            (w\<lparr>cw_engine := e', cw_out := out\<rparr>)))) \<le> ce_takes v + 1"
    by (simp add: recordProvenance_out observeUsage_out)
next
  fix n ex pub prior and w :: call_world and e' res out usage err why
  assume "yields (cw_out w) \<le> ce_takes v" and send: "send_round v r f n ex pub res (cw_out w) = (out, usage, Some err)"
  then have "yields (cw_out w @ publish r f pub res) \<le> ce_takes v" by (simp add: publish_quiet)
  from try_send_yields [OF this send [unfolded send_round_def]] this
  show "yields (cw_out (w\<lparr>cw_engine := e', cw_out := out @ [YieldErr why]\<rparr>)) \<le> ce_takes v + 1"
    and "yields (cw_out (w\<lparr>cw_engine := e', cw_out := out\<rparr>)) \<le> ce_takes v"
    by simp_all
qed (rule assms(2))

lemma forwardCurrentTurn_yields:
  assumes "yields (cw_out w) \<le> ce_takes v"
  shows "yields (cw_out (forwardCurrentTurn v r req stream w)) \<le> ce_takes v + 1"
proof -
  define q where "q = completionRequest req stream ((case systemMessage (ce_json v) req of None \<Rightarrow> [] | Some s \<Rightarrow> [s]) @
      map (ContentToProto (ce_json v)) (lq_Contents req)) (toolDeclarations (ce_MarshalAny v) req)
      (cfg_ContextBudgetTokens (en_cfg (cw_engine w)))"
  obtain out usage err where send: "try_send v r stream 0 q (cw_out w) = (out, usage, err)"
    by (cases "try_send v r stream 0 q (cw_out w)")
  from try_send_yields [OF assms send] assms send show ?thesis
    unfolding forwardCurrentTurn_def Let_def q_def [symmetric]
    by (cases err) (simp_all add: observeUsage_out)
qed

lemma GenerateContent_cases:
  obtains (stopped) x where "GenerateContent v r req stream w = Some (w\<lparr>cw_out := cw_out w @ [x]\<rparr>)"
      "(\<exists>e. x = YieldErr e) \<or> (\<exists>msg. x = Panicked msg)"
  | (forwarded) "GenerateContent v r req stream w = Some (forwardCurrentTurn v r req stream w)"
  | (sent) f where "GenerateContent v r req stream w = send_loop v r f 0 [] False None w"
      "cf_cfg f = en_cfg (cw_engine w)" "cf_scale f = call_scale r (cw_scales w)"
      "cf_budget f = call_budget r (cw_scales w) (cfg_ContextBudgetTokens (en_cfg (cw_engine w)))"
proof -
  let ?cfg = "en_cfg (cw_engine w)" and ?tools = "toolDeclarations (ce_MarshalAny v) req"
  note gen = GenerateContent_def [of v r req stream w, unfolded Let_def]
  consider (err) e where "load_window r (cfg_LocalContextSize ?cfg) = Inl e"
    | (empty) "load_window r (cfg_LocalContextSize ?cfg) = Inr None"
    | (window) window t where "load_window r (cfg_LocalContextSize ?cfg) = Inr (Some (window, t))"
    by (metis not_Some_eq old.sum.exhaust prod.exhaust)
  then show thesis
  proof cases
    case err
    with gen show thesis by (intro stopped [of "YieldErr e"]) simp_all
  next
    case empty
    with gen show thesis by (intro forwarded) simp
  next
    case window
    let ?tr = "BuildActiveDiscourse window t (cfg_LocalContextSize ?cfg)"
    let ?ser = "if 0 < length (lq_Contents req) then SerializeLocalContext window t (cfg_Chunk ?cfg) else Some None"
    let ?fix = "estimateToolSchemaTokens (ce_MarshalTool v) ?tools (cfg_Chunk ?cfg) 0"
    note gen = gen [unfolded window sum.case option.case prod.case]
    consider (no) "SemanticMessages ?tr = []" | (ser) "SemanticMessages ?tr \<noteq> []" "?ser = None"
      | (fixed) ser where "SemanticMessages ?tr \<noteq> []" "?ser = Some ser" "?fix = None"
      | (go) ser fixed where "SemanticMessages ?tr \<noteq> []" "?ser = Some ser" "?fix = Some fixed"
      by (cases "?ser"; cases "?fix") blast+
    then show thesis
    proof cases
      case no
      with gen show thesis by (intro stopped [of "YieldErr (NoSemanticContext (length ?tr))"]) simp_all
    next
      case ser
      show thesis by (rule stopped [OF gen [unfolded if_not_P [OF ser(1)] ser(2) option.case]]) simp
    next
      case fixed
      show thesis by (rule stopped [OF gen [unfolded if_not_P [OF fixed(1)] fixed(2,3) option.case]]) simp
    next
      case go
      show thesis by (rule sent [OF gen [unfolded if_not_P [OF go(1)] go(2,3) option.case]]) simp_all
    qed
  qed
qed

text \<open>C19: A consumer that has stopped is never called again. Whatever the stores, the completer and
  the assembly do, over however many overflow retries, a call hands over at most one item more
  than the consumer accepts, the one it refuses.\<close>

theorem GenerateContent_stops:
  "case GenerateContent v r req stream (w\<lparr>cw_out := []\<rparr>) of
     None \<Rightarrow> True
   | Some w' \<Rightarrow> yields (cw_out w') \<le> ce_takes v + 1"
proof (cases rule: GenerateContent_cases [of v r req stream "w\<lparr>cw_out := []\<rparr>"])
  case (stopped x)
  then show ?thesis by auto
next
  case forwarded
  with forwardCurrentTurn_yields [of "w\<lparr>cw_out := []\<rparr>" v r req stream] show ?thesis by simp
next
  case (sent f)
  from send_loop_yields [of v r f 0 "[]" False None "w\<lparr>cw_out := []\<rparr>"] show ?thesis
    unfolding sent(1) by (auto split: option.split)
qed

section \<open>What the learner is told\<close>

lemma stream_loop_usage:
  "yields out \<le> takes \<Longrightarrow>
   snd (stream_loop r jc takes items pending out) = Some u \<longleftrightarrow>
   (\<exists>pre c rest. items = map Inr pre @ Inr c # rest \<and> list_all (\<lambda>p. \<not> sk_Done p) pre \<and>
      yields out + length pre \<le> takes \<and> sk_Done c \<and> sk_Error c = None \<and> sk_Usage c = Some u)"
proof (induction r jc takes items pending out rule: stream_loop.induct)
  case (2 r jc takes err rest pending out)
  have "Inl err # rest \<noteq> map Inr pre @ Inr c # rest'" for pre c rest' by (cases pre) auto
  then show ?case by simp
next
  case (3 r jc takes c rest pending out)
  obtain content fired pending' where cc: "chunk_content r jc (sk_Delta c) pending = (content, fired, pending')"
    by (cases "chunk_content r jc (sk_Delta c) pending")
  have split: "(\<exists>pre c' rest'. Inr c # rest = map Inr pre @ Inr c' # rest' \<and> Q pre c') \<longleftrightarrow>
      Q [] c \<or> (\<exists>pre c' rest'. rest = map Inr pre @ Inr c' # rest' \<and> Q (c # pre) c')" for Q
    by (auto simp: Cons_eq_append_conv Cons_eq_map_conv)
       (metis append_Cons list.simps(9))+
  show ?case
  proof (cases "sk_Done c \<or> takes < yields out + 1")
    case True
    with "3.prems" chunk_content_quiet [OF cc] show ?thesis
      unfolding split by (auto simp: cc yield_def Let_def)
  next
    case False
    let ?resp = "Yield (blank_response\<lparr>lr_Partial := True, lr_Content := content\<rparr>)"
    have y: "yield takes ?resp (out @ fired) = ((out @ fired) @ [?resp], True)"
      using False chunk_content_quiet [OF cc] by (simp add: yield_def)
    with 3(1) [OF cc [symmetric] refl _ y [symmetric] refl] False chunk_content_quiet [OF cc] show ?thesis
      unfolding split by (simp add: cc y)
  qed
qed simp

text \<open>C18: The usage contract: a streamed send reports a usage exactly when the stream is chunks that
  are not terminal, all accepted by the consumer, followed by a terminal chunk that carries the
  usage and no error. An aborted iteration, a stream that ends early or fails, and a provider
  error report none, so they can never reach the learner.\<close>

theorem tryStream_usage:
  "fst (snd (tryStream v r n req [])) = Some u \<longleftrightarrow>
   (\<exists>pre c rest. cp_Stream (ce_completer v) n req = map Inr pre @ Inr c # rest \<and>
      list_all (\<lambda>p. \<not> sk_Done p) pre \<and> length pre \<le> ce_takes v \<and>
      sk_Done c \<and> sk_Error c = None \<and> sk_Usage c = Some u)"
proof -
  obtain out usage err where tried: "tryStream v r n req [] = (out, usage, err)"
    by (cases "tryStream v r n req []")
  then show ?thesis
  proof (cases rule: tryStream_cases)
    case (handshake e rest)
    have "Inl e # rest \<noteq> map Inr pre @ Inr c # rest'" for pre c rest' by (cases pre) auto
    with handshake tried show ?thesis by simp
  next
    case (stream c rest)
    have "yields ([] @ [Sent req]) \<le> ce_takes v" by simp
    from stream_loop_usage [OF this, of r "ce_json v" "Inr c # rest" "[]" u] stream tried show ?thesis
      by (simp del: stream_loop.simps) (metis snd_conv)
  qed (use tried in simp_all)
qed

section \<open>The call returns\<close>

lemma lowestSurvivingScore_mem:
  assumes "lowestSurvivingScore sel ex \<noteq> []"
  shows "lowestSurvivingScore sel ex \<in> sm_MessageId ` set (sr_Selected sel) - set ex"
proof -
  have "fst (foldl (lowest_survivor_step (set ex)) pl xs) = fst pl \<or>
      fst (foldl (lowest_survivor_step (set ex)) pl xs) \<in> sm_MessageId ` set xs - set ex" for pl xs
    by (induction xs arbitrary: pl) (auto simp: lowest_survivor_step_def, (metis fst_conv)+)
  from this [of "('''', PInf)" "sr_Selected sel"] assms show ?thesis
    by (auto simp: lowestSurvivingScore_def)
qed

lemma Assemble_prior_selection:
  assumes "Assemble rng below fetched now req e = Some (e', Inr res)" and "ar_PriorSelection req = Some sel"
  shows "as_Selection res = sel"
  using assms(1)
proof (cases rule: Assemble_success)
  case (1 a p est local lg serialized e1 selection edges tel corpus psel groups s prices)
  from 1(6) assms(2) have "selection = sel" by (simp add: choose_selection_def)
  with 1(11) show ?thesis by (simp add: assemble_result_def Let_def)
qed

lemma Assemble_unserialized:
  assumes "Assemble rng below fetched now req e = Some (e', Inr res)" and "ar_PriorSelection req = None"
    and "as_SerializedLocalContext res = None"
  shows "sr_Selected (as_Selection res) = []"
  using assms(1)
proof (cases rule: Assemble_success)
  case (1 a p est local lg serialized e1 selection edges tel corpus psel groups s prices)
  from 1(11) assms(3) have "serialized = None" by (simp add: assemble_result_def Let_def)
  with 1(6) assms(2) have "selection = empty_selection req a" by (simp add: choose_selection_def)
  with 1(11) show ?thesis by (simp add: assemble_result_def empty_selection_def Let_def)
qed

text \<open>What a send lets out: the request, then responses and stream callbacks only.\<close>

fun handed :: "call_output \<Rightarrow> bool" where
  "handed (Yield _) = True"
| "handed (OutStream _ _ _) = True"
| "handed _ = False"

lemma chunk_content_handed: "chunk_content r jc d pending = (content, fired, pending') \<Longrightarrow> list_all handed fired"
  by (cases d) (auto simp: Let_def split: if_splits)

lemma finishEmpty_handed: "\<exists>ext. finishEmpty r takes out = out @ ext \<and> list_all handed ext"
  by (simp add: finishEmpty_def)

lemma stream_loop_handed:
  "\<exists>ext. fst (stream_loop r jc takes items pending out) = out @ ext \<and> list_all handed ext"
proof (induction r jc takes items pending out rule: stream_loop.induct)
  case (3 r jc takes c rest pending out)
  obtain content fired pending' where cc: "chunk_content r jc (sk_Delta c) pending = (content, fired, pending')"
    by (cases "chunk_content r jc (sk_Delta c) pending")
  let ?resp = "Yield (blank_response\<lparr>lr_Partial := True, lr_Content := content\<rparr>)"
  show ?case
  proof (cases "sk_Done c \<or> takes < yields ((out @ fired) @ [?resp])")
    case True
    then show ?thesis using chunk_content_handed [OF cc] by (auto simp: cc yield_def Let_def simp del: yields_append yields_simps)
  next
    case False
    then have y: "yield takes ?resp (out @ fired) = ((out @ fired) @ [?resp], True)" by (simp add: yield_def)
    from 3(1) [OF cc [symmetric] refl _ y [symmetric] refl] False obtain ext where
      "fst (stream_loop r jc takes rest pending' ((out @ fired) @ [?resp])) = ((out @ fired) @ [?resp]) @ ext"
      "list_all handed ext" by blast
    with False chunk_content_handed [OF cc] show ?thesis by (simp add: cc y)
  qed
qed (simp_all add: finishEmpty_handed)

lemma try_send_handed:
  assumes "try_send v r stream n req out = (out', usage, err)"
  shows "\<exists>ext. out' = out @ Sent req # ext \<and> list_all handed ext"
proof (cases stream)
  case True
  with assms have "tryStream v r n req out = (out', usage, err)" by (simp add: try_send_def)
  then show ?thesis
  proof (cases rule: tryStream_cases)
    case empty
    with finishEmpty_handed [of r "ce_takes v" "out @ [Sent req]"] show ?thesis by auto
  next
    case (stream c rest)
    from stream_loop_handed [of r "ce_json v" "ce_takes v" "Inr c # rest" "[]" "out @ [Sent req]"] stream(3)
    show ?thesis by (metis append.assoc append_Cons append_Nil fst_conv)
  qed simp
next
  case False
  with assms show ?thesis by (auto simp: try_send_def tryComplete_def Let_def split: sum.splits)
qed

fun is_sent :: "call_output \<Rightarrow> bool" where
  "is_sent (Sent _) = True"
| "is_sent _ = False"

definition sends :: "call_output list \<Rightarrow> nat" where
  "sends out = length (filter is_sent out)"

fun selection_of :: "call_output \<Rightarrow> SelectionResult option" where
  "selection_of (OutSelection s) = Some s"
| "selection_of _ = None"

definition selections :: "call_output list \<Rightarrow> SelectionResult list" where
  "selections out = List.map_filter selection_of out"

lemma sends_simps [simp]:
  "sends [] = 0" "sends (x # xs) = (if is_sent x then 1 else 0) + sends xs" "sends (a @ b) = sends a + sends b"
  "sends (map OutEdge es) = 0"
  by (simp_all add: sends_def filter_empty_conv)

lemma selections_simps [simp]:
  "selections [] = []"
  "selections (x # xs) = (case selection_of x of None \<Rightarrow> selections xs | Some s \<Rightarrow> s # selections xs)"
  "selections (a @ b) = selections a @ selections b"
  "selections (map OutEdge es) = []"
  by (simp_all add: selections_def List.map_filter_def filter_empty_conv split: option.split)

lemma handed_quiet: "list_all handed ext \<Longrightarrow> sends ext = 0 \<and> selections ext = []"
proof (induction ext)
  case (Cons x ext)
  then show ?case by (cases x) auto
qed simp

lemma publish_sends:
  "sends (publish r f pub res) = 0"
  "pub \<Longrightarrow> selections (publish r f pub res) = []"
  "selections (publish r f pub res) = [] \<or> selections (publish r f pub res) = [as_Selection res]"
  "rl_OnSelection r \<Longrightarrow> as_SerializedLocalContext res \<noteq> None \<Longrightarrow> selections (publish r f False res) = [as_Selection res]"
  by (auto simp: publish_def)

lemma send_round_sends:
  assumes "send_round v r f n ex pub res out = (out', usage, err)"
  shows "sends out' = sends out + 1" and "selections out' = selections out @ selections (publish r f pub res)"
proof -
  from try_send_handed [OF assms [unfolded send_round_def]] obtain q ext
    where "out' = (out @ publish r f pub res) @ Sent q # ext" "list_all handed ext" by blast
  then show "sends out' = sends out + 1" "selections out' = selections out @ selections (publish r f pub res)"
    using handed_quiet [of ext] by (simp_all add: publish_sends)
qed

lemma observeUsage_quiet:
  "sends (cw_out (observeUsage v r p b usage w)) = sends (cw_out w)"
  "selections (cw_out (observeUsage v r p b usage w)) = selections (cw_out w)"
  by (simp_all add: observeUsage_def Let_def split: option.split)

lemma recordProvenance_quiet:
  "sends (cw_out (recordProvenance v r a tr sel w)) = sends (cw_out w)"
  "selections (cw_out (recordProvenance v r a tr sel w)) = selections (cw_out w)"
  by (simp_all add: recordProvenance_def split: prod.split)

lemma send_loop_round:
  assumes "store_contract (Some (CorpusStore.truncate (rl_db r)))"
  obtains (ended) w' sel where "send_loop v r f n ex pub prior w = Some w'"
      "sends (cw_out w') \<le> sends (cw_out w) + 1" "selections (cw_out w') = selections (cw_out w) @ sel"
      "sel = [] \<or> (\<exists>s. sel = [s]) \<and> \<not> pub"
  | (again) e' res out where "call_assemble v r f n ex prior w = Some (e', Inr res)"
      "sends out = sends (cw_out w) + 1"
      "selections out = selections (cw_out w) @ selections (publish r f pub res)"
      "lowestSurvivingScore (as_Selection res) ex \<noteq> []"
      "send_loop v r f n ex pub prior w =
       send_loop v r f (n + 1) (ex @ [lowestSurvivingScore (as_Selection res) ex]) True (Some (as_Selection res))
         (w\<lparr>cw_engine := e', cw_out := out\<rparr>)"
proof -
  note unfold = send_loop_unfold [of v r f n ex pub prior w]
  have "store_contract (ar_Store (assemble_request r f ex prior))"
    using assms by (simp add: assemble_request_def)
  from Assemble_returns [OF this] obtain e' x where asm: "call_assemble v r f n ex prior w = Some (e', x)" by blast
  show thesis
  proof (cases x)
    case (Inl err)
    have "\<not> is_sent (assemble_failure err) \<and> selection_of (assemble_failure err) = None"
      by (simp add: assemble_failure_def split: assemble_error.split rrc_error.split)
    with Inl asm unfold show thesis
      by (intro ended [of "w\<lparr>cw_engine := e', cw_out := cw_out w @ [assemble_failure err]\<rparr>" "[]"]) simp_all
  next
    case (Inr res)
    obtain out usage err where send: "send_round v r f n ex pub res (cw_out w) = (out, usage, err)"
      by (cases "send_round v r f n ex pub res (cw_out w)")
    note count = send_round_sends [OF send]
    have pub: "selections (publish r f pub res) = [] \<or> (\<exists>s. selections (publish r f pub res) = [s]) \<and> \<not> pub"
      using publish_sends(2) [of pub r f res] publish_sends(3) [of r f pub res] by blast
    show thesis
    proof (cases "\<exists>sendErr. err = Some sendErr \<and> IsContextOverflow err \<and> lowestSurvivingScore (as_Selection res) ex \<noteq> []")
      case True
      with asm Inr send count unfold show thesis by (intro again [of e' res out]) auto
    next
      case False
      have "\<exists>w'. send_loop v r f n ex pub prior w = Some w' \<and>
          sends (cw_out w') = sends out \<and> selections (cw_out w') = selections out"
        unfolding unfold using False asm Inr send
        by (cases err) (auto simp: observeUsage_quiet recordProvenance_quiet)
      then obtain w' where w': "send_loop v r f n ex pub prior w = Some w'"
        "sends (cw_out w') = sends out" "selections (cw_out w') = selections out" by blast
      with count pub show thesis by (intro ended [OF w'(1)]) simp_all
    qed
  qed
qed

lemma send_loop_retries:
  assumes "store_contract (Some (CorpusStore.truncate (rl_db r)))"
  shows "\<exists>w'. send_loop v r f n ex True (Some sel) w = Some w' \<and>
    sends (cw_out w') \<le> sends (cw_out w) + card (sm_MessageId ` set (sr_Selected sel) - set ex) + 1 \<and>
    selections (cw_out w') = selections (cw_out w)"
proof (induction "card (sm_MessageId ` set (sr_Selected sel) - set ex)" arbitrary: n ex w rule: less_induct)
  case less
  let ?ids = "sm_MessageId ` set (sr_Selected sel)"
  from assms show ?case
  proof (cases rule: send_loop_round [of r v f n ex True "Some sel" w])
    case (ended w' s)
    then show ?thesis by auto
  next
    case (again e' res out)
    let ?d = "lowestSurvivingScore sel ex" and ?w = "w\<lparr>cw_engine := e', cw_out := out\<rparr>"
    have sel: "as_Selection res = sel"
      using Assemble_prior_selection [OF again(1)] by (simp add: assemble_request_def)
    with again(4) lowestSurvivingScore_mem have d: "?d \<in> ?ids - set ex" by simp
    then have "?ids - set (ex @ [?d]) = (?ids - set ex) - {?d}" by auto
    then have card: "card (?ids - set ex) = Suc (card (?ids - set (ex @ [?d])))"
      using card_Suc_Diff1 [OF _ d] by (simp only: finite_Diff finite_imageI finite_set)
    from less [of "ex @ [?d]" "n + 1" ?w] card
    obtain w' where "send_loop v r f (n + 1) (ex @ [?d]) True (Some sel) ?w = Some w'"
      "sends (cw_out w') \<le> sends out + card (?ids - set (ex @ [?d])) + 1" "selections (cw_out w') = selections out"
      by auto
    with again card sel publish_sends(2) [of True r f res] show ?thesis by (auto simp del: set_append)
  qed
qed

lemma send_loop_total:
  assumes "store_contract (Some (CorpusStore.truncate (rl_db r)))"
  shows "\<exists>w'. send_loop v r f n [] False None w = Some w' \<and>
    (\<exists>sel. selections (cw_out w') = selections (cw_out w) @ sel \<and>
       (sel = [] \<and> (rl_OnSelection r \<longrightarrow> sends (cw_out w') \<le> sends (cw_out w) + 1) \<or>
        (\<exists>s. sel = [s] \<and>
          sends (cw_out w') \<le> sends (cw_out w) + card (sm_MessageId ` set (sr_Selected s)) + 1)))"
  using assms
proof (cases rule: send_loop_round [of r v f n "[]" False None w])
  case (ended w' sel)
  then show ?thesis by force
next
  case (again e' res out)
  let ?s = "as_Selection res"
  let ?d = "lowestSurvivingScore ?s []" and ?w = "w\<lparr>cw_engine := e', cw_out := out\<rparr>"
  let ?ids = "sm_MessageId ` set (sr_Selected ?s)"
  have "?d \<in> ?ids" using lowestSurvivingScore_mem [OF again(4)] by simp
  then have card: "card (?ids - set ([] @ [?d])) + 1 = card ?ids"
    using card_Suc_Diff1 [of ?ids ?d] by (simp del: card_Diff_insert card_Diff_singleton)
  from send_loop_retries [OF assms, of v f "n + 1" "[] @ [?d]" ?s ?w] obtain w' where
    w': "send_loop v r f (n + 1) ([] @ [?d]) True (Some ?s) ?w = Some w'"
    "sends (cw_out w') \<le> sends out + card (?ids - set ([] @ [?d])) + 1" "selections (cw_out w') = selections out" by auto
  have "sends (cw_out w') \<le> sends (cw_out w) + card ?ids + 1" using w'(2) again(2) card by simp
  moreover have "as_SerializedLocalContext res \<noteq> None"
  proof
    assume "as_SerializedLocalContext res = None"
    then have "sr_Selected ?s = []" using Assemble_unserialized [OF again(1)] by (simp add: assemble_request_def)
    with \<open>?d \<in> ?ids\<close> show False by simp
  qed
  ultimately show ?thesis
    using w' again(3,5) publish_sends(3) [of r f False res] publish_sends(4) [of r res f] by auto
qed

lemma forwardCurrentTurn_out:
  "\<exists>q ext end. cw_out (forwardCurrentTurn v r req stream w) = cw_out w @ Sent q # ext @ end \<and> list_all handed ext \<and>
     (end = [] \<or> (\<exists>e. end = [YieldErr e]) \<or> (\<exists>u. end = [OutUsage 0 u]))"
proof -
  define q where "q = completionRequest req stream ((case systemMessage (ce_json v) req of None \<Rightarrow> [] | Some s \<Rightarrow> [s]) @
      map (ContentToProto (ce_json v)) (lq_Contents req)) (toolDeclarations (ce_MarshalAny v) req)
      (cfg_ContextBudgetTokens (en_cfg (cw_engine w)))"
  obtain out usage err where send: "try_send v r stream 0 q (cw_out w) = (out, usage, err)"
    by (cases "try_send v r stream 0 q (cw_out w)")
  from try_send_handed [OF send] obtain ext where "out = cw_out w @ Sent q # ext" "list_all handed ext" by blast
  with send show ?thesis
    unfolding forwardCurrentTurn_def Let_def q_def [symmetric]
    by (cases err; cases usage) (auto simp: observeUsage_def Let_def split: option.split)
qed

lemma forwardCurrentTurn_selections:
  "selections (cw_out (forwardCurrentTurn v r req stream w)) = selections (cw_out w)"
  using forwardCurrentTurn_out [of v r req stream w] handed_quiet by auto

text \<open>C6: A model call ends. Under the store's contract every call returns, however often the
  provider reports a context overflow; it lets out at most one selection. With the selection
  callback installed, the requests sent to the provider are at most one for each message of
  that selection and one more, and at most one when there was no selection.\<close>

theorem GenerateContent_returns:
  assumes "store_contract (Some (CorpusStore.truncate (rl_db r)))"
  shows "\<exists>w'. GenerateContent v r req stream (w\<lparr>cw_out := []\<rparr>) = Some w' \<and>
    (selections (cw_out w') = [] \<and> (rl_OnSelection r \<longrightarrow> sends (cw_out w') \<le> 1) \<or>
     (\<exists>s. selections (cw_out w') = [s] \<and> sends (cw_out w') \<le> card (sm_MessageId ` set (sr_Selected s)) + 1))"
proof (cases rule: GenerateContent_cases [of v r req stream "w\<lparr>cw_out := []\<rparr>"])
  case (stopped x)
  then show ?thesis by auto
next
  case forwarded
  have "selections (cw_out (forwardCurrentTurn v r req stream (w\<lparr>cw_out := []\<rparr>))) = []"
    using forwardCurrentTurn_selections [of v r req stream "w\<lparr>cw_out := []\<rparr>"] by simp
  moreover have "sends (cw_out (forwardCurrentTurn v r req stream (w\<lparr>cw_out := []\<rparr>))) \<le> 1"
    using forwardCurrentTurn_out [of v r req stream "w\<lparr>cw_out := []\<rparr>"] handed_quiet by auto
  ultimately show ?thesis using forwarded by auto
next
  case (sent f)
  from send_loop_total [OF assms, of v f 0 "w\<lparr>cw_out := []\<rparr>"] show ?thesis
    unfolding sent(1) by force
qed

section \<open>The grounded budget\<close>

text \<open>An assembly's log line fits the declared window: its token count, in the model's units
  under the scale the call used, is at most the window.\<close>

fun fits_window :: "int \<Rightarrow> call_output \<Rightarrow> bool" where
  "fits_window cb (OutLog tel (Fin s) k) =
     (real_of_int (at_TotalTokens tel) * (if s = 0 then 1 else s) \<le> real_of_int cb)"
| "fits_window cb (OutLog tel _ k) = False"
| "fits_window cb _ = True"

lemma floor_budget:
  assumes "0 < s" and "0 < int_of_float (Fin (real_of_int cb / s))"
  shows "real_of_int (int_of_float (Fin (real_of_int cb / s))) * s \<le> real_of_int cb"
proof -
  have "0 \<le> real_of_int cb / s"
  proof (rule ccontr)
    assume "\<not> 0 \<le> real_of_int cb / s"
    then have "\<lceil>real_of_int cb / s\<rceil> \<le> 0" by (simp add: ceiling_le_zero)
    with \<open>\<not> 0 \<le> real_of_int cb / s\<close> assms(2) show False by (simp add: Let_def split: if_splits)
  qed
  then have "int_of_float (Fin (real_of_int cb / s)) = \<lfloor>real_of_int cb / s\<rfloor>"
    using assms(2) by (simp add: Let_def split: if_splits)
  then have "real_of_int (int_of_float (Fin (real_of_int cb / s))) \<le> real_of_int cb / s"
    using of_int_floor_le [of "real_of_int cb / s"] by simp
  from mult_right_mono [OF this, of s] assms(1) show ?thesis by (simp del: int_of_float.simps)
qed

lemma grounded_budget:
  assumes "0 < call_budget r scales cb"
  obtains s where "call_scale r scales = Fin s" "0 \<le> s"
    "real_of_int (call_budget r scales cb) * (if s = 0 then 1 else s) \<le> real_of_int cb"
proof (cases "\<exists>key. rl_Scales r = Some key \<and> Fin 0 < Scale scales key")
  case True
  then obtain key where key: "rl_Scales r = Some key" "Fin 0 < Scale scales key" by blast
  from key(2) consider s where "Scale scales key = Fin s" "0 < s" | "Scale scales key = PInf"
    by (cases "Scale scales key") auto
  then show thesis
  proof cases
    case (1 s)
    with key assms floor_budget [of s cb] show thesis
      by (intro that [of s]) (simp_all add: call_scale_def call_budget_def Let_def del: int_of_float.simps)
  next
    case 2
    with key assms show thesis by (simp add: call_budget_def)
  qed
next
  case False
  then show thesis
    by (intro that [of 0]) (auto simp: call_scale_def call_budget_def Let_def split: option.split)
qed

lemma publish_fits:
  assumes "call_assemble v r f n ex prior w = Some (e', Inr res)" and "0 < cf_budget f"
    and "cf_scale f = Fin s" and "0 \<le> s"
    and "real_of_int (cf_budget f) * (if s = 0 then 1 else s) \<le> real_of_int cb"
  shows "list_all (fits_window cb) (publish r f pub res)"
proof -
  have "at_TotalTokens (as_Telemetry res) \<le> cf_budget f"
    using Assemble_fits(1) [OF assms(1)] assms(2) by (simp add: assemble_request_def)
  then have "real_of_int (at_TotalTokens (as_Telemetry res)) * (if s = 0 then 1 else s)
      \<le> real_of_int (cf_budget f) * (if s = 0 then 1 else s)"
    using assms(4) by (intro mult_right_mono) auto
  with assms(5) have "fits_window cb (OutLog (as_Telemetry res) (cf_scale f) (length (as_Wire res)))"
    unfolding assms(3) fits_window.simps by (rule order_trans [rotated])
  then show ?thesis by (auto simp: publish_def list_all_iff)
qed

lemma handed_fits: "list_all handed ext \<Longrightarrow> list_all (fits_window cb) ext"
proof (induction ext)
  case (Cons x ext)
  then show ?case by (cases x) auto
qed simp

lemma send_round_fits:
  assumes "send_round v r f n ex pub res out = (out', usage, err)"
    and "list_all (fits_window cb) out" and "list_all (fits_window cb) (publish r f pub res)"
  shows "list_all (fits_window cb) out'"
proof -
  from try_send_handed [OF assms(1) [unfolded send_round_def]] obtain q ext
    where "out' = (out @ publish r f pub res) @ Sent q # ext" "list_all handed ext" by blast
  with assms(2,3) handed_fits show ?thesis by simp
qed

lemma closing_fits:
  "list_all (fits_window cb) (cw_out w) \<Longrightarrow> list_all (fits_window cb) (cw_out (observeUsage v r p b usage w))"
  "list_all (fits_window cb) (cw_out w) \<Longrightarrow> list_all (fits_window cb) (cw_out (recordProvenance v r a tr sel w))"
  by (auto simp: observeUsage_def recordProvenance_def Let_def list_all_iff split: option.split prod.split)

lemma send_loop_fits:
  assumes "send_loop v r f n ex pub prior w = Some w'" and "list_all (fits_window cb) (cw_out w)"
    and "0 < cf_budget f" "cf_scale f = Fin s" "0 \<le> s"
      "real_of_int (cf_budget f) * (if s = 0 then 1 else s) \<le> real_of_int cb"
  shows "list_all (fits_window cb) (cw_out w')"
  using assms(1)
proof (rule send_loop_rule [where P = "\<lambda>n ex pub prior w. list_all (fits_window cb) (cw_out w)"])
  fix n ex pub prior and w :: call_world and e' err
  assume "list_all (fits_window cb) (cw_out w)"
  moreover have "fits_window cb (assemble_failure err)"
    by (simp add: assemble_failure_def split: assemble_error.split rrc_error.split)
  ultimately show "list_all (fits_window cb) (cw_out (w\<lparr>cw_engine := e', cw_out := cw_out w @ [assemble_failure err]\<rparr>))"
    by simp
next
  fix n ex pub prior and w :: call_world and e' res out usage
  assume out: "list_all (fits_window cb) (cw_out w)" and asm: "call_assemble v r f n ex prior w = Some (e', Inr res)"
    and send: "send_round v r f n ex pub res (cw_out w) = (out, usage, None)"
  have "list_all (fits_window cb) out"
    by (rule send_round_fits [OF send out publish_fits [OF asm assms(3-6)]])
  then show "list_all (fits_window cb) (cw_out (recordProvenance v r (cf_anchor f) (cf_turnRecord f) (as_Selection res)
      (observeUsage v r (at_TotalTokens (as_Telemetry res)) (cf_budget f) usage (w\<lparr>cw_engine := e', cw_out := out\<rparr>))))"
    by (intro closing_fits) simp
next
  fix n ex pub prior and w :: call_world and e' res out usage err why
  assume out: "list_all (fits_window cb) (cw_out w)" and asm: "call_assemble v r f n ex prior w = Some (e', Inr res)"
    and send: "send_round v r f n ex pub res (cw_out w) = (out, usage, Some err)"
  have "list_all (fits_window cb) out"
    by (rule send_round_fits [OF send out publish_fits [OF asm assms(3-6)]])
  then show "list_all (fits_window cb) (cw_out (w\<lparr>cw_engine := e', cw_out := out @ [YieldErr why]\<rparr>))"
    and "list_all (fits_window cb) (cw_out (w\<lparr>cw_engine := e', cw_out := out\<rparr>))" by simp_all
qed (rule assms(2))

lemma forwardCurrentTurn_fits:
  "list_all (fits_window cb) (cw_out w) \<Longrightarrow> list_all (fits_window cb) (cw_out (forwardCurrentTurn v r req stream w))"
  using forwardCurrentTurn_out [of v r req stream w] handed_fits by auto

text \<open>C7: The wire fits the window the user declared. Whenever the converted budget is positive, every
  assembly of the call, overflow retries included, counts at most the declared context window:
  multiplied by the learned scale when the counter is grounded, as it is otherwise.\<close>

theorem GenerateContent_fits:
  assumes "0 < call_budget r (cw_scales w) (cfg_ContextBudgetTokens (en_cfg (cw_engine w)))"
  shows "case GenerateContent v r req stream (w\<lparr>cw_out := []\<rparr>) of
     None \<Rightarrow> True
   | Some w' \<Rightarrow> list_all (fits_window (cfg_ContextBudgetTokens (en_cfg (cw_engine w)))) (cw_out w')"
proof (cases rule: GenerateContent_cases [of v r req stream "w\<lparr>cw_out := []\<rparr>"])
  case (stopped x)
  then show ?thesis by auto
next
  case forwarded
  then show ?thesis using forwardCurrentTurn_fits [of _ "w\<lparr>cw_out := []\<rparr>" v r req stream] by simp
next
  case (sent f)
  obtain s where "call_scale r (cw_scales w) = Fin s" "0 \<le> s"
    "real_of_int (call_budget r (cw_scales w) (cfg_ContextBudgetTokens (en_cfg (cw_engine w)))) * (if s = 0 then 1 else s)
       \<le> real_of_int (cfg_ContextBudgetTokens (en_cfg (cw_engine w)))"
    using grounded_budget [OF assms] by blast
  with send_loop_fits [of v r f 0 "[]" False None "w\<lparr>cw_out := []\<rparr>"] assms sent(2-4) show ?thesis
    unfolding sent(1) by (auto split: option.split)
qed

section \<open>Provenance of a broken stream\<close>

text \<open>A stream that fails after its first chunk is a send without error, so the round ends with
  the provenance of a completed generation recorded in the graph; the source documents that a
  failed send records nothing.\<close>

lemma broken_stream_recorded:
  assumes "call_assemble v r f n ex prior w = Some (e', Inr res)" and "cf_stream f"
    and "\<And>q. cp_Stream (ce_completer v) n q = [Inr c, Inl err]" and "\<not> sk_Done c"
  shows "\<exists>w'. send_loop v r f n ex pub prior w = Some w' \<and>
    cw_engine w' = fst (RecordProvenance (ce_provNow v) (Some (cf_anchor f))
      (contributors_of (cf_turnRecord f) (as_Selection res)) e')"
proof -
  let ?out = "cw_out w @ publish r f pub res"
  obtain out usage e where send: "send_round v r f n ex pub res (cw_out w) = (out, usage, e)"
    by (cases "send_round v r f n ex pub res (cw_out w)")
  then have tried: "tryStream v r n (completionRequest (cf_req f) (cf_stream f) (as_Wire res) (cf_tools f)
      (cfg_ContextBudgetTokens (cf_cfg f))) ?out = (out, usage, e)"
    using assms(2) by (simp add: send_round_def try_send_def)
  then have none: "e = None" by (cases rule: tryStream_cases) (simp_all add: assms(3))
  from tried have "usage = None"
  proof (cases rule: tryStream_cases)
    case (stream c' rest)
    then have eq: "c' = c \<and> rest = [Inl err]" by (simp add: assms(3))
    obtain content fired pending where cc: "chunk_content r (ce_json v) (sk_Delta c) [] = (content, fired, pending)"
      by (cases "chunk_content r (ce_json v) (sk_Delta c) []")
    from stream(3) eq show ?thesis using assms(4) by (auto simp: cc split: prod.splits bool.splits)
  qed simp_all
  with send none assms(1) show ?thesis
    by (simp add: send_loop_unfold [of v r f n] observeUsage_def recordProvenance_def split: prod.split)
qed

section \<open>A worked call\<close>

definition example_bridge :: RRCLLM where
  "example_bridge =
     \<lparr>rl_db = CorpusStore.extend example_store
        \<lparr>bs_RecentMessages = (\<lambda>_ _. Inr [example_question]), bs_TurnMessages = (\<lambda>_ _. Inr []),
         bs_PrecedingTurnID = (\<lambda>_ _. Inr '''')\<rparr>,
      rl_threadID = ''t'', rl_Scope = SELECTION_SCOPE_THREAD, rl_CurrentTurnID = '''', rl_OnStream = True,
      rl_OnSelection = True, rl_OnEdge = True, rl_OnAssemble = True, rl_OnUsage = True,
      rl_Scales = Some ''m'', rl_CountText = None\<rparr>"

definition example_reader :: "StreamChunk stream_item list \<Rightarrow> call_env" where
  "example_reader items =
     \<lparr>ce_completer = \<lparr>cp_Complete = (\<lambda>_ _. Inl unavailable), cp_Stream = (\<lambda>_ _. items)\<rparr>,
      ce_json = braces_codec, ce_MarshalAny = (\<lambda>_. None), ce_MarshalTool = (\<lambda>_ _ _. None), ce_takes = 3,
      ce_rng = event_order, ce_below = sorted_list_of_fset, ce_fetched = sorted_list_of_fset,
      ce_now = (\<lambda>_ _. 0), ce_provNow = (\<lambda>_. 0), ce_fault = NoFault\<rparr>"

definition example_world :: call_world where
  "example_world =
     \<lparr>cw_engine = event_engine,
      cw_scales = fst (observe cold_call \<lparr>st_models = fmempty, st_file = Absent\<rparr>), cw_out = []\<rparr>"

definition example_llm_request :: LLMRequest where
  "example_llm_request = \<lparr>lq_Model = ''m'', lq_Contents = [], lq_Config = None\<rparr>"

theorem GenerateContent_returns_witness:
  "\<exists>w'. GenerateContent (example_reader []) example_bridge example_llm_request True (example_world\<lparr>cw_out := []\<rparr>) = Some w' \<and>
    (selections (cw_out w') = [] \<and> sends (cw_out w') \<le> 1 \<or>
     (\<exists>s. selections (cw_out w') = [s] \<and> sends (cw_out w') \<le> card (sm_MessageId ` set (sr_Selected s)) + 1))"
proof -
  have "CorpusStore.truncate (rl_db example_bridge) = example_store"
    by (simp add: example_bridge_def CorpusStore.truncate_def CorpusStore.extend_def)
  then have "store_contract (Some (CorpusStore.truncate (rl_db example_bridge)))"
    using example_store_ok [of 3 0] by (simp add: example_request_def)
  from GenerateContent_returns [OF this, of "example_reader []" example_llm_request True example_world]
  show ?thesis by (simp add: example_bridge_def)
qed

lemma cold_scale: "Scale (cw_scales example_world) ''m'' = Fin (3 / 2)"
proof -
  have "admits cold_call" by (simp add: cold_call_def admits_def wrap64_def)
  then show ?thesis
    by (simp add: Scale_def observe_models cold_call_def push_ratio_def lookup_or_def ratio_of_def ring_window_def
        example_world_def)
qed

theorem GenerateContent_fits_witness:
  "call_budget example_bridge (cw_scales example_world) 150000 = 100000 \<and>
   (case GenerateContent (example_reader []) example_bridge example_llm_request True (example_world\<lparr>cw_out := []\<rparr>) of
      None \<Rightarrow> True | Some w' \<Rightarrow> list_all (fits_window 150000) (cw_out w'))"
proof
  show b: "call_budget example_bridge (cw_scales example_world) 150000 = 100000"
    by (simp add: call_budget_def example_bridge_def cold_scale)
  have cfg: "cfg_ContextBudgetTokens (en_cfg (cw_engine example_world)) = 150000"
    by (simp add: example_world_def event_engine_def DefaultConfig_def)
  show "case GenerateContent (example_reader []) example_bridge example_llm_request True (example_world\<lparr>cw_out := []\<rparr>) of
      None \<Rightarrow> True | Some w' \<Rightarrow> list_all (fits_window 150000) (cw_out w')"
    using GenerateContent_fits [of example_bridge example_world "example_reader []" example_llm_request True, unfolded cfg b]
    by simp
qed

end
