(* ===== verification/Pubsub.thy ===== *)
theory Pubsub
  imports Go_Prelude
begin

text \<open>
  \<^verbatim>\<open>service/pubsub/pubsub.go\<close>: fan-out of runtime events to subscribers over buffered
  channels. A channel is a reference into a heap that holds its buffer and whether it is closed;
  sending on a closed channel and closing one twice panic, which is \<open>None\<close>. Subscribing
  and unsubscribing hold the write lock, so nothing overlaps them. Publishing holds the read lock:
  the subscribers stay as they are until it ends, but two publications may alternate send by send,
  and receives may fall in between. A history of a topic is therefore a list of whole operations,
  receives, and single sends to a current subscriber, which are the pieces overlapping
  publications break into.
\<close>

section \<open>Channels\<close>

record 'e channel =
  ch_buf :: "'e list"
  ch_closed :: bool

type_synonym 'e chan_heap = "(nat, 'e channel) fmap"

definition sub_buffer :: nat where
  "sub_buffer = 16"

abbreviation fresh_channel :: "'e channel" where
  "fresh_channel \<equiv> \<lparr>ch_buf = [], ch_closed = False\<rparr>"

text \<open>A send in a \<^verbatim>\<open>select\<close> with a default: a full buffer drops the event.\<close>

definition offer :: "'e \<Rightarrow> nat \<Rightarrow> 'e chan_heap \<Rightarrow> ('e chan_heap \<times> bool) option" where
  "offer event c h =
     (case fmlookup h c of
        None \<Rightarrow> Some (h, False)
      | Some x \<Rightarrow>
          if ch_closed x then None
          else if length (ch_buf x) < sub_buffer then Some (fmupd c (x\<lparr>ch_buf := ch_buf x @ [event]\<rparr>) h, True)
          else Some (h, False))"

definition close_channel :: "nat \<Rightarrow> 'e chan_heap \<Rightarrow> 'e chan_heap option" where
  "close_channel c h =
     (case fmlookup h c of
        None \<Rightarrow> None
      | Some x \<Rightarrow> if ch_closed x then None else Some (fmupd c (x\<lparr>ch_closed := True\<rparr>) h))"

definition receive :: "nat \<Rightarrow> 'e chan_heap \<Rightarrow> 'e chan_heap" where
  "receive c h = (case fmlookup h c of None \<Rightarrow> h | Some x \<Rightarrow> fmupd c (x\<lparr>ch_buf := tl (ch_buf x)\<rparr>) h)"

fun publish_loop :: "'e \<Rightarrow> nat list \<Rightarrow> 'e chan_heap \<Rightarrow> int \<Rightarrow> ('e chan_heap \<times> int) option" where
  "publish_loop event [] h sent = Some (h, sent)"
| "publish_loop event (c # cs) h sent =
     (case offer event c h of
        None \<Rightarrow> None
      | Some (h', True) \<Rightarrow> publish_loop event cs h' (sent + 1)
      | Some (h', False) \<Rightarrow> publish_loop event cs h' sent)"

section \<open>Topics\<close>

record 'e Topic =
  tp_subs :: "(string, nat list) fmap"
  tp_heap :: "'e chan_heap"
  tp_next :: nat

definition NewTopic :: "'e Topic" where
  "NewTopic = \<lparr>tp_subs = fmempty, tp_heap = fmempty, tp_next = 0\<rparr>"

definition Topic_Subscribe :: "string \<Rightarrow> 'e Topic \<Rightarrow> nat \<times> 'e Topic" where
  "Topic_Subscribe key t =
     (let ch = tp_next t in
      (ch, \<lparr>tp_subs = fmupd key (lookup_or [] (tp_subs t) key @ [ch]) (tp_subs t),
            tp_heap = fmupd ch fresh_channel (tp_heap t), tp_next = ch + 1\<rparr>))"

definition Topic_Unsubscribe :: "string \<Rightarrow> nat \<Rightarrow> 'e Topic \<Rightarrow> 'e Topic option" where
  "Topic_Unsubscribe key ch t =
     (let list = lookup_or [] (tp_subs t) key in
      if ch \<in> set list then
        (case close_channel ch (tp_heap t) of
           None \<Rightarrow> None
         | Some h \<Rightarrow> Some (t\<lparr>tp_subs := fmupd key (remove1 ch list) (tp_subs t), tp_heap := h\<rparr>))
      else Some t)"

definition Topic_Publish :: "string \<Rightarrow> 'e \<Rightarrow> 'e Topic \<Rightarrow> ('e Topic \<times> int) option" where
  "Topic_Publish key event t =
     (case publish_loop event (lookup_or [] (tp_subs t) key) (tp_heap t) 0 of
        None \<Rightarrow> None
      | Some (h, sent) \<Rightarrow> Some (t\<lparr>tp_heap := h\<rparr>, sent))"

section \<open>Broadcasts\<close>

record 'e Broadcast =
  bc_subs :: "nat list"
  bc_heap :: "'e chan_heap"
  bc_next :: nat

definition NewBroadcast :: "'e Broadcast" where
  "NewBroadcast = \<lparr>bc_subs = [], bc_heap = fmempty, bc_next = 0\<rparr>"

definition Broadcast_Subscribe :: "'e Broadcast \<Rightarrow> nat \<times> 'e Broadcast" where
  "Broadcast_Subscribe b =
     (let ch = bc_next b in
      (ch, \<lparr>bc_subs = bc_subs b @ [ch], bc_heap = fmupd ch fresh_channel (bc_heap b), bc_next = ch + 1\<rparr>))"

definition Broadcast_Unsubscribe :: "nat \<Rightarrow> 'e Broadcast \<Rightarrow> 'e Broadcast option" where
  "Broadcast_Unsubscribe ch b =
     (if ch \<in> set (bc_subs b) then
        (case close_channel ch (bc_heap b) of
           None \<Rightarrow> None
         | Some h \<Rightarrow> Some (b\<lparr>bc_subs := remove1 ch (bc_subs b), bc_heap := h\<rparr>))
      else Some b)"

definition Broadcast_Publish :: "'e \<Rightarrow> 'e Broadcast \<Rightarrow> ('e Broadcast \<times> int) option" where
  "Broadcast_Publish event b =
     (case publish_loop event (bc_subs b) (bc_heap b) 0 of
        None \<Rightarrow> None
      | Some (h, sent) \<Rightarrow> Some (b\<lparr>bc_heap := h\<rparr>, sent))"

section \<open>Histories\<close>

text \<open>One operation, by a publisher, a subscriber or a consumer; \<open>None\<close> is a panic.
  \<open>DoSend key i event\<close> is one round of the loop of a publication that others overlap: the
  send to the subscriber at index \<open>i\<close>.\<close>

definition send_one :: "'e \<Rightarrow> nat list \<Rightarrow> nat \<Rightarrow> 'e chan_heap \<Rightarrow> 'e chan_heap option" where
  "send_one event cs i h = (if i < length cs then map_option fst (offer event (cs ! i) h) else Some h)"

datatype ('k, 'e) fan_action = DoSubscribe 'k | DoUnsubscribe 'k nat | DoPublish 'k 'e | DoSend 'k nat 'e | DoReceive nat

fun topic_step :: "(string, 'e) fan_action \<Rightarrow> 'e Topic \<Rightarrow> 'e Topic option" where
  "topic_step (DoSubscribe key) t = Some (snd (Topic_Subscribe key t))"
| "topic_step (DoUnsubscribe key c) t = Topic_Unsubscribe key c t"
| "topic_step (DoPublish key event) t = map_option fst (Topic_Publish key event t)"
| "topic_step (DoSend key i event) t =
     map_option (\<lambda>h. t\<lparr>tp_heap := h\<rparr>) (send_one event (lookup_or [] (tp_subs t) key) i (tp_heap t))"
| "topic_step (DoReceive c) t = Some (t\<lparr>tp_heap := receive c (tp_heap t)\<rparr>)"

fun broadcast_step :: "(unit, 'e) fan_action \<Rightarrow> 'e Broadcast \<Rightarrow> 'e Broadcast option" where
  "broadcast_step (DoSubscribe _) b = Some (snd (Broadcast_Subscribe b))"
| "broadcast_step (DoUnsubscribe _ c) b = Broadcast_Unsubscribe c b"
| "broadcast_step (DoPublish _ event) b = map_option fst (Broadcast_Publish event b)"
| "broadcast_step (DoSend _ i event) b =
     map_option (\<lambda>h. b\<lparr>bc_heap := h\<rparr>) (send_one event (bc_subs b) i (bc_heap b))"
| "broadcast_step (DoReceive c) b = Some (b\<lparr>bc_heap := receive c (bc_heap b)\<rparr>)"

fun run_ops :: "('a \<Rightarrow> 's \<Rightarrow> 's option) \<Rightarrow> 'a list \<Rightarrow> 's \<Rightarrow> 's option" where
  "run_ops step [] s = Some s"
| "run_ops step (a # as) s = (case step a s of None \<Rightarrow> None | Some s' \<Rightarrow> run_ops step as s')"

section \<open>Publishing to open channels\<close>

definition chan_open :: "'e chan_heap \<Rightarrow> nat \<Rightarrow> bool" where
  "chan_open h c = (case fmlookup h c of None \<Rightarrow> False | Some x \<Rightarrow> \<not> ch_closed x)"

definition buffer :: "'e chan_heap \<Rightarrow> nat \<Rightarrow> 'e list" where
  "buffer h c = (case fmlookup h c of None \<Rightarrow> [] | Some x \<Rightarrow> ch_buf x)"

definition has_room :: "'e chan_heap \<Rightarrow> nat \<Rightarrow> bool" where
  "has_room h c = (length (buffer h c) < sub_buffer)"

text \<open>What a publish to the channels \<open>cs\<close> does to a heap.\<close>

definition delivers :: "'e \<Rightarrow> nat list \<Rightarrow> 'e chan_heap \<Rightarrow> 'e chan_heap \<Rightarrow> int \<Rightarrow> bool" where
  "delivers event cs h h' sent \<longleftrightarrow>
     sent = int (length (filter (has_room h) cs)) \<and>
     (\<forall>c. chan_open h' c = chan_open h c \<and>
        buffer h' c = (if c \<in> set cs \<and> has_room h c then buffer h c @ [event] else buffer h c))"

lemma offer_open:
  assumes "chan_open h c"
  obtains h' where "offer event c h = Some (h', has_room h c)"
    "\<And>c'. chan_open h' c' = chan_open h c'"
    "\<And>c'. buffer h' c' = (if c' = c \<and> has_room h c then buffer h c @ [event] else buffer h c')"
proof -
  obtain x where x: "fmlookup h c = Some x" "\<not> ch_closed x"
    using assms by (auto simp: chan_open_def split: option.splits)
  let ?h = "if has_room h c then fmupd c (x\<lparr>ch_buf := ch_buf x @ [event]\<rparr>) h else h"
  show thesis
    by (rule that [of ?h])
       (use x in \<open>auto simp: offer_def chan_open_def buffer_def has_room_def\<close>)
qed

lemma send_one_open:
  assumes "list_all (chan_open h) cs"
  shows "\<exists>h'. send_one event cs i h = Some h' \<and> (\<forall>c. chan_open h' c = chan_open h c)"
proof (cases "i < length cs")
  case True
  with assms have "chan_open h (cs ! i)" by (simp add: list_all_length)
  then obtain h' where "offer event (cs ! i) h = Some (h', has_room h (cs ! i))"
    "\<And>c'. chan_open h' c' = chan_open h c'"
    by (rule offer_open [of h "cs ! i" event]) auto
  with True show ?thesis by (simp add: send_one_def)
qed (simp add: send_one_def)

lemma publish_loop_delivers:
  "distinct cs \<Longrightarrow> list_all (chan_open h) cs \<Longrightarrow>
   \<exists>h' n. publish_loop event cs h sent = Some (h', sent + n) \<and> delivers event cs h h' n"
proof (induction cs arbitrary: h sent)
  case Nil
  then show ?case by (simp add: delivers_def)
next
  case (Cons c cs)
  have "chan_open h c" using Cons.prems by simp
  then obtain h1 where h1: "offer event c h = Some (h1, has_room h c)"
    "\<And>c'. chan_open h1 c' = chan_open h c'"
    "\<And>c'. buffer h1 c' = (if c' = c \<and> has_room h c then buffer h c @ [event] else buffer h c')"
    by (erule offer_open [of h c event])
  let ?k = "if has_room h c then 1 else 0"
  have "list_all (chan_open h1) cs" using Cons.prems h1(2) by (simp add: list_all_iff)
  from Cons.IH [OF _ this, of "sent + ?k"] Cons.prems obtain h' n where
    step: "publish_loop event cs h1 (sent + ?k) = Some (h', sent + ?k + n)" "delivers event cs h1 h' n" by auto
  have room: "has_room h1 c' = has_room h c'" if "c' \<in> set cs" for c'
    using that Cons.prems h1(3) [of c'] by (auto simp: has_room_def)
  have "publish_loop event (c # cs) h sent = Some (h', sent + (?k + n))"
    using step(1) h1(1) by (cases "has_room h c") (simp_all add: add.assoc)
  moreover have "delivers event (c # cs) h h' (?k + n)"
  proof -
    have "filter (has_room h1) cs = filter (has_room h) cs" using room by (intro filter_cong) auto
    then show ?thesis using step(2) h1(2,3) room Cons.prems by (auto simp: delivers_def)
  qed
  ultimately show ?case by blast
qed

lemma close_open: "chan_open h c \<Longrightarrow> \<exists>h'. close_channel c h = Some h' \<and>
    (\<forall>c'. chan_open h' c' = (chan_open h c' \<and> c' \<noteq> c))"
  by (auto simp: chan_open_def close_channel_def split: option.splits)

lemma open_fresh: "chan_open (fmupd c fresh_channel h) c' = (c' = c \<or> chan_open h c')"
  by (simp add: chan_open_def)

lemma receive_open: "chan_open (receive c h) c' = chan_open h c'"
  by (auto simp: receive_def chan_open_def split: option.split)

section \<open>The contract of a fan-out\<close>

text \<open>What a topic and a broadcast have in common: the channels an event goes to, and the
  operations that keep all of them open.\<close>

locale fan_out =
  fixes inv :: "'s \<Rightarrow> bool" and targets :: "'k \<Rightarrow> 's \<Rightarrow> nat list" and heap :: "'s \<Rightarrow> 'e chan_heap"
    and with_heap :: "'e chan_heap \<Rightarrow> 's \<Rightarrow> 's" and publish :: "'k \<Rightarrow> 'e \<Rightarrow> 's \<Rightarrow> ('s \<times> int) option"
    and subscribe :: "'k \<Rightarrow> 's \<Rightarrow> nat \<times> 's" and unsubscribe :: "'k \<Rightarrow> nat \<Rightarrow> 's \<Rightarrow> 's option" and new :: 's
    and step :: "('k, 'e) fan_action \<Rightarrow> 's \<Rightarrow> 's option"
  assumes inv_new: "inv new"
    and inv_targets: "inv s \<Longrightarrow> distinct (targets k s) \<and> list_all (chan_open (heap s)) (targets k s)"
    and inv_heap: "inv s \<Longrightarrow> (\<And>c. chan_open h c = chan_open (heap s) c) \<Longrightarrow> inv (with_heap h s)"
    and heap_with [simp]: "heap (with_heap h s) = h"
    and publish_eq: "publish k event s =
      (case publish_loop event (targets k s) (heap s) 0 of
         None \<Rightarrow> None | Some (h, sent) \<Rightarrow> Some (with_heap h s, sent))"
    and inv_subscribe: "inv s \<Longrightarrow> inv (snd (subscribe k s))"
    and inv_unsubscribe: "inv s \<Longrightarrow> \<exists>s'. unsubscribe k c s = Some s' \<and> inv s'"
    and step_eq: "step a s =
      (case a of
         DoSubscribe k \<Rightarrow> Some (snd (subscribe k s))
       | DoUnsubscribe k c \<Rightarrow> unsubscribe k c s
       | DoPublish k event \<Rightarrow> map_option fst (publish k event s)
       | DoSend k i event \<Rightarrow> map_option (\<lambda>h. with_heap h s) (send_one event (targets k s) i (heap s))
       | DoReceive c \<Rightarrow> Some (with_heap (receive c (heap s)) s))"
begin

lemma publish_delivers:
  assumes "inv s"
  shows "\<exists>s' n. publish k event s = Some (s', n) \<and> inv s' \<and> delivers event (targets k s) (heap s) (heap s') n"
proof -
  from inv_targets [OF assms, of k] publish_loop_delivers [of "targets k s" "heap s" event 0] obtain h n where
    "publish_loop event (targets k s) (heap s) 0 = Some (h, 0 + n)"
    and del: "delivers event (targets k s) (heap s) h n" by blast
  moreover have "inv (with_heap h s)" using del inv_heap [OF assms] by (simp add: delivers_def)
  ultimately show ?thesis by (auto simp: publish_eq)
qed

lemma step_inv: "inv s \<Longrightarrow> \<exists>s'. step a s = Some s' \<and> inv s'"
proof (cases a)
  case (DoPublish k event)
  assume "inv s"
  from publish_delivers [OF this, of k event] DoPublish show ?thesis by (auto simp: step_eq)
next
  case (DoSend k i event)
  assume "inv s"
  with inv_targets [of s k] send_one_open [of "heap s" "targets k s" event i] inv_heap [of s] DoSend
  show ?thesis by (auto simp: step_eq)
next
  case (DoReceive c)
  assume "inv s"
  with DoReceive show ?thesis using inv_heap [of s "receive c (heap s)"] receive_open by (auto simp: step_eq)
qed (use inv_subscribe inv_unsubscribe in \<open>auto simp: step_eq\<close>)

lemma run_inv: "inv s \<Longrightarrow> \<exists>s'. run_ops step as s = Some s' \<and> inv s'"
proof (induction as arbitrary: s)
  case (Cons a as)
  from step_inv [OF Cons.prems, of a] Cons.IH show ?case by fastforce
qed simp

lemma reachable_publish:
  "\<exists>s s' n. run_ops step as new = Some s \<and> publish k event s = Some (s', n) \<and>
     delivers event (targets k s) (heap s) (heap s') n"
  using run_inv [OF inv_new, of as] publish_delivers by blast

end

section \<open>Topics keep the contract\<close>

text \<open>Subscribed channels are open, each under one key and once.\<close>

definition topic_inv :: "'e Topic \<Rightarrow> bool" where
  "topic_inv t \<longleftrightarrow>
     (\<forall>key. distinct (lookup_or [] (tp_subs t) key) \<and>
        (\<forall>c \<in> set (lookup_or [] (tp_subs t) key).
           chan_open (tp_heap t) c \<and> c < tp_next t \<and>
           (\<forall>key'. c \<in> set (lookup_or [] (tp_subs t) key') \<longrightarrow> key' = key)))"

lemma topic_inv_subscribe: "topic_inv t \<Longrightarrow> topic_inv (snd (Topic_Subscribe key t))"
  by (auto simp: topic_inv_def Topic_Subscribe_def Let_def open_fresh less_Suc_eq split: if_splits)

lemma topic_inv_unsubscribe: "topic_inv t \<Longrightarrow> \<exists>t'. Topic_Unsubscribe key c t = Some t' \<and> topic_inv t'"
proof -
  assume t: "topic_inv t"
  show ?thesis
  proof (cases "c \<in> set (lookup_or [] (tp_subs t) key)")
    case True
    with t have "chan_open (tp_heap t) c" by (auto simp: topic_inv_def)
    from close_open [OF this] obtain h where h: "close_channel c (tp_heap t) = Some h"
      "\<forall>c'. chan_open h c' = (chan_open (tp_heap t) c' \<and> c' \<noteq> c)" by blast
    with True t show ?thesis
      by (auto simp: Topic_Unsubscribe_def Let_def topic_inv_def split: if_splits)
  next
    case False
    with t show ?thesis by (simp add: Topic_Unsubscribe_def)
  qed
qed

interpretation topic: fan_out topic_inv "\<lambda>key t. lookup_or [] (tp_subs t) key" tp_heap
  "\<lambda>h t. t\<lparr>tp_heap := h\<rparr>" Topic_Publish Topic_Subscribe Topic_Unsubscribe NewTopic topic_step
  by unfold_locales
     (simp_all split: fan_action.split add: topic_inv_subscribe topic_inv_unsubscribe Topic_Publish_def list_all_iff NewTopic_def,
      auto simp: topic_inv_def)

section \<open>Broadcasts keep the contract\<close>

definition broadcast_inv :: "'e Broadcast \<Rightarrow> bool" where
  "broadcast_inv b \<longleftrightarrow>
     distinct (bc_subs b) \<and> (\<forall>c \<in> set (bc_subs b). chan_open (bc_heap b) c \<and> c < bc_next b)"

lemma broadcast_inv_unsubscribe:
  "broadcast_inv b \<Longrightarrow> \<exists>b'. Broadcast_Unsubscribe c b = Some b' \<and> broadcast_inv b'"
proof -
  assume b: "broadcast_inv b"
  show ?thesis
  proof (cases "c \<in> set (bc_subs b)")
    case True
    with b have "chan_open (bc_heap b) c" by (auto simp: broadcast_inv_def)
    from close_open [OF this] obtain h where h: "close_channel c (bc_heap b) = Some h"
      "\<forall>c'. chan_open h c' = (chan_open (bc_heap b) c' \<and> c' \<noteq> c)" by blast
    with True b show ?thesis by (auto simp: Broadcast_Unsubscribe_def broadcast_inv_def)
  next
    case False
    with b show ?thesis by (simp add: Broadcast_Unsubscribe_def)
  qed
qed

interpretation broadcast: fan_out broadcast_inv "\<lambda>_ :: unit. bc_subs" bc_heap
  "\<lambda>h b. b\<lparr>bc_heap := h\<rparr>" "\<lambda>_. Broadcast_Publish" "\<lambda>_. Broadcast_Subscribe" "\<lambda>_. Broadcast_Unsubscribe" NewBroadcast
  broadcast_step
  by unfold_locales
     (simp_all split: fan_action.split add: broadcast_inv_unsubscribe Broadcast_Publish_def list_all_iff NewBroadcast_def,
      auto simp: broadcast_inv_def Broadcast_Subscribe_def Let_def open_fresh)

section \<open>Delivery\<close>

text \<open>C39: Publishing never panics and loses an event only on a full buffer. After any history of
  subscriptions, cancellations (repeated and unknown ones included), publishes, single sends of overlapping
  publishes and receives, publishing to a key appends the event to the buffer of every subscriber of that key that has
  room and to no other channel, and returns how many that were.\<close>

theorem Topic_Publish_delivers:
  "\<exists>t t' n. run_ops topic_step as NewTopic = Some t \<and> Topic_Publish key event t = Some (t', n) \<and>
     delivers event (lookup_or [] (tp_subs t) key) (tp_heap t) (tp_heap t') n"
  by (rule topic.reachable_publish)

text \<open>The same for a broadcast, whose every subscriber is a target.\<close>

lemma Broadcast_Publish_delivers:
  "\<exists>b b' n. run_ops broadcast_step as NewBroadcast = Some b \<and> Broadcast_Publish event b = Some (b', n) \<and>
     delivers event (bc_subs b) (bc_heap b) (bc_heap b') n"
  by (rule broadcast.reachable_publish)

end
