(* ===== verification/Approvals.thy ===== *)
theory Approvals
  imports Go_Prelude
begin

text \<open>
  \<^verbatim>\<open>service/approvals/registry.go\<close>: the channels over which a user's verdict on a tool
  call, or the answer to a question, reaches the waiting agent. Approvals and answers are two
  lanes of the same shape. Only the table lookup of a send runs under the lock: after it the
  sender is a goroutine on its own, \<open>ln_sending\<close>, that completes when the channel, of
  capacity 1, has room. So a history interleaves registrations, lookups, completions and
  receives freely: the relation \<open>lane_step\<close>. \<open>ln_owner\<close> is history, not state of the
  program: the call a channel was made for.
\<close>

section \<open>Lanes\<close>

record 'v lane =
  ln_table :: "(string, nat) fmap"
  ln_buffers :: "(nat, 'v list) fmap"
  ln_sending :: "(nat \<times> 'v) list"
  ln_next :: nat
  ln_owner :: "(nat, string) fmap"

definition empty_lane :: "'v lane" where
  "empty_lane = \<lparr>ln_table = fmempty, ln_buffers = fmempty, ln_sending = [], ln_next = 0, ln_owner = fmempty\<rparr>"

definition lane_register :: "string \<Rightarrow> 'v lane \<Rightarrow> nat \<times> 'v lane" where
  "lane_register callID l =
     (let ch = ln_next l in
      (ch, l\<lparr>ln_table := fmupd callID ch (ln_table l), ln_buffers := fmupd ch [] (ln_buffers l),
             ln_next := ch + 1, ln_owner := fmupd ch callID (ln_owner l)\<rparr>))"

definition lane_unregister :: "string \<Rightarrow> 'v lane \<Rightarrow> 'v lane" where
  "lane_unregister callID l = l\<lparr>ln_table := fmdrop callID (ln_table l)\<rparr>"

text \<open>The first half of a send: \<open>False\<close> is its answer when nothing is pending, otherwise the
  sender goes on to the channel.\<close>

definition lane_lookup :: "string \<Rightarrow> 'v \<Rightarrow> 'v lane \<Rightarrow> bool \<times> 'v lane" where
  "lane_lookup callID v l =
     (case fmlookup (ln_table l) callID of
        None \<Rightarrow> (False, l)
      | Some ch \<Rightarrow> (True, l\<lparr>ln_sending := ln_sending l @ [(ch, v)]\<rparr>))"

text \<open>The second half, of the \<open>i\<close>-th sender; \<open>None\<close> while it blocks.\<close>

definition lane_complete :: "nat \<Rightarrow> 'v lane \<Rightarrow> 'v lane option" where
  "lane_complete i l =
     (let (ch, v) = ln_sending l ! i; buf = lookup_or [] (ln_buffers l) ch in
      if length buf < 1
      then Some (l\<lparr>ln_buffers := fmupd ch (buf @ [v]) (ln_buffers l),
                   ln_sending := take i (ln_sending l) @ drop (Suc i) (ln_sending l)\<rparr>)
      else None)"

definition lane_receive :: "nat \<Rightarrow> 'v lane \<Rightarrow> ('v \<times> 'v lane) option" where
  "lane_receive ch l =
     (case lookup_or [] (ln_buffers l) ch of
        [] \<Rightarrow> None
      | v # vs \<Rightarrow> Some (v, l\<lparr>ln_buffers := fmupd ch vs (ln_buffers l)\<rparr>))"

section \<open>The registry\<close>

record Registry =
  rg_approvals :: "bool lane"
  rg_answers :: "string lane"
  rg_threadIDs :: "(string, string) fmap"

definition New :: Registry where
  "New = \<lparr>rg_approvals = empty_lane, rg_answers = empty_lane, rg_threadIDs = fmempty\<rparr>"

definition RegisterApproval :: "string \<Rightarrow> string \<Rightarrow> Registry \<Rightarrow> nat \<times> Registry" where
  "RegisterApproval callID threadID r =
     (case lane_register callID (rg_approvals r) of
        (ch, l) \<Rightarrow> (ch, r\<lparr>rg_approvals := l, rg_threadIDs := fmupd callID threadID (rg_threadIDs r)\<rparr>))"

definition UnregisterApproval :: "string \<Rightarrow> Registry \<Rightarrow> Registry" where
  "UnregisterApproval callID r =
     r\<lparr>rg_approvals := lane_unregister callID (rg_approvals r), rg_threadIDs := fmdrop callID (rg_threadIDs r)\<rparr>"

definition RegisterAnswer :: "string \<Rightarrow> Registry \<Rightarrow> nat \<times> Registry" where
  "RegisterAnswer callID r =
     (case lane_register callID (rg_answers r) of (ch, l) \<Rightarrow> (ch, r\<lparr>rg_answers := l\<rparr>))"

definition UnregisterAnswer :: "string \<Rightarrow> Registry \<Rightarrow> Registry" where
  "UnregisterAnswer callID r = r\<lparr>rg_answers := lane_unregister callID (rg_answers r)\<rparr>"

definition SendApproval :: "string \<Rightarrow> bool \<Rightarrow> Registry \<Rightarrow> bool \<times> Registry" where
  "SendApproval callID approved r =
     (case lane_lookup callID approved (rg_approvals r) of (ok, l) \<Rightarrow> (ok, r\<lparr>rg_approvals := l\<rparr>))"

definition SendAnswer :: "string \<Rightarrow> string \<Rightarrow> Registry \<Rightarrow> bool \<times> Registry" where
  "SendAnswer callID answer r =
     (case lane_lookup callID answer (rg_answers r) of (ok, l) \<Rightarrow> (ok, r\<lparr>rg_answers := l\<rparr>))"

definition ThreadIDForCall :: "string \<Rightarrow> Registry \<Rightarrow> string" where
  "ThreadIDForCall callID r = lookup_or '''' (rg_threadIDs r) callID"

section \<open>Histories of a lane\<close>

text \<open>A label says what happened; a sender's value is labelled with the call it was sent for,
  and so is a received one with the channel it came from.\<close>

datatype 'v lane_label =
    Registered string nat | Unregistered string | SentFor string 'v | Completed nat | Received nat 'v

inductive lane_step :: "'v lane \<Rightarrow> 'v lane_label \<Rightarrow> 'v lane \<Rightarrow> bool" where
  step_register: "lane_register callID l = (ch, l') \<Longrightarrow> lane_step l (Registered callID ch) l'"
| step_unregister: "lane_step l (Unregistered callID) (lane_unregister callID l)"
| step_lookup: "lane_lookup callID v l = (True, l') \<Longrightarrow> lane_step l (SentFor callID v) l'"
| step_complete: "i < length (ln_sending l) \<Longrightarrow> lane_complete i l = Some l' \<Longrightarrow> lane_step l (Completed i) l'"
| step_receive: "lane_receive ch l = Some (v, l') \<Longrightarrow> lane_step l (Received ch v) l'"

inductive lane_run :: "'v lane \<Rightarrow> 'v lane_label list \<Rightarrow> 'v lane \<Rightarrow> bool" where
  run_nil: "lane_run l [] l"
| run_snoc: "lane_run l labs l' \<Longrightarrow> lane_step l' lab l'' \<Longrightarrow> lane_run l (labs @ [lab]) l''"

section \<open>Verdicts reach their call\<close>

text \<open>The values under way: what senders hold and what buffers hold, by channel.\<close>

definition under_way :: "'v lane \<Rightarrow> (nat \<times> 'v) set" where
  "under_way l = set (ln_sending l) \<union> {(ch, v). v \<in> set (lookup_or [] (ln_buffers l) ch)}"

text \<open>Every channel in the table, and every value under way, belongs to the call it was made or
  sent for; a buffer holds one value at most.\<close>

definition owned :: "'v lane \<Rightarrow> string \<Rightarrow> nat \<Rightarrow> bool" where
  "owned l callID ch = (ch < ln_next l \<and> fmlookup (ln_owner l) ch = Some callID)"

definition lane_inv :: "'v lane_label list \<Rightarrow> 'v lane \<Rightarrow> bool" where
  "lane_inv labs l \<longleftrightarrow>
     (\<forall>callID ch. fmlookup (ln_table l) callID = Some ch \<longrightarrow> owned l callID ch) \<and>
     (\<forall>(ch, v) \<in> under_way l. \<exists>callID. owned l callID ch \<and> SentFor callID v \<in> set labs) \<and>
     (\<forall>ch. length (lookup_or [] (ln_buffers l) ch) \<le> 1) \<and>
     (\<forall>callID ch. Registered callID ch \<in> set labs \<longrightarrow> owned l callID ch)"

text \<open>How a step changes the values under way, the table and the owners.\<close>

lemma lane_step_under_way:
  assumes "lane_step l lab l'" and "(ch, v) \<in> under_way l'"
  shows "(ch, v) \<in> under_way l \<or> (\<exists>callID. lab = SentFor callID v \<and> fmlookup (ln_table l) callID = Some ch)"
  using assms
proof (cases rule: lane_step.cases)
  case (step_complete i)
  obtain c x where cx: "ln_sending l ! i = (c, x)" by (cases "ln_sending l ! i")
  then have "(c, x) \<in> set (ln_sending l)" using step_complete(2) nth_mem by metis
  with step_complete cx assms(2) show ?thesis
    by (auto simp: lane_complete_def under_way_def Let_def split: if_splits dest: in_set_takeD in_set_dropD)
qed (auto simp: under_way_def lane_register_def lane_unregister_def lane_lookup_def lane_receive_def Let_def
      split: option.splits list.splits if_splits)

lemma lane_step_owned: "lane_step l lab l' \<Longrightarrow> owned l callID ch \<Longrightarrow> owned l' callID ch"
  by (cases rule: lane_step.cases)
     (auto simp: owned_def lane_register_def lane_unregister_def lane_lookup_def lane_complete_def
       lane_receive_def Let_def split: option.splits list.splits if_splits prod.splits)

lemma lane_step_table:
  "lane_step l lab l' \<Longrightarrow> fmlookup (ln_table l') callID = Some ch \<Longrightarrow>
   fmlookup (ln_table l) callID = Some ch \<or> owned l' callID ch"
  by (cases rule: lane_step.cases)
     (auto simp: owned_def lane_register_def lane_unregister_def lane_lookup_def lane_complete_def
       lane_receive_def Let_def split: option.splits list.splits if_splits prod.splits)

lemma lane_step_registered: "lane_step l (Registered callID ch) l' \<Longrightarrow> owned l' callID ch"
  by (cases rule: lane_step.cases) (auto simp: owned_def lane_register_def Let_def)

lemma lane_step_buffers:
  assumes "lane_step l lab l'" and bound: "\<And>ch. length (lookup_or [] (ln_buffers l) ch) \<le> 1"
  shows "length (lookup_or [] (ln_buffers l') ch) \<le> 1"
  using assms(1)
proof (cases rule: lane_step.cases)
  case (step_receive c v)
  with bound [of c] bound [of ch] show ?thesis
    by (auto simp: lane_receive_def split: list.splits)
qed (use bound in \<open>auto simp: lane_register_def lane_unregister_def lane_lookup_def lane_complete_def Let_def
      split: option.splits if_splits prod.splits\<close>)

lemma lane_inv_step:
  assumes "lane_inv labs l" and "lane_step l lab l'"
  shows "lane_inv (labs @ [lab]) l'"
  unfolding lane_inv_def
proof (intro conjI allI impI ballI; (clarify)?)
  fix callID ch
  assume "fmlookup (ln_table l') callID = Some ch"
  with lane_step_table [OF assms(2)] lane_step_owned [OF assms(2)] assms(1) show "owned l' callID ch"
    unfolding lane_inv_def by blast
next
  fix ch v
  assume "(ch, v) \<in> under_way l'"
  from lane_step_under_way [OF assms(2) this] show "\<exists>callID. owned l' callID ch \<and> SentFor callID v \<in> set (labs @ [lab])"
    using assms(1) lane_step_owned [OF assms(2)] unfolding lane_inv_def by fastforce
next
  fix ch
  show "length (lookup_or [] (ln_buffers l') ch) \<le> 1"
    using lane_step_buffers [OF assms(2)] assms(1) unfolding lane_inv_def by blast
next
  fix callID ch
  assume "Registered callID ch \<in> set (labs @ [lab])"
  then show "owned l' callID ch"
    using assms lane_step_owned [OF assms(2)] lane_step_registered unfolding lane_inv_def by auto
qed

lemma lane_run_inv: "lane_run l labs l' \<Longrightarrow> l = empty_lane \<Longrightarrow> lane_inv labs l'"
proof (induction rule: lane_run.induct)
  case (run_nil l)
  then show ?case by (simp add: lane_inv_def empty_lane_def under_way_def)
next
  case (run_snoc l labs l' lab l'')
  then show ?case using lane_inv_step by blast
qed

text \<open>C40: A verdict reaches the call it was given for and no other. In every interleaving of
  registrations, unregistrations, sends and receives, a value received on the channel that was
  made for a call is one that was sent for that call, even when call ids are reused or verdicts
  arrive late.\<close>

theorem verdict_reaches_its_call:
  assumes "lane_run empty_lane labs l" and "Registered callID ch \<in> set labs"
    and "lane_receive ch l = Some (v, l')"
  shows "SentFor callID v \<in> set labs"
proof -
  have inv: "lane_inv labs l" using lane_run_inv [OF assms(1)] by simp
  have "(ch, v) \<in> under_way l"
    using assms(3) by (auto simp: lane_receive_def under_way_def split: list.splits)
  with inv obtain callID' where "owned l callID' ch" "SentFor callID' v \<in> set labs"
    unfolding lane_inv_def by blast
  moreover have "owned l callID ch" using inv assms(2) unfolding lane_inv_def by blast
  ultimately show ?thesis by (simp add: owned_def)
qed

section \<open>A second verdict\<close>

text \<open>A call that got two verdicts before the agent took one: the second sender is still there, and
  since the agent takes a single value and unregisters, it stays there. The lane after the
  first send has completed, the agent has unregistered, and nobody has received.\<close>

definition twice_answered :: "bool lane" where
  "twice_answered =
     lane_unregister ''c'' (the (lane_complete 0
       (snd (lane_lookup ''c'' False (snd (lane_lookup ''c'' True (snd (lane_register ''c'' empty_lane))))))))"

lemma lane_run_Cons:
  assumes "lane_step l lab l'" and "lane_run l' labs l''"
  shows "lane_run l (lab # labs) l''"
  using assms(2,1)
proof (induction rule: lane_run.induct)
  case (run_nil l')
  then show ?case using lane_run.run_snoc [OF lane_run.run_nil, of l lab l'] by simp
next
  case (run_snoc l' labs m lab' m')
  then show ?case using lane_run.run_snoc [of l "lab # labs" m lab' m'] by simp
qed

lemma twice_answered_reached:
  "lane_run empty_lane [Registered ''c'' 0, SentFor ''c'' True, SentFor ''c'' False, Completed 0, Unregistered ''c'']
     twice_answered"
proof -
  define l1 where "l1 = snd (lane_register ''c'' (empty_lane :: bool lane))"
  define l2 where "l2 = snd (lane_lookup ''c'' True l1)"
  define l3 where "l3 = snd (lane_lookup ''c'' False l2)"
  define l4 where "l4 = the (lane_complete 0 l3)"
  note defs = l1_def l2_def l3_def l4_def lane_register_def lane_lookup_def lane_complete_def empty_lane_def
  have "lane_step empty_lane (Registered ''c'' 0) l1" by (rule step_register) (simp add: defs)
  moreover have "lane_step l1 (SentFor ''c'' True) l2" by (rule step_lookup) (simp add: defs)
  moreover have "lane_step l2 (SentFor ''c'' False) l3" by (rule step_lookup) (simp add: defs)
  moreover have "lane_step l3 (Completed 0) l4" by (rule step_complete) (simp_all add: defs)
  moreover have "lane_step l4 (Unregistered ''c'') twice_answered"
    unfolding twice_answered_def l1_def [symmetric] l2_def [symmetric] l3_def [symmetric] l4_def [symmetric]
    by (rule step_unregister)
  ultimately show ?thesis by (blast intro: lane_run_Cons run_nil)
qed

text \<open>A full buffer keeps every sender on its channel until somebody receives from it.\<close>

lemma blocked_step:
  assumes "lane_step l lab l'" and "\<And>v. lab \<noteq> Received ch v" and "ch < ln_next l"
    and "lookup_or [] (ln_buffers l) ch \<noteq> []" and "(ch, x) \<in> set (ln_sending l)"
  shows "ch < ln_next l' \<and> lookup_or [] (ln_buffers l') ch \<noteq> [] \<and> (ch, x) \<in> set (ln_sending l')"
  using assms(1)
proof (cases rule: lane_step.cases)
  case (step_complete i)
  obtain c v where cv: "ln_sending l ! i = (c, v)" by (cases "ln_sending l ! i")
  then have c: "c \<noteq> ch" and l': "ln_sending l' = take i (ln_sending l) @ drop (Suc i) (ln_sending l)"
    using step_complete(3) assms(4) by (auto simp: lane_complete_def Let_def split: if_splits)
  have "ln_sending l = take i (ln_sending l) @ (c, v) # drop (Suc i) (ln_sending l)"
    using id_take_nth_drop [OF step_complete(2)] cv by simp
  then have "set (ln_sending l) = insert (c, v) (set (ln_sending l'))"
    unfolding l' by (metis list.simps(15) set_append Un_insert_right)
  with c assms(3-5) step_complete(3) cv show ?thesis
    by (auto simp: lane_complete_def Let_def split: if_splits)
next
  case (step_receive c v)
  then have "c \<noteq> ch" using assms(2) by auto
  with step_receive assms(3-5) show ?thesis by (auto simp: lane_receive_def split: list.splits)
qed (use assms in \<open>auto simp: lane_register_def lane_unregister_def lane_lookup_def Let_def split: option.splits\<close>)

lemma second_verdict_blocks:
  assumes "lane_run twice_answered labs l" and "\<And>v. Received 0 v \<notin> set labs"
  shows "(0, False) \<in> set (ln_sending l)"
proof -
  have "0 < ln_next l \<and> lookup_or [] (ln_buffers l) 0 \<noteq> [] \<and> (0, False) \<in> set (ln_sending l)"
    using assms
  proof (induction "twice_answered" labs l rule: lane_run.induct)
    case run_nil
    then show ?case
      by (simp add: twice_answered_def lane_register_def lane_lookup_def lane_complete_def lane_unregister_def empty_lane_def)
  next
    case (run_snoc labs l' lab l'')
    then show ?case using blocked_step [of l' lab l'' 0 False] by auto
  qed
  then show ?thesis by blast
qed

theorem verdict_reaches_its_call_witness:
  "SentFor ''c'' True \<in> set [Registered ''c'' 0, SentFor ''c'' True, SentFor ''c'' False, Completed 0, Unregistered ''c'']"
  by (rule verdict_reaches_its_call [OF twice_answered_reached, of "''c''" 0])
     (simp_all add: twice_answered_def lane_register_def lane_lookup_def lane_complete_def lane_unregister_def
       empty_lane_def lane_receive_def)

end
