(* ===== verification/Spec2Isabelle.thy ===== *)
theory Spec2Isabelle
  imports Predicate_Algebra Local_Context Protocol_Closure Engine_Correct Provenance_Correct Assembly_Correct
    Model_Call_Correct Pubsub Approvals
begin

text \<open>
  Grudge keeps a lossless corpus of an agent's messages and, for every call of the language
  model, assembles the part of it the model has to see. This development models the engine that
  decides what that part is (\<^verbatim>\<open>rrc\<close>), the bridge that puts it on the wire
  (\<^verbatim>\<open>adkbridge\<close>), the provider layer the bridge calls (\<^verbatim>\<open>core\<close>) and two
  pieces of the service around it (\<^verbatim>\<open>service/pubsub\<close>,
  \<^verbatim>\<open>service/approvals\<close>), and proves them correct.

  \<^bold>\<open>How the parts interact.\<close> A model call (\<open>GenerateContent\<close>,
  \<^verbatim>\<open>adkbridge/rrcllm.go\<close>) loads the window of the current and the preceding turn,
  converts the declared context window into counter units with the learned token scale, and asks
  the engine to assemble. \<open>Assemble\<close> (\<^verbatim>\<open>rrc/assembly.go\<close>) closes the window
  under the tool protocol and sheds it to the budget; runs a selection event
  (\<^verbatim>\<open>rrc/prerequisite_selection.go\<close>), which scores candidates the chunk oracle
  retrieves and those provenance recalls, against a reference floor, and adds edges to the graph;
  walks the graph best-first (\<^verbatim>\<open>rrc/selection.go\<close>); reranks for diversity
  (\<^verbatim>\<open>rrc/engine.go\<close>); closes every selected message under the protocol
  (\<^verbatim>\<open>rrc/protocol.go\<close>) and sheds groups by density until the wire fits. The bridge
  sends the wire, retries on a context overflow with the weakest selected message dropped, feeds
  the reported usage back to the token scale and records provenance
  (\<^verbatim>\<open>rrc/provenance.go\<close>), which is the mass the next event recalls.

  \<^bold>\<open>Theories and code.\<close>
  \<^item> \<open>Go_Prelude\<close>, \<open>Float64\<close>, \<open>Float32\<close>, \<open>Go_Heap\<close>, \<open>Sha256\<close>: what the source uses
    of Go and its library. Maps are finite maps, strings lists of bytes; a
    \<^verbatim>\<open>float64\<close> is a real number, an infinity or NaN, with Go's comparisons and
    conversions, and exact arithmetic; narrowing to \<^verbatim>\<open>float32\<close> rounds to the
    nearest value, ties to even, and overflows to infinity; \<^verbatim>\<open>container/heap\<close> is its array code;
    SHA-256 is computed.
  \<^item> \<open>Proto_Types\<close>: the messages of \<^verbatim>\<open>proto/grudge\<close> and
    \<^verbatim>\<open>proto/pbtext\<close>.
  \<^item> \<open>Predicate_Algebra\<close> (\<^verbatim>\<open>rrc/predicate.go\<close>): both evaluators agree, and
    routing to a thread's shard loses nothing.
  \<^item> \<open>Chunking\<close> (\<^verbatim>\<open>rrc/chunk\<close>): splitting ends, is well formed and loses no
    byte.
  \<^item> \<open>Detection\<close> (\<^verbatim>\<open>rrc/detect.go\<close>, \<^verbatim>\<open>rrc/acceptance.go\<close>): the
    rank statistic bounds false alarms; a confidence stored in single
    precision gives its bits back within a bounded error, or infinity.
  \<^item> \<open>Edge_Dag\<close> (\<^verbatim>\<open>rrc/dag.go\<close>), \<open>Engine_Config\<close>
    (\<^verbatim>\<open>rrc/config.go\<close>, \<^verbatim>\<open>rrc/errors.go\<close>).
  \<^item> \<open>Selection\<close>, \<open>Selection_Correct\<close>, \<open>Selection_Reduction\<close>
    (\<^verbatim>\<open>rrc/selection.go\<close>): the walk returns exactly the chains above the loss
    ratio, best first; what the reduction leaves.
  \<^item> \<open>Protocol_Closure\<close> (\<^verbatim>\<open>rrc/protocol.go\<close>): closure is the connected set,
    and fails exactly on a missing or ambiguous counterpart.
  \<^item> \<open>Local_Context\<close> (\<^verbatim>\<open>rrc/local_context.go\<close>): windows, serialization and
    its fingerprint.
  \<^item> \<open>Provenance\<close>, \<open>Provenance_Correct\<close> (\<^verbatim>\<open>rrc/provenance.go\<close>): the
    mass walk is the sum over paths, and its reach is bounded.
  \<^item> \<open>Engine\<close>, \<open>Engine_Correct\<close> (\<^verbatim>\<open>rrc/engine.go\<close>,
    \<^verbatim>\<open>rrc/score_cache.go\<close>): the state record, admission, selection, reranking,
    fork and merge.
  \<^item> \<open>Prerequisite_Selection\<close>, \<open>Prerequisite_Correct\<close>
    (\<^verbatim>\<open>rrc/prerequisite_selection.go\<close>): an event changes only the cache and the
    graph, forms edges only into the anchor from outside the window, and what it accepts is
    selected when the loss ratio is a single-precision value.
  \<^item> \<open>Assembly\<close>, \<open>Assembly_Correct\<close> (\<^verbatim>\<open>rrc/assembly.go\<close>): the wire
    fits the budget, holds what it has to, accounts for every selected message; an assembly
    returns and its frame is known.
  \<^item> \<open>Token_Scale\<close> (\<^verbatim>\<open>rrc/tokenscale\<close>): the ring refines the history of
    admitted ratios and survives a restart.
  \<^item> \<open>Retry\<close> (\<^verbatim>\<open>core/errors.go\<close>, \<^verbatim>\<open>core/httpc\<close>): classification,
    the bounded loop, its delays, and that a retried stream never replays.
  \<^item> \<open>Genai_Codec\<close> (\<^verbatim>\<open>core/genaicodec\<close>): the round trip of a message.
  \<^item> \<open>Model_Call\<close>, \<open>Model_Call_Correct\<close> (\<^verbatim>\<open>adkbridge/rrcllm.go\<close>):
    a call returns, sends boundedly often, respects its consumer and its usage contract, and fits
    the declared window.
  \<^item> \<open>Pubsub\<close> (\<^verbatim>\<open>service/pubsub\<close>) and \<open>Approvals\<close>
    (\<^verbatim>\<open>service/approvals\<close>): publishing never panics and reaches every subscriber
    with room; a verdict reaches the call it was given for.

  \<^bold>\<open>Conventions.\<close> A struct is a record whose fields carry the struct's initials; an
  operation that mutates its receiver takes and returns the record. Errors are values of a sum; a
  Go panic is an error value or \<open>None\<close>, as each theory says. The order in which a Go map
  is ranged, the clock, and the random source are arguments, so the theorems hold for every
  choice. The scorer, the chunk oracle, the message stores, the completer and the JSON library
  are interfaces the program calls: records of functions, with what the program relies on as
  named hypotheses (\<open>store_contract\<close>, the oracle's contract). Integers are mathematical
  except where the source's width can matter, where the wrap-around is written out.

  \<^bold>\<open>Bounds and fuel.\<close> No definition takes fuel. Loops whose measure is plain are
  functions with a termination proof; the two whose end depends on what a store answers
  (\<open>shed_loop\<close>, \<open>send_loop\<close>) are partial functions into \<open>option\<close>, and
  that they return is proved. The retry loop ends by its attempt counter.

  \<^bold>\<open>Interfaces.\<close> \<open>weak_order\<close> is what a sort or a heap asks of a comparison,
  \<open>best_first_queue\<close> what the walks ask of a heap, \<open>edge_store\<close> what they ask of
  the graph, \<open>event_invariant\<close> what a selection event asks of a property of its state, and
  \<open>fan_out\<close> what publishing asks of topics and broadcasts; each is interpreted on the
  model's definitions.

  \<^bold>\<open>Not modelled.\<close> Rounding of double-precision arithmetic, durations in telemetry, and log text
  (the fields of a log line are kept where a theorem uses them). The agent runner and its tools,
  which drive an external framework; the provider adapters, which translate to provider JSON;
  storage, which is SQL; the oracle and the vector index, approximate search over a third-party
  graph, behind the oracle's contract here; the GraphQL layer, generated and forwarding; runtime
  wiring, configuration, attachments, prompts, skills, hooks, sandbox and tray, which are files
  and processes.
\<close>

end
